(* ===== verification/Prelude.thy ===== *)
theory Prelude
  imports Main "HOL-Library.Word" "HOL-Library.Monad_Syntax"
begin

text \<open>
  Shared vocabulary of the development.  C code that may run into undefined behaviour (a read
  through a null or dangling pointer, a copy past the end of an object, a double free) is a
  function into \<^typ>\<open>'a option\<close>, with \<^term>\<open>None\<close> for the fault; the do-notation of
  \<open>Monad_Syntax\<close> sequences such operations and the state is passed explicitly.  Byte arrays are
  lists of 8-bit words; \<open>memcpy\<close>, \<open>memcmp\<close>, \<open>memset\<close> and \<open>calloc\<close> are defined on them with
  their bounds.  The collections \<open>mem_simps\<close> and \<open>word_conv\<close> and the list lemmas below carry the
  component proofs.
\<close>

section \<open>Types of the model\<close>

type_synonym byte = "8 word"
type_synonym bytes = "byte list"
type_synonym u32 = "32 word"
type_synonym u64 = "64 word"
type_synonym addr = nat

abbreviation (input) NULL :: addr where
  "NULL \<equiv> 0"

named_theorems mem_simps \<open>rewrite rules for the byte-array primitives\<close>
named_theorems word_conv \<open>conversions between words and natural numbers\<close>

section \<open>Sizes fixed by libsodium's headers\<close>

definition crypto_generichash_BYTES :: nat where
  "crypto_generichash_BYTES = 32"

definition crypto_sign_BYTES :: nat where
  "crypto_sign_BYTES = 64"

definition crypto_sign_PUBLICKEYBYTES :: nat where
  "crypto_sign_PUBLICKEYBYTES = 32"

definition crypto_sign_SECRETKEYBYTES :: nat where
  "crypto_sign_SECRETKEYBYTES = 64"

lemmas sodium_sizes [simp] =
  crypto_generichash_BYTES_def crypto_sign_BYTES_def
  crypto_sign_PUBLICKEYBYTES_def crypto_sign_SECRETKEYBYTES_def

section \<open>Faults\<close>

definition require :: "bool \<Rightarrow> unit option" where
  "require b = (if b then Some () else None)"

lemma require_bind [simp]: "(require b \<bind> f) = (if b then f () else None)"
  by (simp add: require_def)

lemma require_eq_Some [simp]: "require b = Some u \<longleftrightarrow> b"
  by (simp add: require_def)

section \<open>Byte arrays\<close>

definition calloc :: "nat \<Rightarrow> bytes" where
  "calloc n = replicate n 0"

text \<open>\<open>memcpy(dst + off, src, n)\<close>: both ranges must lie inside their objects.\<close>

definition memcpy_at :: "bytes \<Rightarrow> nat \<Rightarrow> bytes \<Rightarrow> nat \<Rightarrow> bytes option" where
  "memcpy_at dst off src n =
     (if n \<le> length src \<and> off + n \<le> length dst
      then Some (take off dst @ take n src @ drop (off + n) dst) else None)"

abbreviation memcpy :: "bytes \<Rightarrow> bytes \<Rightarrow> nat \<Rightarrow> bytes option" where
  "memcpy dst src n \<equiv> memcpy_at dst 0 src n"

definition memset :: "bytes \<Rightarrow> byte \<Rightarrow> nat \<Rightarrow> bytes option" where
  "memset dst c n =
     (if n \<le> length dst then Some (replicate n c @ drop n dst) else None)"

text \<open>The sign of the first difference, as \<open>memcmp\<close> reports it.\<close>

fun byte_cmp :: "bytes \<Rightarrow> bytes \<Rightarrow> int" where
  "byte_cmp (x # xs) (y # ys) = (if x = y then byte_cmp xs ys else uint x - uint y)"
| "byte_cmp _ _ = 0"

definition memcmp :: "bytes \<Rightarrow> bytes \<Rightarrow> nat \<Rightarrow> int option" where
  "memcmp a b n =
     (if n \<le> length a \<and> n \<le> length b then Some (byte_cmp (take n a) (take n b)) else None)"

lemma length_calloc [simp, mem_simps]: "length (calloc n) = n"
  by (simp add: calloc_def)

lemma memcpy_at_eq_Some:
  "memcpy_at dst off src n = Some r \<longleftrightarrow>
     n \<le> length src \<and> off + n \<le> length dst \<and> r = take off dst @ take n src @ drop (off + n) dst"
  by (auto simp: memcpy_at_def)

lemma memcpy_full [mem_simps]:
  "length src = n \<Longrightarrow> length dst = n \<Longrightarrow> memcpy dst src n = Some src"
  by (simp add: memcpy_at_def)

lemma memset_full [mem_simps]:
  "length dst = n \<Longrightarrow> memset dst c n = Some (replicate n c)"
  by (simp add: memset_def)

lemma byte_cmp_zero_iff: "length a = length b \<Longrightarrow> byte_cmp a b = 0 \<longleftrightarrow> a = b"
  by (induction a b rule: byte_cmp.induct) (auto simp: word_uint_eq_iff)

lemma byte_cmp_refl [simp]: "byte_cmp a a = 0"
  by (simp add: byte_cmp_zero_iff)

lemma memcmp_zero_iff:
  "memcmp a b n = Some 0 \<longleftrightarrow> n \<le> length a \<and> n \<le> length b \<and> take n a = take n b"
  by (auto simp: memcmp_def byte_cmp_zero_iff)

lemma memcmp_full [mem_simps]:
  "length a = n \<Longrightarrow> length b = n \<Longrightarrow> memcmp a b n = Some (byte_cmp a b)"
  by (simp add: memcmp_def)

section \<open>Loops that may fault\<close>

text \<open>\<open>for\<close> loops over a list of iterations, threading a state.\<close>

fun foldM :: "('a \<Rightarrow> 's \<Rightarrow> 's option) \<Rightarrow> 'a list \<Rightarrow> 's \<Rightarrow> 's option" where
  "foldM f [] s = Some s"
| "foldM f (x # xs) s = (f x s \<bind> foldM f xs)"

lemma foldM_append: "foldM f (xs @ ys) s = (foldM f xs s \<bind> foldM f ys)"
  by (induction xs arbitrary: s) (auto split: Option.bind_split)

lemma foldM_invariant:
  assumes "P s" "foldM f xs s = Some t"
    and "\<And>x s s'. x \<in> set xs \<Longrightarrow> P s \<Longrightarrow> f x s = Some s' \<Longrightarrow> P s'"
  shows "P t"
  using assms
proof (induction xs arbitrary: s)
  case Nil
  then show ?case by simp
next
  case (Cons x xs)
  from Cons.prems(2) obtain s' where s': "f x s = Some s'" "foldM f xs s' = Some t"
    by (auto simp: bind_eq_Some_conv)
  with Cons.prems have "P s'" by auto
  then show ?case using s'(2) Cons.prems(3) by (intro Cons.IH [of s']) auto
qed

section \<open>Lists of even length, taken two at a time\<close>

fun pairs :: "'a list \<Rightarrow> ('a \<times> 'a) list" where
  "pairs (x # y # xs) = (x, y) # pairs xs"
| "pairs _ = []"

lemma length_pairs [simp]: "length (pairs xs) = length xs div 2"
  by (induction xs rule: pairs.induct) auto

lemma nth_pairs: "2 * k + 1 < length xs \<Longrightarrow> pairs xs ! k = (xs ! (2 * k), xs ! (2 * k + 1))"
proof (induction xs arbitrary: k rule: pairs.induct)
  case (1 x y xs)
  show ?case
  proof (cases k)
    case (Suc j)
    with "1.prems" have "2 * j + 1 < length xs" by simp
    with "1.IH" Suc show ?thesis by simp
  qed simp
qed auto

lemma pairs_map: "pairs (map f xs) = map (\<lambda>(a, b). (f a, f b)) (pairs xs)"
  by (induction xs rule: pairs.induct) auto

lemma pairs_append: "even (length xs) \<Longrightarrow> pairs (xs @ ys) = pairs xs @ pairs ys"
  by (induction xs rule: pairs.induct) auto

section \<open>Words\<close>

lemma less_pow2_mono: "m < (2 :: nat) ^ a \<Longrightarrow> a \<le> b \<Longrightarrow> m < 2 ^ b"
  by (rule less_le_trans [OF _ power_increasing]) auto

lemma unat_shift_right1 [word_conv]: "unat (drop_bit 1 (w :: 64 word)) = unat w div 2"
  by (simp add: drop_bit_eq_div unat_div)

lemma unat_pow2_64 [word_conv]:
  assumes "n < 64"
  shows "unat (push_bit n (1 :: 64 word)) = 2 ^ n"
proof -
  have "(2 :: nat) ^ n < 2 ^ 64"
    by (rule power_strict_increasing [OF assms]) simp
  moreover have "push_bit n (1 :: 64 word) = of_nat (2 ^ n)"
    by (simp add: push_bit_eq_mult)
  ultimately show ?thesis
    by (simp only: unat_of_nat take_bit_nat_eq_self len_num1 len_bit0 len_bit1) (simp add: take_bit_nat_eq_self)
qed

lemma unat_of_nat_u64 [word_conv]: "n < 2 ^ 64 \<Longrightarrow> unat (of_nat n :: 64 word) = n"
  by (simp add: unat_of_nat)

lemma unat_succ_small [word_conv]:
  assumes "unat (q :: u64) < 2 ^ 63"
  shows "unat (q + 1) = unat q + 1"
proof -
  have "unat q + 1 < 2 ^ 64" using assms by simp
  then show ?thesis by (simp add: unat_word_ariths)
qed

lemma sint_ucast_small [word_conv]:
  assumes "n < 2 ^ 31"
  shows "sint (ucast (of_nat n :: 64 word) :: 32 word) = int n"
proof -
  have "(ucast (of_nat n :: 64 word) :: 32 word) = of_nat n"
    using assms by (simp add: unsigned_of_nat take_bit_nat_eq_self)
  moreover have "int n < 2 ^ 31" using assms by simp
  ultimately show ?thesis
    by (simp add: signed_of_nat signed_take_bit_int_eq_self)
qed

end
