(* ===== verification/CMemory.thy ===== *)
theory CMemory
  imports Prelude
begin

text \<open>
  The store shared by the C modules.  Objects that several pointers alias (signed messages, which
  the circular buffer, the message arrays and the leaves of the Merkle tree all point at, and the
  tree's hash points) live in a heap record with one partial map per object type; an address is a
  natural number, \<open>NULL\<close> is 0 and is never allocated.  A buffer with a single owner (the bytes of
  a message, a hash, a pointer array) is a value inside its owner.  \<open>h_tick\<close> counts the calls of
  library functions whose result the program does not determine (random bytes, key generation,
  clocks): such a function is a parameter that maps the tick to its answer.
\<close>

section \<open>Objects\<close>

text \<open>\<open>signed_message_t\<close>: \<open>sm_message\<close> is the buffer behind the pointer, \<^term>\<open>None\<close> for a null
  or freed one.\<close>

record signed_message_t =
  sm_message :: "bytes option"
  sm_length :: u64
  sm_public_key :: bytes

text \<open>\<open>hash_point\<close>: the union holds either the two messages of a first-level node, with their
  hashes, or the two child nodes.\<close>

datatype hp_union =
    Smgs2 (smsg_p1: addr) (hashMSG1: bytes) (smsg_p2: addr) (hashMSG2: bytes)
  | Children (hpoint1: addr) (hpoint2: addr)

record hash_point =
  hp_hash :: bytes
  hp_union :: hp_union
  FLAG0 :: u64

record heap =
  h_msgs :: "addr \<rightharpoonup> signed_message_t"
  h_points :: "addr \<rightharpoonup> hash_point"
  h_next :: addr
  h_tick :: nat

definition empty_heap :: heap where
  "empty_heap = \<lparr>h_msgs = Map.empty, h_points = Map.empty, h_next = 1, h_tick = 0\<rparr>"

section \<open>Allocation and release\<close>

definition alloc_msg :: "signed_message_t \<Rightarrow> heap \<Rightarrow> addr \<times> heap" where
  "alloc_msg m h =
     (h_next h, h\<lparr>h_msgs := (h_msgs h)(h_next h \<mapsto> m), h_next := Suc (h_next h)\<rparr>)"

definition alloc_point :: "hash_point \<Rightarrow> heap \<Rightarrow> addr \<times> heap" where
  "alloc_point p h =
     (h_next h, h\<lparr>h_points := (h_points h)(h_next h \<mapsto> p), h_next := Suc (h_next h)\<rparr>)"

text \<open>\<open>free(NULL)\<close> does nothing; freeing an object that is not live is a fault.\<close>

definition free_msg :: "addr \<Rightarrow> heap \<Rightarrow> heap option" where
  "free_msg a h =
     (if a = NULL then Some h
      else if h_msgs h a = None then None
      else Some (h\<lparr>h_msgs := (h_msgs h)(a := None)\<rparr>))"

definition free_point :: "addr \<Rightarrow> heap \<Rightarrow> heap option" where
  "free_point a h =
     (if a = NULL then Some h
      else if h_points h a = None then None
      else Some (h\<lparr>h_points := (h_points h)(a := None)\<rparr>))"

definition write_msg :: "addr \<Rightarrow> signed_message_t \<Rightarrow> heap \<Rightarrow> heap option" where
  "write_msg a m h =
     (if h_msgs h a = None then None else Some (h\<lparr>h_msgs := (h_msgs h)(a \<mapsto> m)\<rparr>))"

section \<open>Well-formed heaps and their growth\<close>

definition heap_wf :: "heap \<Rightarrow> bool" where
  "heap_wf h \<longleftrightarrow> 0 < h_next h \<and>
     (\<forall>a m. h_msgs h a = Some m \<longrightarrow> 0 < a \<and> a < h_next h) \<and>
     (\<forall>a p. h_points h a = Some p \<longrightarrow> 0 < a \<and> a < h_next h)"

text \<open>Every object of \<open>h\<close> is still there, unchanged, in \<open>h'\<close>.\<close>

definition heap_le :: "heap \<Rightarrow> heap \<Rightarrow> bool" where
  "heap_le h h' \<longleftrightarrow> h_next h \<le> h_next h' \<and>
     (\<forall>a m. h_msgs h a = Some m \<longrightarrow> h_msgs h' a = Some m) \<and>
     (\<forall>a p. h_points h a = Some p \<longrightarrow> h_points h' a = Some p)"

lemma heap_le_refl [simp, intro]: "heap_le h h"
  by (simp add: heap_le_def)

lemma heap_le_trans [trans]: "heap_le a b \<Longrightarrow> heap_le b c \<Longrightarrow> heap_le a c"
  by (simp add: heap_le_def)

lemma heap_le_msg: "heap_le h h' \<Longrightarrow> h_msgs h a = Some m \<Longrightarrow> h_msgs h' a = Some m"
  by (simp add: heap_le_def)

lemma heap_le_point: "heap_le h h' \<Longrightarrow> h_points h a = Some p \<Longrightarrow> h_points h' a = Some p"
  by (simp add: heap_le_def)

lemma heap_wf_empty: "heap_wf empty_heap"
  by (simp add: heap_wf_def empty_heap_def)

lemma heap_wf_nonnull:
  "heap_wf h \<Longrightarrow> h_msgs h NULL = None" "heap_wf h \<Longrightarrow> h_points h NULL = None"
  by (fastforce simp: heap_wf_def)+

lemma heap_wf_fresh:
  "heap_wf h \<Longrightarrow> h_next h \<le> a \<Longrightarrow> h_msgs h a = None"
  "heap_wf h \<Longrightarrow> h_next h \<le> a \<Longrightarrow> h_points h a = None"
  by (fastforce simp: heap_wf_def)+

section \<open>What one typed region promises\<close>

text \<open>
  Both regions of the heap, messages and hash points, keep the same contract.  The client lemmas
  on releasing a whole array of objects are proved once from it.
\<close>

locale heap_region =
  fixes get :: "heap \<Rightarrow> addr \<Rightarrow> 'a option"
    and alloc :: "'a \<Rightarrow> heap \<Rightarrow> addr \<times> heap"
    and release :: "addr \<Rightarrow> heap \<Rightarrow> heap option"
  assumes alloc_addr: "fst (alloc x h) = h_next h"
    and alloc_next: "h_next (snd (alloc x h)) = Suc (h_next h)"
    and get_alloc: "get (snd (alloc x h)) = (get h)(h_next h \<mapsto> x)"
    and alloc_wf: "heap_wf h \<Longrightarrow> heap_wf (snd (alloc x h))"
    and alloc_le: "heap_wf h \<Longrightarrow> heap_le h (snd (alloc x h))"
    and get_live: "heap_wf h \<Longrightarrow> get h a = Some x \<Longrightarrow> a \<noteq> NULL \<and> a < h_next h"
    and release_null: "release NULL h = Some h"
    and release_dead: "a \<noteq> NULL \<Longrightarrow> get h a = None \<Longrightarrow> release a h = None"
    and release_live: "a \<noteq> NULL \<Longrightarrow> get h a = Some x \<Longrightarrow>
          \<exists>h'. release a h = Some h' \<and> get h' = (get h)(a := None) \<and> h_next h' = h_next h"
    and release_wf: "heap_wf h \<Longrightarrow> release a h = Some h' \<Longrightarrow> heap_wf h'"
begin

lemma alloc_fresh: "heap_wf h \<Longrightarrow> get h (fst (alloc x h)) = None"
  using get_live [of h "h_next h"] by (cases "get h (h_next h)") (auto simp: alloc_addr)

text \<open>Releasing distinct live objects one after another succeeds and removes exactly them.\<close>

lemma release_all:
  assumes "distinct as" "\<forall>a \<in> set as. a \<noteq> NULL \<and> get h a \<noteq> None"
  shows "\<exists>h'. foldM release as h = Some h' \<and> get h' = (get h) |` (- set as)"
  using assms
proof (induction as arbitrary: h)
  case Nil
  then show ?case by simp
next
  case (Cons a as)
  then obtain x where "a \<noteq> NULL" "get h a = Some x" by auto
  then obtain h1 where h1: "release a h = Some h1" "get h1 = (get h)(a := None)"
    using release_live by blast
  have "\<forall>b \<in> set as. b \<noteq> NULL \<and> get h1 b \<noteq> None"
    using Cons.prems h1(2) by auto
  then obtain h2 where "foldM release as h1 = Some h2" "get h2 = (get h1) |` (- set as)"
    using Cons.IH [of h1] Cons.prems(1) by auto
  then show ?case
    using h1 by (auto simp: restrict_map_def fun_eq_iff)
qed

lemma release_all_wf: "heap_wf h \<Longrightarrow> foldM release as h = Some h' \<Longrightarrow> heap_wf h'"
  by (rule foldM_invariant [where P = heap_wf]) (auto intro: release_wf)

text \<open>Releasing the same object twice in a row of releases is a fault.\<close>

lemma release_twice:
  assumes "a \<noteq> NULL" "release a h = Some h'"
  shows "release a h' = None"
proof -
  from assms obtain x where x: "get h a = Some x"
    using release_dead by (cases "get h a") auto
  then have "get h' a = None"
    using release_live [OF assms(1) x] assms(2) by auto
  then show ?thesis using assms(1) by (rule release_dead [rotated])
qed

end

interpretation msg_region: heap_region h_msgs alloc_msg free_msg
proof unfold_locales
  fix h :: heap and x assume wf: "heap_wf h"
  then show "heap_wf (snd (alloc_msg x h))"
    by (auto simp: alloc_msg_def heap_wf_def)
  from wf show "heap_le h (snd (alloc_msg x h))"
    by (auto simp: alloc_msg_def heap_le_def heap_wf_def)
next
  fix h :: heap and a h' assume "heap_wf h" "free_msg a h = Some h'"
  then show "heap_wf h'"
    by (auto simp: free_msg_def heap_wf_def split: if_splits)
qed (auto simp: alloc_msg_def free_msg_def heap_wf_def)

interpretation point_region: heap_region h_points alloc_point free_point
proof unfold_locales
  fix h :: heap and x assume wf: "heap_wf h"
  then show "heap_wf (snd (alloc_point x h))"
    by (auto simp: alloc_point_def heap_wf_def)
  from wf show "heap_le h (snd (alloc_point x h))"
    by (auto simp: alloc_point_def heap_le_def heap_wf_def)
next
  fix h :: heap and a h' assume "heap_wf h" "free_point a h = Some h'"
  then show "heap_wf h'"
    by (auto simp: free_point_def heap_wf_def split: if_splits)
qed (auto simp: alloc_point_def free_point_def heap_wf_def)

lemma alloc_point_msgs [simp]: "h_msgs (snd (alloc_point p h)) = h_msgs h"
  by (simp add: alloc_point_def)

lemma alloc_msg_points [simp]: "h_points (snd (alloc_msg m h)) = h_points h"
  by (simp add: alloc_msg_def)

lemma alloc_tick [simp]:
  "h_tick (snd (alloc_msg m h)) = h_tick h" "h_tick (snd (alloc_point p h)) = h_tick h"
  by (simp_all add: alloc_msg_def alloc_point_def)

end
