(* ===== verification/Environment.thy ===== *)
theory Environment
  imports CMemory
begin

text \<open>
  What the program uses and does not contain: libsodium, the clocks and random sources of the
  system.  They are one record argument of the definitions that call them.  Functions whose answer
  is not determined by their arguments take the tick of the heap at the call.  The predicates
  \<open>generichash_ok\<close>, \<open>sign_ok\<close> and \<open>random_ok\<close> state the documented behaviour the theorems
  rely on.
\<close>

record env =
  env_generichash :: "bytes \<Rightarrow> bytes"            \<comment> \<open>\<open>crypto_generichash\<close>, 32 bytes out, no key\<close>
  env_sodium_init :: int                          \<comment> \<open>what \<open>sodium_init()\<close> returns\<close>
  env_sign_keypair :: "nat \<Rightarrow> bytes \<times> bytes"      \<comment> \<open>\<open>crypto_sign_keypair\<close>: public, secret\<close>
  env_sign :: "bytes \<Rightarrow> bytes \<Rightarrow> bytes"            \<comment> \<open>\<open>crypto_sign\<close>: message, secret key\<close>
  env_sign_open :: "bytes \<Rightarrow> bytes \<Rightarrow> bytes option" \<comment> \<open>\<open>crypto_sign_open\<close>: signed message, public key\<close>
  env_randombytes :: "nat \<Rightarrow> nat \<Rightarrow> bytes"        \<comment> \<open>\<open>randombytes_buf\<close>: tick, length\<close>
  env_rand :: "nat \<Rightarrow> nat"                        \<comment> \<open>\<open>rand()\<close>\<close>
  env_time :: "nat \<Rightarrow> nat"                        \<comment> \<open>\<open>time(NULL)\<close>: seconds since 1970\<close>
  env_clock :: "nat \<Rightarrow> (int \<times> int) option"        \<comment> \<open>\<open>clock_gettime\<close>: seconds, nanoseconds\<close>
  env_timeofday :: "nat \<Rightarrow> (int \<times> int) option"    \<comment> \<open>\<open>gettimeofday\<close>: seconds, microseconds\<close>
  env_thrd_create :: "nat \<Rightarrow> bool"                \<comment> \<open>does \<open>thrd_create\<close> start the thread\<close>
  env_stack :: bytes                              \<comment> \<open>left-over bytes an uninitialised object shows\<close>

definition generichash_ok :: "(bytes \<Rightarrow> bytes) \<Rightarrow> bool" where
  "generichash_ok H \<longleftrightarrow> (\<forall>x. length (H x) = crypto_generichash_BYTES)"

text \<open>Key pairs have their documented sizes, a signature adds 64 bytes, and a message signed with
  a secret key opens under the matching public key.\<close>

definition sign_ok :: "env \<Rightarrow> bool" where
  "sign_ok E \<longleftrightarrow>
     (\<forall>t. length (fst (env_sign_keypair E t)) = crypto_sign_PUBLICKEYBYTES \<and>
          length (snd (env_sign_keypair E t)) = crypto_sign_SECRETKEYBYTES \<and>
          (\<forall>m. env_sign_open E (env_sign E m (snd (env_sign_keypair E t)))
                 (fst (env_sign_keypair E t)) = Some m)) \<and>
     (\<forall>m sk. length (env_sign E m sk) = crypto_sign_BYTES + length m)"

definition random_ok :: "env \<Rightarrow> bool" where
  "random_ok E \<longleftrightarrow> (\<forall>t n. length (env_randombytes E t n) = n)"

text \<open>The contents of an uninitialised object of \<open>n\<close> bytes.\<close>

definition indeterminate :: "env \<Rightarrow> nat \<Rightarrow> bytes" where
  "indeterminate E n = take n (env_stack E @ replicate n 0)"

lemma length_indeterminate [simp]: "length (indeterminate E n) = n"
  by (simp add: indeterminate_def)

definition tick :: "heap \<Rightarrow> heap" where
  "tick h = h\<lparr>h_tick := Suc (h_tick h)\<rparr>"

lemma tick_simps [simp]:
  "h_msgs (tick h) = h_msgs h" "h_points (tick h) = h_points h" "h_next (tick h) = h_next h"
  "h_tick (tick h) = Suc (h_tick h)"
  by (simp_all add: tick_def)

lemma heap_wf_tick [simp]: "heap_wf (tick h) = heap_wf h"
  by (simp add: heap_wf_def)

lemma heap_le_tick [simp]: "heap_le h (tick h)"
  by (simp add: heap_le_def)

lemma heap_le_tick_trans: "heap_le (tick h) h' \<Longrightarrow> heap_le h h'"
  by (rule heap_le_trans [OF heap_le_tick])

end
