(* ===== verification/Accounts.thy ===== *)
theory Accounts
  imports Environment
begin

text \<open>
  \<open>sources/accounts/acc_utils.c\<close>: key pairs, signing, validation and release of signed messages.
  The main result is the round trip: a message signed with a generated secret key validates under
  the matching public key.
\<close>

section \<open>Data\<close>

record user_keys =
  uk_pk :: bytes
  uk_sk :: bytes

record test_msg_t =
  tm_test_msg :: bytes
  tm_len :: u64

section \<open>Operations\<close>

text \<open>The struct is a local of \<open>sign_a_message\<close> and its public key is not written there: it holds
  indeterminate bytes until \<open>put_a_PK\<close>.  The signed text goes to a fresh buffer of
  \<open>crypto_sign_BYTES + len\<close> bytes (the sum wraps at 64 bits).  That buffer is part of the value returned; it is tracked as an
  allocation only once the struct has been put on the heap, so that the loss of a struct that never was is not seen here.\<close>

definition sign_a_message :: "env \<Rightarrow> test_msg_t \<Rightarrow> bytes \<Rightarrow> signed_message_t option" where
  "sign_a_message E testmsg secret_key = do {
     SK \<leftarrow> memcpy (calloc crypto_sign_SECRETKEYBYTES) secret_key crypto_sign_SECRETKEYBYTES;
     let buf = calloc (unat (of_nat crypto_sign_BYTES + tm_len testmsg :: u64));
     require (unat (tm_len testmsg) \<le> length (tm_test_msg testmsg));
     let signed = env_sign E (take (unat (tm_len testmsg)) (tm_test_msg testmsg)) SK;
     message \<leftarrow> memcpy buf signed (length signed);
     Some \<lparr>sm_message = Some message, sm_length = of_nat (length signed),
           sm_public_key = indeterminate E crypto_sign_PUBLICKEYBYTES\<rparr>
   }"

definition destroy_signed_message :: "addr \<Rightarrow> heap \<Rightarrow> heap option" where
  "destroy_signed_message a_msg h = do {
     m \<leftarrow> h_msgs h a_msg;
     free_msg a_msg h
   }"

definition put_a_PK :: "addr \<Rightarrow> bytes \<Rightarrow> heap \<Rightarrow> heap option" where
  "put_a_PK a_msg PK h = do {
     m \<leftarrow> h_msgs h a_msg;
     pk \<leftarrow> memcpy (sm_public_key m) PK crypto_sign_PUBLICKEYBYTES;
     write_msg a_msg (m\<lparr>sm_public_key := pk\<rparr>) h
   }"

text \<open>The decoded text goes to a variable-length array of \<open>length - 64\<close> bytes: a length of at most
  64 has no such array.\<close>

definition validate_a_message :: "env \<Rightarrow> signed_message_t \<Rightarrow> bytes \<Rightarrow> int option" where
  "validate_a_message E sigmsg pk = do {
     require (64 < unat (sm_length sigmsg));
     PK \<leftarrow> memcpy (calloc crypto_sign_PUBLICKEYBYTES) pk crypto_sign_PUBLICKEYBYTES;
     buf \<leftarrow> sm_message sigmsg;
     require (unat (sm_length sigmsg) \<le> length buf);
     (case env_sign_open E (take (unat (sm_length sigmsg)) buf) PK of
        None \<Rightarrow> Some 0
      | Some decoded \<Rightarrow> do {
          require (length decoded \<le> unat (sm_length sigmsg - 64));
          Some 1
        })
   }"

definition create_key_pair :: "env \<Rightarrow> heap \<Rightarrow> (user_keys \<times> heap) option" where
  "create_key_pair E h = do {
     let (pk, sk) = env_sign_keypair E (h_tick h);
     sk' \<leftarrow> memcpy (calloc crypto_sign_SECRETKEYBYTES) sk crypto_sign_SECRETKEYBYTES;
     pk' \<leftarrow> memcpy (calloc crypto_sign_PUBLICKEYBYTES) pk crypto_sign_PUBLICKEYBYTES;
     Some (\<lparr>uk_pk = pk', uk_sk = sk'\<rparr>, tick h)
   }"

section \<open>Well-formed messages\<close>

text \<open>A message other modules may hash, sign or copy: its buffer holds at least \<open>length\<close> bytes and
  its key has 32.\<close>

definition msg_ok :: "signed_message_t \<Rightarrow> bool" where
  "msg_ok m \<longleftrightarrow>
     (\<exists>buf. sm_message m = Some buf \<and> unat (sm_length m) \<le> length buf) \<and>
     length (sm_public_key m) = crypto_sign_PUBLICKEYBYTES"

definition msg_bytes :: "signed_message_t \<Rightarrow> bytes" where
  "msg_bytes m = (case sm_message m of None \<Rightarrow> [] | Some buf \<Rightarrow> take (unat (sm_length m)) buf)"

section \<open>Behaviour\<close>

lemma create_key_pair_eq:
  assumes "sign_ok E"
  shows "create_key_pair E h =
    Some (\<lparr>uk_pk = fst (env_sign_keypair E (h_tick h)), uk_sk = snd (env_sign_keypair E (h_tick h))\<rparr>, tick h)"
  using assms by (simp add: create_key_pair_def sign_ok_def memcpy_full split_beta)

lemma unat_add_64:
  assumes "n + 64 < 2 ^ 64"
  shows "unat (64 + of_nat n :: u64) = 64 + n"
proof -
  have "(64 + of_nat n :: u64) = of_nat (64 + n)" by simp
  moreover have "64 + n < 2 ^ LENGTH(64)" using assms by simp
  ultimately show ?thesis by (simp only: unat_of_nat mod_less)
qed

lemma sign_a_message_eq:
  assumes "sign_ok E" "length sk = crypto_sign_SECRETKEYBYTES"
    and "length (tm_test_msg t) = unat (tm_len t)" "unat (tm_len t) + 64 < 2 ^ 64"
  shows "sign_a_message E t sk =
    Some \<lparr>sm_message = Some (env_sign E (tm_test_msg t) sk),
          sm_length = of_nat (64 + unat (tm_len t)), sm_public_key = indeterminate E crypto_sign_PUBLICKEYBYTES\<rparr>"
proof -
  have len: "length (env_sign E (tm_test_msg t) sk) = 64 + unat (tm_len t)"
    using assms by (simp add: sign_ok_def)
  have "unat (64 + tm_len t) = 64 + unat (tm_len t)"
    using unat_add_64 [OF assms(4)] by simp
  then show ?thesis
    using assms len by (simp add: sign_a_message_def memcpy_full)
qed

text \<open>Whatever public key is stored with it, a signed text opens under the key of its pair.\<close>

lemma validate_signed:
  assumes "sign_ok E" "create_key_pair E h = Some (keys, h')"
    and "length (tm_test_msg t) = unat (tm_len t)" "0 < unat (tm_len t)"
    and "unat (tm_len t) + 64 < 2 ^ 64"
  shows "validate_a_message E \<lparr>sm_message = Some (env_sign E (tm_test_msg t) (uk_sk keys)),
    sm_length = of_nat (64 + unat (tm_len t)), sm_public_key = pk\<rparr> (uk_pk keys) = Some 1"
proof -
  have keys: "keys = \<lparr>uk_pk = fst (env_sign_keypair E (h_tick h)),
                      uk_sk = snd (env_sign_keypair E (h_tick h))\<rparr>"
    using assms(2) by (simp add: create_key_pair_eq [OF assms(1)])
  have ul: "unat (of_nat (64 + unat (tm_len t)) :: u64) = 64 + unat (tm_len t)"
    using unat_add_64 [OF assms(5)] by simp
  have ul': "unat (of_nat (64 + unat (tm_len t)) - 64 :: u64) = unat (tm_len t)"
    by simp
  have len: "length (env_sign E (tm_test_msg t) (uk_sk keys)) = 64 + unat (tm_len t)"
    using assms(1,3) by (simp add: sign_ok_def)
  show ?thesis
    using assms keys ul ul' len
    by (simp add: validate_a_message_def memcpy_full sign_ok_def del: of_nat_add)
qed

lemma sign_validate_roundtrip_gen:
  assumes "sign_ok E" "create_key_pair E h = Some (keys, h')"
    and "length (tm_test_msg t) = unat (tm_len t)" "0 < unat (tm_len t)"
    and "unat (tm_len t) + 64 < 2 ^ 64"
  shows "\<exists>m. sign_a_message E t (uk_sk keys) = Some m \<and>
             validate_a_message E m (uk_pk keys) = Some 1"
proof -
  have "length (uk_sk keys) = crypto_sign_SECRETKEYBYTES"
    using assms(1,2) by (auto simp: create_key_pair_eq sign_ok_def)
  then show ?thesis
    using sign_a_message_eq [OF assms(1) _ assms(3,5)] validate_signed [OF assms] by blast
qed

text \<open>
  C21.  Signing and validating are a round trip: for every generated key pair and every message of
  length between 1 and the address-space limit, \<open>validate_a_message\<close> accepts what
  \<open>sign_a_message\<close> produced, under the public key of the pair.
\<close>

theorem sign_validate_roundtrip:
  assumes "sign_ok E"
    and "create_key_pair E h = Some (keys, h')"
    and "length (tm_test_msg t) = unat (tm_len t)" "0 < unat (tm_len t)"
    and "unat (tm_len t) + 64 < 2 ^ 64"
  shows "\<exists>m. sign_a_message E t (uk_sk keys) = Some m \<and>
             validate_a_message E m (uk_pk keys) = Some 1"
  using sign_validate_roundtrip_gen [OF assms] .

text \<open>A concrete instance of the library for witnesses: the signature is a constant prefix.\<close>

definition demo_env :: env where
  "demo_env = \<lparr>env_generichash = (\<lambda>x. take 32 (x @ replicate 32 0)), env_sodium_init = 0,
     env_sign_keypair = (\<lambda>t. (replicate 32 1, replicate 64 2)),
     env_sign = (\<lambda>m sk. take 64 (sk @ replicate 64 0) @ m),
     env_sign_open = (\<lambda>s pk. if take 64 s = replicate 64 2 then Some (drop 64 s) else None),
     env_randombytes = (\<lambda>t n. replicate n (of_nat t)), env_rand = (\<lambda>t. t),
     env_time = (\<lambda>t. 1700000000), env_clock = (\<lambda>t. Some (1700000000, 5)),
     env_timeofday = (\<lambda>t. Some (1700000000, 5)), env_thrd_create = (\<lambda>t. True),
     env_stack = [7]\<rparr>"

lemma demo_env_ok:
  "sign_ok demo_env" "random_ok demo_env" "generichash_ok (env_generichash demo_env)"
  by (auto simp: demo_env_def sign_ok_def random_ok_def generichash_ok_def min_def)

theorem sign_validate_roundtrip_witness:
  "\<exists>m. sign_a_message demo_env \<lparr>tm_test_msg = [1, 2, 3], tm_len = 3\<rparr> (replicate 64 2) = Some m \<and>
       validate_a_message demo_env m (replicate 32 1) = Some 1"
proof -
  have "create_key_pair demo_env empty_heap =
      Some (\<lparr>uk_pk = replicate 32 1, uk_sk = replicate 64 2\<rparr>, tick empty_heap)"
    by (simp add: create_key_pair_eq demo_env_ok(1)) (simp add: demo_env_def)
  from sign_validate_roundtrip [OF demo_env_ok(1) this, of "\<lparr>tm_test_msg = [1, 2, 3], tm_len = 3\<rparr>"]
  show ?thesis by simp
qed

text \<open>A tampered signature is refused: whenever \<open>crypto_sign_open\<close> rejects, the answer is 0.\<close>

lemma validate_rejects:
  assumes "msg_ok m" "64 < unat (sm_length m)" "length pk = crypto_sign_PUBLICKEYBYTES"
    and "env_sign_open E (msg_bytes m) pk = None"
  shows "validate_a_message E m pk = Some 0"
  using assms by (auto simp: validate_a_message_def msg_ok_def msg_bytes_def memcpy_full)

text \<open>The key stored in the message plays no part: the caller's key decides.\<close>

lemma validate_ignores_stored_key:
  "validate_a_message E (m\<lparr>sm_public_key := x\<rparr>) pk = validate_a_message E m pk"
  by (simp add: validate_a_message_def cong: option.case_cong)

text \<open>\<open>destroy_signed_message\<close> of a live message removes it; of a dead or null pointer it faults.\<close>

lemma destroy_signed_message_live:
  "heap_wf h \<Longrightarrow> h_msgs h a = Some m \<Longrightarrow>
     destroy_signed_message a h = Some (h\<lparr>h_msgs := (h_msgs h)(a := None)\<rparr>)"
  using msg_region.get_live [of h a m] by (simp add: destroy_signed_message_def free_msg_def)

lemma destroy_signed_message_dead:
  "h_msgs h a = None \<Longrightarrow> destroy_signed_message a h = None"
  by (simp add: destroy_signed_message_def)

lemma put_a_PK_eq:
  assumes "h_msgs h a = Some m" "length (sm_public_key m) = crypto_sign_PUBLICKEYBYTES"
    and "length PK = crypto_sign_PUBLICKEYBYTES"
  shows "put_a_PK a PK h = Some (h\<lparr>h_msgs := (h_msgs h)(a \<mapsto> m\<lparr>sm_public_key := PK\<rparr>)\<rparr>)"
  using assms by (simp add: put_a_PK_def memcpy_full write_msg_def)

end
