(* ===== verification/Hashing.thy ===== *)
theory Hashing
  imports Accounts
begin

text \<open>
  \<open>sources/hashing/hashing.c\<close>: hashes of messages, hashes of hashes, and the two kinds of Merkle
  node.  \<open>H\<close> is \<open>crypto_generichash\<close> with a 32-byte output and no key.  The locale
  \<open>node_builder\<close> is the contract the two node constructors share; the loops of
  \<open>layering.c\<close> rely on nothing else.
\<close>

section \<open>Operations\<close>

definition calc_hash :: "(bytes \<Rightarrow> bytes) \<Rightarrow> signed_message_t \<Rightarrow> bytes option" where
  "calc_hash H s_message = do {
     buf \<leftarrow> sm_message s_message;
     require (unat (sm_length s_message) \<le> length buf);
     Some (H (take (unat (sm_length s_message)) buf))
   }"

definition calc_hashof_hash :: "(bytes \<Rightarrow> bytes) \<Rightarrow> bytes \<Rightarrow> bytes option" where
  "calc_hashof_hash H hash0 = do {
     require (crypto_generichash_BYTES \<le> length hash0);
     Some (H (take crypto_generichash_BYTES hash0))
   }"

definition merge_2hashses :: "(bytes \<Rightarrow> bytes) \<Rightarrow> bytes \<Rightarrow> bytes \<Rightarrow> bytes option" where
  "merge_2hashses H hash1 hash2 = do {
     hash1tmp \<leftarrow> memcpy (calloc crypto_generichash_BYTES) hash1 crypto_generichash_BYTES;
     hash2tmp \<leftarrow> memcpy (calloc crypto_generichash_BYTES) hash2 crypto_generichash_BYTES;
     hashS \<leftarrow> memcpy (calloc (crypto_generichash_BYTES * 2)) hash1 crypto_generichash_BYTES;
     hashS \<leftarrow> memcpy_at hashS crypto_generichash_BYTES hash2 crypto_generichash_BYTES;
     Some (H (take (crypto_generichash_BYTES * 2) hashS))
   }"

definition create_hpoint_message ::
  "(bytes \<Rightarrow> bytes) \<Rightarrow> addr \<Rightarrow> addr \<Rightarrow> heap \<Rightarrow> (addr \<times> heap) option" where
  "create_hpoint_message H s_msg1 s_msg2 h = do {
     m1 \<leftarrow> h_msgs h s_msg1;
     hash_msg1 \<leftarrow> calc_hash H m1;
     hashMSG1 \<leftarrow> memcpy (calloc crypto_generichash_BYTES) hash_msg1 crypto_generichash_BYTES;
     m2 \<leftarrow> h_msgs h s_msg2;
     hash_msg2 \<leftarrow> calc_hash H m2;
     hashMSG2 \<leftarrow> memcpy (calloc crypto_generichash_BYTES) hash_msg2 crypto_generichash_BYTES;
     shash \<leftarrow> merge_2hashses H hashMSG1 hashMSG2;
     hash \<leftarrow> memcpy (calloc crypto_generichash_BYTES) shash crypto_generichash_BYTES;
     Some (alloc_point \<lparr>hp_hash = hash, hp_union = Smgs2 s_msg1 hashMSG1 s_msg2 hashMSG2,
                        FLAG0 = 0\<rparr> h)
   }"

definition destroy_hpoint_message :: "addr \<Rightarrow> heap \<Rightarrow> heap option" where
  "destroy_hpoint_message hpoint h = free_point hpoint h"

definition create_hpoint_hashG ::
  "(bytes \<Rightarrow> bytes) \<Rightarrow> addr \<Rightarrow> addr \<Rightarrow> heap \<Rightarrow> (addr \<times> heap) option" where
  "create_hpoint_hashG H hp1 hp2 h = do {
     p1 \<leftarrow> h_points h hp1;
     p2 \<leftarrow> h_points h hp2;
     Shash \<leftarrow> merge_2hashses H (hp_hash p1) (hp_hash p2);
     hash \<leftarrow> memcpy (calloc crypto_generichash_BYTES) Shash crypto_generichash_BYTES;
     Some (alloc_point \<lparr>hp_hash = hash, hp_union = Children hp1 hp2, FLAG0 = 1\<rparr> h)
   }"

section \<open>What they compute\<close>

lemma calc_hash_eq: "msg_ok m \<Longrightarrow> calc_hash H m = Some (H (msg_bytes m))"
  by (auto simp: calc_hash_def msg_ok_def msg_bytes_def)

lemma calc_hashof_hash_eq:
  "length x = crypto_generichash_BYTES \<Longrightarrow> calc_hashof_hash H x = Some (H x)"
  by (simp add: calc_hashof_hash_def)

lemma merge_2hashses_eq:
  assumes "length a = crypto_generichash_BYTES" "length b = crypto_generichash_BYTES"
  shows "merge_2hashses H a b = Some (H (a @ b))"
  using assms by (simp add: merge_2hashses_def memcpy_at_def calloc_def)

lemma merge_2hashses_length:
  "generichash_ok H \<Longrightarrow> merge_2hashses H a b = Some r \<Longrightarrow> length r = crypto_generichash_BYTES"
  by (auto simp: merge_2hashses_def generichash_ok_def bind_eq_Some_conv)

lemma generichash_length [simp]: "generichash_ok H \<Longrightarrow> length (H x) = 32"
  by (simp add: generichash_ok_def)

text \<open>The hash a message pointer stands for, and the one a node pointer stands for.\<close>

definition msg_hash :: "(bytes \<Rightarrow> bytes) \<Rightarrow> heap \<Rightarrow> addr \<Rightarrow> bytes" where
  "msg_hash H h a = H (msg_bytes (the (h_msgs h a)))"

definition point_hash :: "heap \<Rightarrow> addr \<Rightarrow> bytes" where
  "point_hash h a = hp_hash (the (h_points h a))"

section \<open>The contract of a node constructor\<close>

text \<open>
  \<open>ok h a\<close>: \<open>a\<close> is a valid child in \<open>h\<close>; \<open>node h a b\<close>: the node built over \<open>a\<close> and \<open>b\<close>.
  Building allocates exactly that node, and what a node looks like does not depend on objects
  allocated later.
\<close>

locale node_builder =
  fixes mk :: "addr \<Rightarrow> addr \<Rightarrow> heap \<Rightarrow> (addr \<times> heap) option"
    and ok :: "heap \<Rightarrow> addr \<Rightarrow> bool"
    and node :: "heap \<Rightarrow> addr \<Rightarrow> addr \<Rightarrow> hash_point"
  assumes build: "ok h a \<Longrightarrow> ok h b \<Longrightarrow> mk a b h = Some (alloc_point (node h a b) h)"
    and ok_mono: "heap_le h h' \<Longrightarrow> ok h a \<Longrightarrow> ok h' a"
    and node_mono: "heap_le h h' \<Longrightarrow> ok h a \<Longrightarrow> ok h b \<Longrightarrow> node h' a b = node h a b"

definition message_child_ok :: "(bytes \<Rightarrow> bytes) \<Rightarrow> heap \<Rightarrow> addr \<Rightarrow> bool" where
  "message_child_ok H h a \<longleftrightarrow> generichash_ok H \<and> (\<exists>m. h_msgs h a = Some m \<and> msg_ok m)"

definition message_node :: "(bytes \<Rightarrow> bytes) \<Rightarrow> heap \<Rightarrow> addr \<Rightarrow> addr \<Rightarrow> hash_point" where
  "message_node H h a b =
     \<lparr>hp_hash = H (msg_hash H h a @ msg_hash H h b),
      hp_union = Smgs2 a (msg_hash H h a) b (msg_hash H h b), FLAG0 = 0\<rparr>"

definition point_child_ok :: "(bytes \<Rightarrow> bytes) \<Rightarrow> heap \<Rightarrow> addr \<Rightarrow> bool" where
  "point_child_ok H h a \<longleftrightarrow>
     generichash_ok H \<and> (\<exists>p. h_points h a = Some p \<and> length (hp_hash p) = crypto_generichash_BYTES)"

definition inner_node :: "(bytes \<Rightarrow> bytes) \<Rightarrow> heap \<Rightarrow> addr \<Rightarrow> addr \<Rightarrow> hash_point" where
  "inner_node H h a b =
     \<lparr>hp_hash = H (point_hash h a @ point_hash h b), hp_union = Children a b, FLAG0 = 1\<rparr>"

interpretation message_builder: node_builder
  "create_hpoint_message H" "message_child_ok H" "message_node H" for H
proof unfold_locales
  fix h a b assume "message_child_ok H h a" "message_child_ok H h b"
  then show "create_hpoint_message H a b h = Some (alloc_point (message_node H h a b) h)"
    by (auto simp: create_hpoint_message_def message_child_ok_def calc_hash_eq memcpy_full
        merge_2hashses_eq message_node_def msg_hash_def)
next
  fix h h' a assume "heap_le h h'" "message_child_ok H h a"
  then show "message_child_ok H h' a"
    by (auto simp: message_child_ok_def dest: heap_le_msg)
next
  fix h h' a b assume "heap_le h h'" "message_child_ok H h a" "message_child_ok H h b"
  then show "message_node H h' a b = message_node H h a b"
    by (auto simp: heap_le_def message_child_ok_def message_node_def msg_hash_def)
qed

interpretation inner_builder: node_builder
  "create_hpoint_hashG H" "point_child_ok H" "inner_node H" for H
proof unfold_locales
  fix h a b assume "point_child_ok H h a" "point_child_ok H h b"
  then show "create_hpoint_hashG H a b h = Some (alloc_point (inner_node H h a b) h)"
    by (auto simp: create_hpoint_hashG_def point_child_ok_def memcpy_full merge_2hashses_eq
        inner_node_def point_hash_def)
next
  fix h h' a assume "heap_le h h'" "point_child_ok H h a"
  then show "point_child_ok H h' a"
    by (auto simp: point_child_ok_def dest: heap_le_point)
next
  fix h h' a b assume "heap_le h h'" "point_child_ok H h a" "point_child_ok H h b"
  then show "inner_node H h' a b = inner_node H h a b"
    by (auto simp: heap_le_def point_child_ok_def inner_node_def point_hash_def)
qed

lemma message_node_hash_length [simp]:
  "generichash_ok H \<Longrightarrow> length (hp_hash (message_node H h a b)) = 32"
  by (simp add: message_node_def)

lemma inner_node_hash_length [simp]:
  "generichash_ok H \<Longrightarrow> length (hp_hash (inner_node H h a b)) = 32"
  by (simp add: inner_node_def)

end
