(* ===== verification/HexDump.thy ===== *)
theory HexDump
  imports Environment "HOL-Library.Char_ord"
begin

text \<open>
  \<open>DumpHex\<close> of \<open>sources/misc/misc.c\<close>: the text it prints, as a string, and the layout it has.
\<close>

section \<open>The hex dump\<close>

definition hex_byte :: "byte \<Rightarrow> string" where
  "hex_byte b = [''0123456789ABCDEF'' ! (unat b div 16), ''0123456789ABCDEF'' ! (unat b mod 16), CHR '' '']"

definition ascii_of :: "byte \<Rightarrow> char" where
  "ascii_of b = (if 32 \<le> unat b \<and> unat b \<le> 126 then char_of (unat b) else CHR ''.'')"

text \<open>What \<open>%s\<close> prints: the characters before the terminator.\<close>

definition c_string :: "string \<Rightarrow> string" where
  "c_string s = takeWhile (\<lambda>c. c \<noteq> CHR 0x00) s"

definition newline :: string where
  "newline = [CHR 0x0A]"

text \<open>One iteration; the state is the \<open>ascii\<close> array and the text printed so far.\<close>

definition dump_step :: "bytes \<Rightarrow> nat \<Rightarrow> nat \<Rightarrow> string \<times> string \<Rightarrow> string \<times> string" where
  "dump_step data len i = (\<lambda>(ascii, out).
     let out = out @ hex_byte (data ! i);
         ascii = ascii[i mod 16 := ascii_of (data ! i)] in
     if (i + 1) mod 8 = 0 \<or> i + 1 = len then
       let out = out @ '' '' in
       if (i + 1) mod 16 = 0 then (ascii, out @ ''|  '' @ c_string ascii @ '' '' @ newline)
       else if i + 1 = len then
         let ascii = ascii[(i + 1) mod 16 := CHR 0x00];
             out = out @ (if (i + 1) mod 16 \<le> 8 then '' '' else '''');
             out = out @ concat (replicate (16 - (i + 1) mod 16) ''   '') in
         (ascii, out @ ''|  '' @ c_string ascii @ '' '' @ newline)
       else (ascii, out)
     else (ascii, out))"

definition DumpHex :: "env \<Rightarrow> bytes \<Rightarrow> nat \<Rightarrow> string option" where
  "DumpHex E data len = do {
     require (len \<le> length data);
     let ascii = map (\<lambda>b. char_of (unat b)) (indeterminate E 16) @ [CHR 0x00];
     Some (snd (fold (dump_step data len) [0 ..< len] (ascii, '''')))
   }"

text \<open>The layout it is meant to have: rows of 16 bytes, two groups of eight, the text column at a
  fixed position.\<close>

definition hexs :: "bytes \<Rightarrow> string" where
  "hexs xs = concat (map hex_byte xs)"

definition dump_row :: "bytes \<Rightarrow> string" where
  "dump_row xs = hexs (take 8 xs) @ '' '' @ hexs (drop 8 xs) @ '' '' @
     concat (replicate (16 - length xs) ''   '') @ ''|  '' @ map ascii_of xs @ '' '' @ newline"

function dump_rows :: "bytes \<Rightarrow> string" where
  "dump_rows xs = (if xs = [] then [] else dump_row (take 16 xs) @ dump_rows (drop 16 xs))"
  by pat_completeness auto
termination
  by (relation "measure length") auto

declare dump_rows.simps [simp del]

section \<open>Behaviour of the hex dump\<close>

definition partial_row :: "bytes \<Rightarrow> string" where
  "partial_row xs = hexs (take 8 xs) @ (if 8 \<le> length xs then '' '' else '''') @ hexs (drop 8 xs)"

definition dump_inv :: "bytes \<Rightarrow> nat \<Rightarrow> nat \<Rightarrow> string \<times> string \<Rightarrow> bool" where
  "dump_inv data k r s \<longleftrightarrow>
     snd s = dump_rows (take (16 * k) data) @ partial_row (take r (drop (16 * k) data)) \<and>
     length (fst s) = 17 \<and> fst s ! 16 = CHR 0x00 \<and>
     take r (fst s) = map ascii_of (take r (drop (16 * k) data))"

lemma hexs_simps [simp]: "hexs [] = []" "hexs (xs @ ys) = hexs xs @ hexs ys" "hexs [b] = hex_byte b"
  by (simp_all add: hexs_def)

lemma ascii_of_not_NUL: "ascii_of b \<noteq> CHR 0x00"
proof -
  have "char_of n \<noteq> CHR 0x00" if "32 \<le> n" "n \<le> 126" for n :: nat
  proof
    assume "char_of n = CHR 0x00"
    then have "of_char (char_of n :: char) = (0 :: nat)" by simp
    with that show False by (simp add: of_char_of)
  qed
  then show ?thesis by (simp add: ascii_of_def)
qed

lemma c_string_prefix:
  "take r s = map ascii_of xs \<Longrightarrow> r < length s \<Longrightarrow> s ! r = CHR 0x00 \<Longrightarrow> c_string s = map ascii_of xs"
  by (subst id_take_nth_drop [of r s]) (auto simp: c_string_def takeWhile_append ascii_of_not_NUL)

lemma dump_rows_append:
  "16 dvd length xs \<Longrightarrow> dump_rows (xs @ ys) = dump_rows xs @ dump_rows ys"
proof (induction xs rule: dump_rows.induct)
  case (1 xs)
  show ?case
  proof (cases "xs = []")
    case False
    with 1 have "16 \<le> length xs" by (auto simp: dvd_imp_le)
    with 1 False show ?thesis
      by (simp add: dump_rows.simps [of "xs @ ys"] dump_rows.simps [of xs] dvd_diff_nat)
  qed (simp add: dump_rows.simps)
qed

lemma dump_rows_single: "xs \<noteq> [] \<Longrightarrow> length xs \<le> 16 \<Longrightarrow> dump_rows xs = dump_row xs"
  by (simp add: dump_rows.simps)

text \<open>Position arithmetic of the loop index \<open>16 * k + r\<close>.\<close>

lemma row_position:
  fixes k r :: nat
  assumes "r < 15"
  shows "Suc (16 * k + r) mod 16 = Suc r" "(16 * k + r) mod 16 = r"
    "Suc (16 * k + r) mod 8 = Suc r mod 8" "Suc (16 * k + r) div 16 = k"
proof -
  have e: "Suc (16 * k + r) = Suc r + 16 * k" "Suc (16 * k + r) = Suc r + 8 * (2 * k)" by simp_all
  show "Suc (16 * k + r) mod 16 = Suc r" "Suc (16 * k + r) div 16 = k"
    unfolding e(1) using assms by (simp_all only: mod_mult_self2 div_mult_self2) simp_all
  show "Suc (16 * k + r) mod 8 = Suc r mod 8" unfolding e(2) by (simp only: mod_mult_self2)
  show "(16 * k + r) mod 16 = r" using assms by simp
qed

lemma row_end_position:
  fixes k :: nat
  shows "Suc (16 * k + 15) mod 16 = 0" "Suc (16 * k + 15) mod 8 = 0" "(16 * k + 15) mod 16 = 15"
    "Suc (16 * k + 15) div 16 = Suc k"
proof -
  have e: "Suc (16 * k + 15) = 16 * Suc k" "Suc (16 * k + 15) = 8 * (2 * Suc k)" by simp_all
  show "Suc (16 * k + 15) mod 16 = 0" "Suc (16 * k + 15) div 16 = Suc k"
    unfolding e(1) by (simp_all only: mod_mult_self1_is_0 nonzero_mult_div_cancel_left)
  show "Suc (16 * k + 15) mod 8 = 0" unfolding e(2) by (simp only: mod_mult_self1_is_0)
  show "(16 * k + 15) mod 16 = 15" by simp
qed

text \<open>One iteration inside a row, at the end of the data and at the end of a row.\<close>

lemma dump_inv_step:
  assumes inv: "dump_inv data k r (ascii, out)" and i: "16 * k + r < length data" "r < 16"
  defines "x \<equiv> data ! (16 * k + r)" and "xs \<equiv> take r (drop (16 * k) data)"
  shows "xs @ [x] = take (Suc r) (drop (16 * k) data)" and "length xs = r"
    and "partial_row xs @ hex_byte x @ (if Suc r mod 8 = 0 then '' '' else '''') = 
      partial_row (xs @ [x]) @ (if r = 15 then '' '' else '''')"
    and "take (Suc r) (ascii[r := ascii_of x]) = map ascii_of (xs @ [x])"
proof -
  show xs: "xs @ [x] = take (Suc r) (drop (16 * k) data)"
    using i by (simp add: x_def xs_def take_Suc_conv_app_nth)
  show len: "length xs = r" using i by (simp add: xs_def)
  show "partial_row xs @ hex_byte x @ (if Suc r mod 8 = 0 then '' '' else '''') = 
      partial_row (xs @ [x]) @ (if r = 15 then '' '' else '''')"
  proof -
    consider "r < 7" | "r = 7" | "7 < r" "r < 15" | "r = 15" using i by linarith
    then show ?thesis
    proof cases
      case 3
      then have "Suc r mod 8 \<noteq> 0" by presburger
      with 3 len show ?thesis by (simp add: partial_row_def)
    qed (simp_all add: partial_row_def len)
  qed
  show "take (Suc r) (ascii[r := ascii_of x]) = map ascii_of (xs @ [x])"
    using inv i by (simp add: dump_inv_def xs_def [symmetric] take_Suc_conv_app_nth)
qed

lemma dump_step_inside:
  assumes inv: "dump_inv data k r (ascii, out)" and i: "Suc (16 * k + r) < length data" "r < 15"
  shows "dump_inv data k (Suc r) (dump_step data (length data) (16 * k + r) (ascii, out))"
proof -
  let ?x = "data ! (16 * k + r)" and ?xs = "take r (drop (16 * k) data)"
  have i': "16 * k + r < length data" "r < 16" using i by simp_all
  note st = dump_inv_step [OF inv i']
  note m = row_position [OF i(2), of k]
  have "dump_step data (length data) (16 * k + r) (ascii, out) =
      (ascii[r := ascii_of ?x], out @ hex_byte ?x @ (if Suc r mod 8 = 0 then '' '' else ''''))"
    unfolding dump_step_def Let_def split_beta fst_conv snd_conv Suc_eq_plus1 [symmetric] m using i by simp
  moreover have "out = dump_rows (take (16 * k) data) @ partial_row ?xs" "length ascii = 17" "ascii ! 16 = CHR 0x00"
    using inv by (simp_all add: dump_inv_def)
  ultimately show ?thesis
    using st i by (simp add: dump_inv_def)
qed

lemma dump_step_last:
  assumes inv: "dump_inv data k r (ascii, out)" and i: "Suc (16 * k + r) = length data" "r < 15"
  shows "snd (dump_step data (length data) (16 * k + r) (ascii, out)) = dump_rows data"
proof -
  let ?x = "data ! (16 * k + r)" and ?xs = "take r (drop (16 * k) data)"
  have i': "16 * k + r < length data" "r < 16" using i by simp_all
  note st = dump_inv_step [OF inv i']
  have row: "?xs @ [?x] = drop (16 * k) data" using st(1) i by simp
  have out: "out = dump_rows (take (16 * k) data) @ partial_row ?xs" "length ascii = 17"
    using inv by (simp_all add: dump_inv_def)
  have tx: "c_string (ascii[r := ascii_of ?x, Suc r := CHR 0x00]) = map ascii_of (?xs @ [?x])"
    by (rule c_string_prefix [of "Suc r"]) (use st(4) out(2) i in simp_all)
  note m = row_position [OF i(2), of k]
  have "snd (dump_step data (length data) (16 * k + r) (ascii, out)) = out @ hex_byte ?x @ '' '' @
      (if Suc r \<le> 8 then '' '' else '''') @ concat (replicate (16 - Suc r) ''   '') @
      ''|  '' @ map ascii_of (?xs @ [?x]) @ '' '' @ newline"
    unfolding dump_step_def Let_def split_beta fst_conv snd_conv add_0_right Suc_eq_plus1 [symmetric] m tx
    using i by simp
  also have "\<dots> = dump_rows (take (16 * k) data) @ dump_row (?xs @ [?x])"
    using st(2) by (simp add: out(1) partial_row_def dump_row_def)
  also have "\<dots> = dump_rows (take (16 * k) data @ drop (16 * k) data)"
    using i by (subst dump_rows_append) (simp_all add: row dump_rows_single)
  finally show ?thesis by simp
qed

lemma dump_step_row:
  assumes inv: "dump_inv data k 15 (ascii, out)" and i: "16 * k + 15 < length data"
  shows "dump_inv data (Suc k) 0 (dump_step data (length data) (16 * k + 15) (ascii, out))"
proof -
  let ?x = "data ! (16 * k + 15)" and ?xs = "take 15 (drop (16 * k) data)"
  note st = dump_inv_step [OF inv i, simplified]
  have out: "out = dump_rows (take (16 * k) data) @ partial_row ?xs" "length ascii = 17" "ascii ! 16 = CHR 0x00"
    using inv by (simp_all add: dump_inv_def)
  have tx: "c_string (ascii[15 := ascii_of ?x]) = map ascii_of (?xs @ [?x])"
    by (rule c_string_prefix [of 16]) (use st(4) out in simp_all)
  note m = row_end_position [of k]
  have "dump_step data (length data) (16 * k + 15) (ascii, out) = (ascii[15 := ascii_of ?x],
      out @ hex_byte ?x @ '' '' @ ''|  '' @ map ascii_of (?xs @ [?x]) @ '' '' @ newline)"
    unfolding dump_step_def Let_def split_beta fst_conv snd_conv Suc_eq_plus1 [symmetric] m tx by simp
  moreover have "out @ hex_byte ?x @ '' '' @ ''|  '' @ map ascii_of (?xs @ [?x]) @ '' '' @ newline =
      dump_rows (take (16 * k) data) @ dump_row (?xs @ [?x])"
    using st(2) by (simp add: out(1) partial_row_def dump_row_def)
  moreover have "dump_rows (take (16 * Suc k) data) = dump_rows (take (16 * k) data) @ dump_row (?xs @ [?x])"
  proof -
    have "take (16 * Suc k) data = take (16 * k) data @ take 16 (drop (16 * k) data)"
      by (simp add: take_add [symmetric] add.commute)
    then show ?thesis using st(1,2) i by (simp add: dump_rows_append dump_rows_single)
  qed
  ultimately show ?thesis
    using out(2,3) by (simp add: dump_inv_def partial_row_def)
qed

lemma dump_loop_inv:
  assumes "length ascii = 17" "ascii ! 16 = CHR 0x00"
  shows "i \<le> length data \<Longrightarrow> (let s = fold (dump_step data (length data)) [0 ..< i] (ascii, '''') in
    if i < length data \<or> i mod 16 = 0 then dump_inv data (i div 16) (i mod 16) s else snd s = dump_rows data)"
proof (induction i)
  case 0
  show ?case using assms by (simp add: dump_inv_def partial_row_def dump_rows.simps)
next
  case (Suc i)
  define k r where "k = i div 16" and "r = i mod 16"
  have i: "i = 16 * k + r" "r < 16" by (simp_all add: k_def r_def)
  obtain as out where s: "fold (dump_step data (length data)) [0 ..< i] (ascii, '''') = (as, out)" by fastforce
  have inv: "dump_inv data k r (as, out)" using Suc s by (simp add: k_def r_def)
  have fold: "fold (dump_step data (length data)) [0 ..< Suc i] (ascii, '''') =
      dump_step data (length data) (16 * k + r) (as, out)" using s i by simp
  show ?case
  proof (cases "r = 15")
    case True
    then have "Suc i div 16 = Suc k" "Suc i mod 16 = 0"
      unfolding i(1) by (simp_all only: row_end_position)
    then show ?thesis using fold dump_step_row [of data k as out] inv True i Suc.prems by simp
  next
    case False
    then have "r < 15" using i(2) by simp
    then have "Suc i div 16 = k" "Suc i mod 16 = Suc r"
      unfolding i(1) by (simp_all only: row_position)
    moreover have "Suc i = length data \<Longrightarrow> length data mod 16 \<noteq> 0" using calculation by auto
    ultimately show ?thesis
      unfolding Let_def fold
      using dump_step_inside [OF inv] dump_step_last [OF inv] \<open>r < 15\<close> i(1) Suc.prems
      by (cases "Suc i < length data") simp_all
  qed
qed

lemma dump_fold:
  assumes "length as = 17" "as ! 16 = CHR 0x00"
  shows "snd (fold (dump_step data (length data)) [0 ..< length data] (as, '''')) = dump_rows data"
proof (cases "length data mod 16 = 0")
  case True
  then have "16 * (length data div 16) = length data" by presburger
  then show ?thesis using True dump_loop_inv [OF assms order.refl, of data] by (simp add: dump_inv_def partial_row_def Let_def)
qed (use dump_loop_inv [OF assms order.refl, of data] in \<open>simp add: Let_def\<close>)

lemma DumpHex_eq: "DumpHex E data (length data) = Some (dump_rows data)"
  using dump_fold [of "map (\<lambda>b. char_of (unat b)) (indeterminate E 16) @ [CHR 0x00]" data]
  by (simp add: DumpHex_def nth_append)

section \<open>The second copy\<close>

text \<open>\<open>networking/xmisc.c\<close> has a second \<open>DumpHex\<close>, written here as the loops it has.\<close>

function xmisc_pad :: "nat \<Rightarrow> string" where
  "xmisc_pad j = (if j < 16 then ''   '' @ xmisc_pad (j + 1) else '''')"
  by pat_completeness auto
termination
  by (relation "measure (\<lambda>j. 16 - j)") auto

function xmisc_dump_loop :: "bytes \<Rightarrow> nat \<Rightarrow> nat \<Rightarrow> string \<Rightarrow> string \<Rightarrow> string" where
  "xmisc_dump_loop data len i ascii out =
     (if i < len then
        let c = data ! i;
            out = out @ hex_byte c;
            ascii = (if 32 \<le> unat c \<and> unat c \<le> 126 then ascii[i mod 16 := char_of (unat c)] else ascii[i mod 16 := CHR ''.'']);
            (ascii, out) =
              (if (i + 1) mod 8 = 0 \<or> i + 1 = len then
                 let out = out @ '' '' in
                 if (i + 1) mod 16 = 0 then (ascii, out @ ''|  '' @ c_string ascii @ '' '' @ newline)
                 else if i + 1 = len then
                   let ascii = ascii[(i + 1) mod 16 := CHR 0x00];
                       out = (if (i + 1) mod 16 \<le> 8 then out @ '' '' else out) in
                   (ascii, out @ xmisc_pad ((i + 1) mod 16) @ ''|  '' @ c_string ascii @ '' '' @ newline)
                 else (ascii, out)
               else (ascii, out))
        in xmisc_dump_loop data len (i + 1) ascii out
      else out)"
  by pat_completeness auto
termination
  by (relation "measure (\<lambda>(data, len, i, ascii, out). len - i)") auto

declare xmisc_pad.simps [simp del] xmisc_dump_loop.simps [simp del]

definition xmisc_DumpHex :: "env \<Rightarrow> bytes \<Rightarrow> nat \<Rightarrow> string option" where
  "xmisc_DumpHex E data len = do {
     require (len \<le> length data);
     let ascii = map (\<lambda>b. char_of (unat b)) (indeterminate E 17);
     Some (xmisc_dump_loop data len 0 (ascii[16 := CHR 0x00]) '''')
   }"

lemma xmisc_pad_eq: "xmisc_pad j = concat (replicate (16 - j) ''   '')"
proof (induction j rule: xmisc_pad.induct)
  case (1 j)
  have "16 - j = Suc (16 - (j + 1))" if "j < 16" using that by simp
  then show ?case using 1 by (subst xmisc_pad.simps) (cases "j < 16"; simp)
qed

lemma xmisc_dump_loop_eq: "xmisc_dump_loop data len i ascii out = snd (fold (dump_step data len) [i..<len] (ascii, out))"
proof (induction "len - i" arbitrary: i ascii out)
  case (Suc n)
  then have i: "i < len" "n = len - (i + 1)" by simp_all
  obtain ascii' out' where s: "dump_step data len i (ascii, out) = (ascii', out')" by fastforce
  then have "xmisc_dump_loop data len i ascii out = xmisc_dump_loop data len (i + 1) ascii' out'"
    using i(1) by (subst xmisc_dump_loop.simps) (auto simp: dump_step_def ascii_of_def xmisc_pad_eq Let_def split: if_splits)
  then show ?case using Suc(1) [OF i(2)] i(1) s by (simp add: upt_conv_Cons)
qed (simp add: xmisc_dump_loop.simps)

lemma xmisc_DumpHex_eq: "xmisc_DumpHex E data (length data) = Some (dump_rows data)"
  using dump_fold [of "(map (\<lambda>b. char_of (unat b)) (indeterminate E 17))[16 := CHR 0x00]" data]
  by (simp add: xmisc_DumpHex_def xmisc_dump_loop_eq)

text \<open>
  C38.  Both copies of \<open>DumpHex\<close> print rows of sixteen bytes with the text column at a fixed position,
  whatever the uninitialised part of their buffer holds.
\<close>

theorem DumpHex_layout:
  "DumpHex E data (length data) = Some (dump_rows data) \<and> xmisc_DumpHex E data (length data) = Some (dump_rows data)"
  using DumpHex_eq xmisc_DumpHex_eq by simp

text \<open>Every row has its text column after 50 characters.\<close>

lemma hexs_length: "length (hexs xs) = 3 * length xs"
  by (induction xs) (simp_all add: hexs_def hex_byte_def)

lemma dump_row_column:
  assumes "length xs \<le> 16"
  shows "drop 50 (dump_row xs) = ''|  '' @ map ascii_of xs @ '' '' @ newline"
proof -
  define pre where "pre = hexs (take 8 xs) @ '' '' @ hexs (drop 8 xs) @ '' '' @
     concat (replicate (16 - length xs) ''   '')"
  have "length (concat (replicate n ''   '')) = 3 * n" for n by (induction n) simp_all
  then have "length pre = 50" using assms by (simp add: pre_def hexs_length min_def) linarith
  moreover have "dump_row xs = pre @ ''|  '' @ map ascii_of xs @ '' '' @ newline"
    by (simp add: dump_row_def pre_def)
  ultimately show ?thesis by simp
qed

end
