(* ===== verification/Misc.thy ===== *)
theory Misc
  imports Hashing HexDump
begin

text \<open>
  \<open>sources/misc/misc.c\<close>: random test messages and their signed form, the clocks and the date
  string.  \<open>gmtime\<close> and \<open>strftime\<close> are the
  part of the C library the date string needs.
\<close>

section \<open>Test messages\<close>

definition ALLOWED :: string where
  "ALLOWED = ''abcdefghijklmnopqrstuvwxyz1234567890''"

definition string_bytes :: "string \<Rightarrow> bytes" where
  "string_bytes s = map of_char s"

text \<open>One \<open>rand()\<close> per byte; each call advances the tick.\<close>

fun test_msg_loop :: "env \<Rightarrow> nat \<Rightarrow> nat \<Rightarrow> bytes \<Rightarrow> bytes" where
  "test_msg_loop E t 0 random = random"
| "test_msg_loop E t (Suc n) random =
     test_msg_loop E (Suc t) n
       (random @ [of_char (ALLOWED ! (env_rand E t mod length ALLOWED))])"

definition get_test_msg :: "env \<Rightarrow> u64 \<Rightarrow> heap \<Rightarrow> test_msg_t \<times> heap" where
  "get_test_msg E len h =
     (let h = tick h;
          random = test_msg_loop E (h_tick h) (unat len) [] in
      (\<lparr>tm_test_msg = random, tm_len = len\<rparr>, h\<lparr>h_tick := h_tick h + unat len\<rparr>))"

definition ls_get_test_msg :: "env \<Rightarrow> u64 \<Rightarrow> heap \<Rightarrow> (test_msg_t \<times> heap) option" where
  "ls_get_test_msg E len h = do {
     require (0 \<le> env_sodium_init E);
     random \<leftarrow> memcpy (calloc (unat len)) (env_randombytes E (h_tick h) (unat len)) (unat len);
     Some (\<lparr>tm_test_msg = random, tm_len = len\<rparr>, tick h)
   }"

text \<open>The rest of both \<open>get_a_signed_msg\<close> functions: a heap object gets the signed struct, then the
  public key is written into it.  The plain text is freed inside \<open>sign_a_message\<close>.\<close>

definition sign_to_heap :: "env \<Rightarrow> test_msg_t \<Rightarrow> user_keys \<Rightarrow> heap \<Rightarrow> (addr \<times> heap) option" where
  "sign_to_heap E somemsg keys h = do {
     m \<leftarrow> sign_a_message E somemsg (uk_sk keys);
     let (a_msg, h) = alloc_msg m h;
     h \<leftarrow> put_a_PK a_msg (uk_pk keys) h;
     Some (a_msg, h)
   }"

definition get_a_signed_msg :: "env \<Rightarrow> user_keys \<Rightarrow> heap \<Rightarrow> (addr \<times> heap) option" where
  "get_a_signed_msg E keys h = (
     let h = tick h;
         (somemsg, h) = get_test_msg E 100 h in
     sign_to_heap E somemsg keys h)"

definition ls_get_a_signed_msg :: "env \<Rightarrow> user_keys \<Rightarrow> heap \<Rightarrow> (addr \<times> heap) option" where
  "ls_get_a_signed_msg E keys h = do {
     let h = tick h;
     (somemsg, h) \<leftarrow> ls_get_test_msg E 100 h;
     sign_to_heap E somemsg keys h
   }"

section \<open>Clocks\<close>

definition get_epoch_ns :: "env \<Rightarrow> heap \<Rightarrow> u64 \<times> heap" where
  "get_epoch_ns E h =
     (case env_clock E (h_tick h) of
        None \<Rightarrow> (0, tick h)
      | Some (sec, ns) \<Rightarrow> (of_int sec * 1000000000 + of_int ns, tick h))"

text \<open>Milliseconds, a signed 64-bit value: leaving its range is undefined.\<close>

definition get_date_usec_rec :: "env \<Rightarrow> heap \<Rightarrow> (int \<times> heap) option" where
  "get_date_usec_rec E h =
     (case env_timeofday E (h_tick h) of
        None \<Rightarrow> Some (0, tick h)
      | Some (sec, usec) \<Rightarrow> do {
          let prod = sec * 1000;
          let ret = prod + (if usec < 0 then - (- usec div 1000) else usec div 1000);
          require (- (2 ^ 63) \<le> prod \<and> prod < 2 ^ 63 \<and> - (2 ^ 63) \<le> ret \<and> ret < 2 ^ 63);
          Some (ret, tick h)
        })"

section \<open>The date string\<close>

record tm =
  tm_year :: nat
  tm_mon :: nat
  tm_mday :: nat
  tm_hour :: nat
  tm_min :: nat
  tm_sec :: nat

definition leap_year :: "nat \<Rightarrow> bool" where
  "leap_year y \<longleftrightarrow> 4 dvd y \<and> (\<not> 100 dvd y \<or> 400 dvd y)"

definition year_days :: "nat \<Rightarrow> nat" where
  "year_days y = (if leap_year y then 366 else 365)"

definition month_days :: "nat \<Rightarrow> nat list" where
  "month_days y = [31, if leap_year y then 29 else 28, 31, 30, 31, 30, 31, 31, 30, 31, 30, 31]"

lemma year_days_pos: "365 \<le> year_days y"
  by (simp add: year_days_def)

function split_years :: "nat \<Rightarrow> nat \<Rightarrow> nat \<times> nat" where
  "split_years y d = (if d < year_days y then (y, d) else split_years (Suc y) (d - year_days y))"
  by pat_completeness auto
termination
  by (relation "measure snd") (auto simp: year_days_def)

declare split_years.simps [simp del]

fun split_months :: "nat list \<Rightarrow> nat \<Rightarrow> nat \<Rightarrow> nat \<times> nat" where
  "split_months (n # ns) m d = (if d < n then (m, d) else split_months ns (Suc m) (d - n))"
| "split_months [] m d = (m, d)"

text \<open>\<open>tm_year\<close> is the calendar year, \<open>tm_mon\<close> and \<open>tm_mday\<close> count from 1, as they are printed.\<close>

definition gmtime :: "nat \<Rightarrow> tm" where
  "gmtime t =
     (let (y, yd) = split_years 1970 (t div 86400);
          (m, md) = split_months (month_days y) 1 yd;
          s = t mod 86400 in
      \<lparr>tm_year = y, tm_mon = m, tm_mday = md + 1,
       tm_hour = s div 3600, tm_min = s mod 3600 div 60, tm_sec = s mod 60\<rparr>)"

definition digit :: "nat \<Rightarrow> char" where
  "digit n = char_of (48 + n)"

function decimal :: "nat \<Rightarrow> string" where
  "decimal n = (if n < 10 then [digit n] else decimal (n div 10) @ [digit (n mod 10)])"
  by pat_completeness auto
termination
  by (relation "measure id") auto

declare decimal.simps [simp del]

definition two_digits :: "nat \<Rightarrow> string" where
  "two_digits n = (if n < 10 then digit 0 # decimal n else decimal n)"

text \<open>\<open>strftime(date, 32, "%d/%m/%Y %H:%M:%S GMT", tm)\<close>: a text that does not fit with its
  terminator leaves the array indeterminate.\<close>

definition date_text :: "tm \<Rightarrow> string" where
  "date_text tm = two_digits (tm_mday tm) @ ''/'' @ two_digits (tm_mon tm) @ ''/'' @ decimal (tm_year tm) @
     '' '' @ two_digits (tm_hour tm) @ '':'' @ two_digits (tm_min tm) @ '':'' @ two_digits (tm_sec tm) @
     '' GMT''"

definition get_timestamp :: "env \<Rightarrow> bytes \<Rightarrow> heap \<Rightarrow> (bytes \<times> nat \<times> heap) option" where
  "get_timestamp E buffer h = do {
     let date = date_text (gmtime (env_time E (h_tick h)));
     require (length date < 32);
     buffer \<leftarrow> memcpy buffer (string_bytes date @ [0]) (length date + 1);
     Some (buffer, length date, tick h)
   }"

section \<open>Behaviour of the test messages\<close>

lemma test_msg_loop_spec:
  "length (test_msg_loop E t n acc) = length acc + n \<and>
   set (test_msg_loop E t n acc) \<subseteq> set acc \<union> set (string_bytes ALLOWED)"
proof (induction n arbitrary: t acc)
  case (Suc n)
  have "ALLOWED ! (env_rand E t mod length ALLOWED) \<in> set ALLOWED"
    by (rule nth_mem) (simp add: ALLOWED_def)
  then have "of_char (ALLOWED ! (env_rand E t mod length ALLOWED)) \<in> set (string_bytes ALLOWED)"
    by (simp add: string_bytes_def)
  with Suc.IH [of "Suc t" "acc @ [of_char (ALLOWED ! (env_rand E t mod length ALLOWED))]"]
  show ?case by auto
qed simp

lemma sign_to_heap_eq:
  assumes "sign_ok E" "create_key_pair E h0 = Some (keys, h1)"
    and "length (tm_test_msg t) = unat (tm_len t)" "unat (tm_len t) + 64 < 2 ^ 64"
  shows "sign_to_heap E t keys h = Some (alloc_msg \<lparr>sm_message = Some (env_sign E (tm_test_msg t) (uk_sk keys)),
      sm_length = of_nat (64 + unat (tm_len t)), sm_public_key = uk_pk keys\<rparr> h)"
proof -
  have keys: "length (uk_pk keys) = 32" "length (uk_sk keys) = 64"
    using assms(1,2) by (auto simp: create_key_pair_eq sign_ok_def)
  have sign: "sign_a_message E t (uk_sk keys) = Some
      \<lparr>sm_message = Some (env_sign E (tm_test_msg t) (uk_sk keys)),
       sm_length = of_nat (64 + unat (tm_len t)),
       sm_public_key = indeterminate E crypto_sign_PUBLICKEYBYTES\<rparr>"
    using assms keys by (intro sign_a_message_eq) auto
  show ?thesis
    unfolding sign_to_heap_def sign
    using keys by (simp add: alloc_msg_def put_a_PK_eq)
qed

text \<open>
  A generated test message is signed and stored with its key: \<open>get_a_signed_msg\<close> succeeds for
  every generated key pair, allocates one message of 164 bytes that carries the public key, which
  validates under it, and leaves all other objects alone.
\<close>

theorem get_a_signed_msg_valid:
  assumes "sign_ok E" "create_key_pair E h0 = Some (keys, h1)" "heap_wf h"
  shows "\<exists>h' m. get_a_signed_msg E keys h = Some (h_next h, h') \<and>
      h_msgs h' = (h_msgs h)(h_next h \<mapsto> m) \<and> h_points h' = h_points h \<and> heap_wf h' \<and>
      msg_ok m \<and> sm_length m = 164 \<and> sm_public_key m = uk_pk keys \<and>
      validate_a_message E m (uk_pk keys) = Some 1"
proof -
  define t where "t = \<lparr>tm_test_msg = test_msg_loop E (Suc (Suc (h_tick h))) 100 [], tm_len = 100 :: u64\<rparr>"
  define hh where "hh = h\<lparr>h_tick := Suc (Suc (h_tick h)) + 100\<rparr>"
  define m where "m = \<lparr>sm_message = Some (env_sign E (tm_test_msg t) (uk_sk keys)),
      sm_length = of_nat (64 + unat (tm_len t)) :: u64, sm_public_key = uk_pk keys\<rparr>"
  have len: "length (tm_test_msg t) = unat (tm_len t)" "unat (tm_len t) = 100"
    using test_msg_loop_spec [of E "Suc (Suc (h_tick h))" 100 "[]"] by (simp_all add: t_def)
  have "get_a_signed_msg E keys h = sign_to_heap E t keys hh"
    by (simp add: get_a_signed_msg_def get_test_msg_def t_def hh_def tick_def)
  also have "\<dots> = Some (alloc_msg m hh)"
    unfolding m_def by (rule sign_to_heap_eq [OF assms(1,2)]) (use len in simp_all)
  finally have get: "get_a_signed_msg E keys h = Some (h_next h, snd (alloc_msg m hh))"
    by (simp add: alloc_msg_def hh_def)
  have wf: "heap_wf hh" using assms(3) by (simp add: heap_wf_def hh_def)
  obtain s where s: "sign_a_message E t (uk_sk keys) = Some s" "validate_a_message E s (uk_pk keys) = Some 1"
    using sign_validate_roundtrip_gen [OF assms(1,2) len(1)] len(2) by auto
  have "s = m\<lparr>sm_public_key := indeterminate E 32\<rparr>"
    using s(1) sign_a_message_eq [OF assms(1) _ len(1), of "uk_sk keys"] len(2) assms(1,2)
    by (auto simp: m_def create_key_pair_eq sign_ok_def)
  then have "validate_a_message E m (uk_pk keys) = Some 1"
    using s(2) by (simp add: validate_ignores_stored_key)
  moreover have "msg_ok m" "sm_length m = 164"
    using assms(1,2) len by (auto simp: m_def msg_ok_def create_key_pair_eq sign_ok_def)
  ultimately show ?thesis
    using get msg_region.alloc_wf [OF wf, of m]
    by (auto simp: m_def hh_def alloc_msg_def)
qed

theorem get_a_signed_msg_valid_witness:
  "\<exists>keys h' m. get_a_signed_msg demo_env keys empty_heap = Some (1, h') \<and> h_msgs h' 1 = Some m \<and>
      validate_a_message demo_env m (uk_pk keys) = Some 1"
  using get_a_signed_msg_valid [OF demo_env_ok(1) create_key_pair_eq [OF demo_env_ok(1)] heap_wf_empty]
  by (fastforce simp: empty_heap_def)

section \<open>Behaviour of the date string\<close>

lemma split_years_bounds:
  "split_years y d = (y', d') \<Longrightarrow> y \<le> y' \<and> y' \<le> y + d div 365 \<and> d' < year_days y'"
proof (induction y d rule: split_years.induct)
  case (1 y d)
  show ?case
  proof (cases "d < year_days y")
    case True
    with "1.prems" show ?thesis by (subst (asm) split_years.simps) auto
  next
    case False
    with "1.prems" have "split_years (Suc y) (d - year_days y) = (y', d')"
      by (subst (asm) split_years.simps) simp
    with "1.IH" False have ih: "Suc y \<le> y'" "y' \<le> Suc y + (d - year_days y) div 365" "d' < year_days y'"
      by auto
    have "(d - year_days y) div 365 \<le> (d - 365) div 365"
      using year_days_pos [of y] by (intro div_le_mono) simp
    moreover have "Suc ((d - 365) div 365) = d div 365"
      using False year_days_pos [of y] by (simp add: le_div_geq)
    ultimately show ?thesis using ih by linarith
  qed
qed

lemma split_months_bounds:
  "split_months ns m d = (m', d') \<Longrightarrow> d < sum_list ns \<Longrightarrow> \<forall>n \<in> set ns. n \<le> 31 \<Longrightarrow>
     m \<le> m' \<and> m' < m + length ns \<and> d' < 31"
  by (induction ns m d rule: split_months.induct) (fastforce split: if_splits)+

lemma decimal_small: "n < 10 \<Longrightarrow> decimal n = [digit n]"
  by (simp add: decimal.simps)

lemma two_digits_length: "n < 100 \<Longrightarrow> length (two_digits n) = 2"
  by (auto simp: two_digits_def decimal_small decimal.simps [of n])

lemma decimal_length_4:
  assumes "1000 \<le> n" "n < 10000"
  shows "length (decimal n) = 4"
proof -
  have "length (decimal (n div 100)) = 2"
    using assms by (simp add: decimal.simps [of "n div 100"] decimal_small)
  moreover have "\<not> n div 10 < 10" using assms by simp
  ultimately show ?thesis
    using assms by (simp add: decimal.simps [of n] decimal.simps [of "n div 10"] div_mult2_eq [symmetric])
qed

lemma gmtime_fields:
  assumes "t < 200000000000"
  shows "1970 \<le> tm_year (gmtime t)" "tm_year (gmtime t) < 10000" "tm_mon (gmtime t) \<in> {1 .. 12}"
    "tm_mday (gmtime t) \<in> {1 .. 31}" "tm_hour (gmtime t) < 24" "tm_min (gmtime t) < 60" "tm_sec (gmtime t) < 60"
proof -
  obtain y yd where y: "split_years 1970 (t div 86400) = (y, yd)" by fastforce
  obtain m md where m: "split_months (month_days y) 1 yd = (m, md)" by fastforce
  have yb: "1970 \<le> y" "y \<le> 1970 + t div 86400 div 365" "yd < year_days y"
    using split_years_bounds [OF y] by auto
  have "t div 86400 div 365 \<le> 6342" using assms by (simp add: div_mult2_eq [symmetric])
  moreover have "1 \<le> m \<and> m < 1 + length (month_days y) \<and> md < 31"
    by (rule split_months_bounds [OF m]) (use yb(3) in \<open>auto simp: month_days_def year_days_def split: if_splits\<close>)
  moreover have "length (month_days y) = 12" by (simp add: month_days_def)
  moreover have gm: "gmtime t = \<lparr>tm_year = y, tm_mon = m, tm_mday = md + 1, tm_hour = t mod 86400 div 3600,
      tm_min = t mod 86400 mod 3600 div 60, tm_sec = t mod 86400 mod 60\<rparr>"
    by (simp add: gmtime_def y m [simplified] Let_def)
  ultimately show "1970 \<le> tm_year (gmtime t)" "tm_year (gmtime t) < 10000" "tm_mon (gmtime t) \<in> {1 .. 12}"
    "tm_mday (gmtime t) \<in> {1 .. 31}"
    using yb by (simp_all add: gm)
  show "tm_hour (gmtime t) < 24" "tm_min (gmtime t) < 60" "tm_sec (gmtime t) < 60"
    by (simp_all add: gm div_less_iff_less_mult)
qed

text \<open>Until the year 8307 the text has 23 characters, so that the 35 bytes of a block's date hold
  it with its terminator.\<close>

lemma date_text_length:
  assumes "t < 200000000000"
  shows "length (date_text (gmtime t)) = 23"
  using gmtime_fields [OF assms] by (simp add: date_text_def two_digits_length decimal_length_4)

lemma get_timestamp_eq:
  assumes "env_time E (h_tick h) < 200000000000" "24 \<le> length buf"
  shows "get_timestamp E buf h = Some
    (string_bytes (date_text (gmtime (env_time E (h_tick h)))) @ [0] @ drop 24 buf, 23, tick h)"
  using assms by (simp add: get_timestamp_def date_text_length memcpy_at_def string_bytes_def)

end
