(* ===== verification/DataHandlers.thy ===== *)
theory DataHandlers
  imports Misc
begin

text \<open>
  \<open>sources/networking/data_handlers.c\<close>: the server's buffer of 512 generated messages.  The loop of
  \<open>GET_nth_circ_buf\<close> pushes messages until the requested one exists; it is a \<open>partial_function\<close>.  The
  locale \<open>stable_source\<close> is what the connection handlers rely on: a request is answered with a live
  message, and every later request for the same number gets the same one.
\<close>

section \<open>Data\<close>

definition CIRC_BUF_SIZE :: nat where
  "CIRC_BUF_SIZE = 512"

lemmas CIRC_BUF_SIZE_simp [simp] = CIRC_BUF_SIZE_def

record circ_buf_t =
  cb_buffer :: "addr list"
  cb_fill_size :: u64
  cb_maxlen :: u64

section \<open>Operations\<close>

text \<open>\<open>ring_data_buf\<close> is the array \<open>setup_buffers\<close> allocated.\<close>

definition create_circ_buf :: "addr list \<Rightarrow> circ_buf_t" where
  "create_circ_buf ring_data_buf =
     \<lparr>cb_buffer = ring_data_buf, cb_fill_size = 0, cb_maxlen = of_nat CIRC_BUF_SIZE\<rparr>"

text \<open>The pointers stay in the buffer after their messages are freed.\<close>

definition clean_circ_buf :: "circ_buf_t \<Rightarrow> heap \<Rightarrow> heap option" where
  "clean_circ_buf cbf h = do {
     require (CIRC_BUF_SIZE \<le> length (cb_buffer cbf));
     foldM (\<lambda>a h. if a \<noteq> NULL then destroy_signed_message a h else Some h)
       (take CIRC_BUF_SIZE (cb_buffer cbf)) h
   }"

definition PUSH_msg_circ_buf :: "env \<Rightarrow> circ_buf_t \<Rightarrow> heap \<Rightarrow> (int \<times> circ_buf_t \<times> heap) option" where
  "PUSH_msg_circ_buf E cbuf h = do {
     (uk, h) \<leftarrow> create_key_pair E h;
     (a_msg_p, h) \<leftarrow> ls_get_a_signed_msg E uk h;
     let cur = cb_fill_size cbuf;
     (if cur = cb_maxlen cbuf then do {
        h \<leftarrow> clean_circ_buf cbuf h;
        Some (1, cbuf\<lparr>cb_fill_size := 0\<rparr>, h)
      } else do {
        require (unat cur < length (cb_buffer cbuf));
        Some (0, cbuf\<lparr>cb_buffer := (cb_buffer cbuf)[unat cur := a_msg_p], cb_fill_size := cur + 1\<rparr>, h)
      })
   }"

text \<open>\<open>do PUSH while (N + 1 != fill_size)\<close>\<close>

partial_function (option) push_until :: "env \<Rightarrow> u64 \<Rightarrow> circ_buf_t \<Rightarrow> heap \<Rightarrow> (circ_buf_t \<times> heap) option" where
  "push_until E N cbuf h = do {
     (r, cbuf, h) \<leftarrow> PUSH_msg_circ_buf E cbuf h;
     (if N + 1 \<noteq> cb_fill_size cbuf then push_until E N cbuf h else Some (cbuf, h))
   }"

definition GET_nth_circ_buf :: "env \<Rightarrow> circ_buf_t \<Rightarrow> u64 \<Rightarrow> heap \<Rightarrow> (addr \<times> circ_buf_t \<times> heap) option" where
  "GET_nth_circ_buf E cbuf N h = (
     let cur_last_msg_serial = cb_fill_size cbuf - 1 in
     if cur_last_msg_serial < N then do {
       (cbuf, h) \<leftarrow> push_until E N cbuf h;
       require (unat (cb_fill_size cbuf - 1) < length (cb_buffer cbuf));
       Some (cb_buffer cbuf ! unat (cb_fill_size cbuf - 1), cbuf, h)
     } else do {
       require (unat N < length (cb_buffer cbuf));
       Some (cb_buffer cbuf ! unat N, cbuf, h)
     })"

definition get_cbuf_head :: "circ_buf_t \<Rightarrow> addr option" where
  "get_cbuf_head cbuf = do {
     require (unat (cb_fill_size cbuf - 1) < length (cb_buffer cbuf));
     Some (cb_buffer cbuf ! unat (cb_fill_size cbuf - 1))
   }"

definition release_circ_nth_msg :: "circ_buf_t \<Rightarrow> u64 \<Rightarrow> heap \<Rightarrow> heap option" where
  "release_circ_nth_msg cbuf N h = do {
     require (unat N < length (cb_buffer cbuf));
     destroy_signed_message (cb_buffer cbuf ! unat N) h
   }"

section \<open>Well-formed buffers\<close>

text \<open>The environment the server needs, and a message it may send: live, well-formed and valid under
  the key it carries.\<close>

definition server_env :: "env \<Rightarrow> bool" where
  "server_env E \<longleftrightarrow> sign_ok E \<and> random_ok E \<and> 0 \<le> env_sodium_init E"

definition good_msg :: "env \<Rightarrow> heap \<Rightarrow> addr \<Rightarrow> bool" where
  "good_msg E h a \<longleftrightarrow> (\<exists>m. h_msgs h a = Some m \<and> msg_ok m \<and> sm_length m = 164 \<and>
     validate_a_message E m (sm_public_key m) = Some 1)"

text \<open>How many slots are in use.  After \<open>FINISH_SENDING\<close> the fill size is 0 although all slots are
  filled; \<open>fill_size - 1\<close> then wraps and every slot is served as it is.\<close>

definition filled :: "circ_buf_t \<Rightarrow> nat" where
  "filled cb = (if cb_fill_size cb = 0 then CIRC_BUF_SIZE else unat (cb_fill_size cb))"

text \<open>The slots in use hold distinct good messages; the slots behind them are null.\<close>

definition slots_ok :: "env \<Rightarrow> nat \<Rightarrow> circ_buf_t \<Rightarrow> heap \<Rightarrow> bool" where
  "slots_ok E n cb h \<longleftrightarrow> heap_wf h \<and> length (cb_buffer cb) = CIRC_BUF_SIZE \<and>
     cb_maxlen cb = of_nat CIRC_BUF_SIZE \<and> n \<le> CIRC_BUF_SIZE \<and> distinct (take n (cb_buffer cb)) \<and>
     (\<forall>i < n. good_msg E h (cb_buffer cb ! i)) \<and>
     (\<forall>i. n \<le> i \<and> i < CIRC_BUF_SIZE \<longrightarrow> cb_buffer cb ! i = NULL)"

definition serving :: "env \<Rightarrow> circ_buf_t \<Rightarrow> heap \<Rightarrow> bool" where
  "serving E cb h \<longleftrightarrow> slots_ok E (filled cb) cb h"

text \<open>How a buffer grows: filled slots are kept, and so are all objects.\<close>

definition cbuf_le :: "circ_buf_t \<Rightarrow> heap \<Rightarrow> circ_buf_t \<Rightarrow> heap \<Rightarrow> bool" where
  "cbuf_le cb h cb' h' \<longleftrightarrow> heap_le h h' \<and> h_points h' = h_points h \<and> filled cb \<le> filled cb' \<and>
     (\<forall>i < filled cb. cb_buffer cb' ! i = cb_buffer cb ! i)"

lemma cbuf_le_refl [simp, intro]: "cbuf_le cb h cb h"
  by (simp add: cbuf_le_def)

lemma cbuf_le_trans: "cbuf_le a h b h' \<Longrightarrow> cbuf_le b h' c h'' \<Longrightarrow> cbuf_le a h c h''"
  by (auto simp: cbuf_le_def intro: heap_le_trans)

lemma good_msg_mono: "good_msg E h a \<Longrightarrow> heap_le h h' \<Longrightarrow> good_msg E h' a"
  by (auto simp: good_msg_def dest: heap_le_msg)

section \<open>Behaviour\<close>

text \<open>The message drawn at tick \<open>t\<close>, and what \<open>ls_get_a_signed_msg\<close> returns: a new object that holds it.\<close>

definition drawn_msg :: "env \<Rightarrow> user_keys \<Rightarrow> nat \<Rightarrow> signed_message_t" where
  "drawn_msg E keys t = \<lparr>sm_message = Some (env_sign E (env_randombytes E t 100) (uk_sk keys)),
     sm_length = 164, sm_public_key = uk_pk keys\<rparr>"

lemma drawn_msg_ok:
  assumes "server_env E" "create_key_pair E h0 = Some (keys, h1)"
  shows "msg_ok (drawn_msg E keys t)" "validate_a_message E (drawn_msg E keys t) (uk_pk keys) = Some 1"
proof -
  have E: "sign_ok E" "length (env_randombytes E t 100) = 100" using assms(1) by (auto simp: server_env_def random_ok_def)
  then show "msg_ok (drawn_msg E keys t)"
    using assms(2) by (auto simp: drawn_msg_def msg_ok_def create_key_pair_eq sign_ok_def)
  show "validate_a_message E (drawn_msg E keys t) (uk_pk keys) = Some 1"
    using validate_signed [OF E(1) assms(2), of "\<lparr>tm_test_msg = env_randombytes E t 100, tm_len = 100\<rparr>"] E(2)
    by (simp add: drawn_msg_def)
qed

lemma ls_get_a_signed_msg_eq:
  assumes "server_env E" "create_key_pair E h0 = Some (keys, h1)"
  shows "ls_get_a_signed_msg E keys h = Some (alloc_msg (drawn_msg E keys (Suc (h_tick h))) (tick (tick h)))"
proof -
  let ?t = "\<lparr>tm_test_msg = env_randombytes E (Suc (h_tick h)) 100, tm_len = 100 :: u64\<rparr>"
  have E: "sign_ok E" "length (env_randombytes E (Suc (h_tick h)) 100) = 100" "0 \<le> env_sodium_init E"
    using assms(1) by (auto simp: server_env_def random_ok_def)
  then have "ls_get_test_msg E 100 (tick h) = Some (?t, tick (tick h))" by (simp add: ls_get_test_msg_def memcpy_full)
  then show ?thesis
    using sign_to_heap_eq [OF E(1) assms(2), of ?t] E(2) by (simp add: ls_get_a_signed_msg_def drawn_msg_def)
qed

lemma ls_get_a_signed_msg_ok:
  assumes "server_env E" "create_key_pair E h0 = Some (keys, h1)" "heap_wf h"
  shows "\<exists>h'. ls_get_a_signed_msg E keys h = Some (h_next h, h') \<and> good_msg E h' (h_next h) \<and>
    heap_wf h' \<and> heap_le h h' \<and> h_points h' = h_points h"
proof -
  let ?m = "drawn_msg E keys (Suc (h_tick h))" and ?h = "tick (tick h)"
  have "ls_get_a_signed_msg E keys h = Some (h_next h, snd (alloc_msg ?m ?h))"
    using ls_get_a_signed_msg_eq [OF assms(1,2)] by (simp add: alloc_msg_def)
  moreover have "good_msg E (snd (alloc_msg ?m ?h)) (h_next h)"
    using drawn_msg_ok [OF assms(1,2)] by (simp add: good_msg_def alloc_msg_def) (simp add: drawn_msg_def)
  moreover have "heap_wf ?h" using assms(3) by simp
  ultimately show ?thesis
    using msg_region.alloc_wf [of ?h ?m] msg_region.alloc_le [of ?h ?m] by (auto intro: heap_le_tick_trans)
qed

lemma good_msg_old: "heap_wf h \<Longrightarrow> good_msg E h a \<Longrightarrow> a < h_next h"
  by (auto simp: good_msg_def heap_wf_def)

lemma unat_succ_512: "unat (w :: u64) < 512 \<Longrightarrow> unat (w + 1) = Suc (unat w)"
  by (simp add: unat_succ_small)

text \<open>Pushing onto a buffer that is not full fills the next slot with a new good message.\<close>

lemma PUSH_msg_circ_buf_ok:
  assumes E: "server_env E" and s: "slots_ok E (unat (cb_fill_size cb)) cb h"
    and n: "unat (cb_fill_size cb) < CIRC_BUF_SIZE"
  shows "\<exists>cb' h'. PUSH_msg_circ_buf E cb h = Some (0, cb', h') \<and>
    slots_ok E (Suc (unat (cb_fill_size cb))) cb' h' \<and>
    unat (cb_fill_size cb') = Suc (unat (cb_fill_size cb)) \<and> heap_le h h' \<and> h_points h' = h_points h \<and>
    (\<forall>i < unat (cb_fill_size cb). cb_buffer cb' ! i = cb_buffer cb ! i)"
proof -
  let ?n = "unat (cb_fill_size cb)"
  have wf: "heap_wf (tick h)" using s by (simp add: slots_ok_def)
  obtain keys where k: "create_key_pair E h = Some (keys, tick h)"
    using E create_key_pair_eq [of E h] by (auto simp: server_env_def)
  obtain h' where g: "ls_get_a_signed_msg E keys (tick h) = Some (h_next h, h')"
      "good_msg E h' (h_next h)" "heap_wf h'" "heap_le (tick h) h'" "h_points h' = h_points h"
    using ls_get_a_signed_msg_ok [OF E k wf] by auto
  have le: "heap_le h h'" using g(4) by (rule heap_le_tick_trans)
  let ?cb = "cb\<lparr>cb_buffer := (cb_buffer cb)[?n := h_next h], cb_fill_size := cb_fill_size cb + 1\<rparr>"
  have len: "length (cb_buffer cb) = 512" "cb_maxlen cb = 512" using s by (simp_all add: slots_ok_def)
  have nm: "cb_fill_size cb \<noteq> cb_maxlen cb" using n len by auto
  have push: "PUSH_msg_circ_buf E cb h = Some (0, ?cb, h')"
    using k g(1) nm n len by (simp add: PUSH_msg_circ_buf_def Let_def)
  have old: "\<forall>a \<in> set (take ?n (cb_buffer cb)). a < h_next h"
    using s n good_msg_old [of h E] by (auto simp: slots_ok_def in_set_conv_nth)
  have "slots_ok E (Suc ?n) ?cb h'"
    unfolding slots_ok_def
  proof (intro conjI allI impI)
    show "distinct (take (Suc ?n) (cb_buffer ?cb))"
      using s n old by (auto simp: slots_ok_def take_Suc_conv_app_nth)
    show "good_msg E h' (cb_buffer ?cb ! i)" if "i < Suc ?n" for i
      using s that n g(2) good_msg_mono [OF _ le] by (cases "i = ?n") (auto simp: slots_ok_def)
  qed (use s n g(3) in \<open>auto simp: slots_ok_def\<close>)
  moreover have "unat (cb_fill_size ?cb) = Suc ?n" using n unat_succ_512 [of "cb_fill_size cb"] by simp
  ultimately show ?thesis using push le g(5) by auto
qed

lemma push_until_ok:
  assumes E: "server_env E" and N: "unat N < CIRC_BUF_SIZE"
  shows "slots_ok E (unat (cb_fill_size cb)) cb h \<Longrightarrow> unat (cb_fill_size cb) \<le> unat N \<Longrightarrow>
    \<exists>cb' h'. push_until E N cb h = Some (cb', h') \<and> slots_ok E (Suc (unat N)) cb' h' \<and>
      unat (cb_fill_size cb') = Suc (unat N) \<and> heap_le h h' \<and> h_points h' = h_points h \<and>
      (\<forall>i < unat (cb_fill_size cb). cb_buffer cb' ! i = cb_buffer cb ! i)"
proof (induction "unat N - unat (cb_fill_size cb)" arbitrary: cb h rule: less_induct)
  case less
  let ?n = "unat (cb_fill_size cb)"
  obtain cb1 h1 where p: "PUSH_msg_circ_buf E cb h = Some (0, cb1, h1)" "slots_ok E (Suc ?n) cb1 h1"
      "unat (cb_fill_size cb1) = Suc ?n" "heap_le h h1" "h_points h1 = h_points h"
      "\<forall>i < ?n. cb_buffer cb1 ! i = cb_buffer cb ! i"
    using PUSH_msg_circ_buf_ok [OF E less.prems(1)] less.prems(2) N by auto
  have eq: "N + 1 = cb_fill_size cb1 \<longleftrightarrow> ?n = unat N"
    using p(3) N unat_succ_512 [of N] by (auto simp: word_unat_eq_iff)
  show ?case
  proof (cases "?n = unat N")
    case True
    then show ?thesis using p eq by (subst push_until.simps) simp
  next
    case False
    with less.prems(2) have lt: "unat N - unat (cb_fill_size cb1) < unat N - ?n" "Suc ?n \<le> unat N"
      using p(3) by auto
    have "slots_ok E (unat (cb_fill_size cb1)) cb1 h1" "unat (cb_fill_size cb1) \<le> unat N"
      using p(2,3) lt(2) by simp_all
    from less.hyps [OF lt(1) this] obtain cb' h' where r: "push_until E N cb1 h1 = Some (cb', h')"
        "slots_ok E (Suc (unat N)) cb' h'" "unat (cb_fill_size cb') = Suc (unat N)" "heap_le h1 h'"
        "h_points h' = h_points h1" "\<forall>i < Suc ?n. cb_buffer cb' ! i = cb_buffer cb1 ! i"
      using p(3) by metis
    have "push_until E N cb h = Some (cb', h')"
      using p(1) r(1) False eq by (subst push_until.simps) simp
    then show ?thesis using p r by (auto intro: heap_le_trans)
  qed
qed

lemma serving_parts:
  assumes "serving E cb h"
  shows "heap_wf h" "length (cb_buffer cb) = 512" "cb_maxlen cb = 512" "filled cb \<le> 512" "0 < filled cb"
    "\<And>i. i < filled cb \<Longrightarrow> good_msg E h (cb_buffer cb ! i)" "distinct (take (filled cb) (cb_buffer cb))"
  using assms by (auto simp: serving_def slots_ok_def filled_def unat_gt_0)

text \<open>A request for a filled slot is answered from the slot and changes nothing.\<close>

lemma GET_nth_filled:
  assumes "serving E cb h" "unat N < filled cb"
  shows "GET_nth_circ_buf E cb N h = Some (cb_buffer cb ! unat N, cb, h)"
proof -
  have "\<not> cb_fill_size cb - 1 < N"
  proof (cases "cb_fill_size cb = 0")
    case True
    then show ?thesis by simp
  next
    case False
    then have "unat (cb_fill_size cb - 1) = unat (cb_fill_size cb) - 1" by (rule unat_minus_one)
    then show ?thesis using assms(2) False by (simp add: filled_def word_less_nat_alt)
  qed
  moreover have "unat N < length (cb_buffer cb)"
    using serving_parts(2,4) [OF assms(1)] assms(2) by simp
  ultimately show ?thesis by (simp add: GET_nth_circ_buf_def Let_def)
qed

lemma GET_nth_ok:
  assumes E: "server_env E" and s: "serving E cb h" and N: "unat N < CIRC_BUF_SIZE"
  shows "\<exists>cb' h'. GET_nth_circ_buf E cb N h = Some (cb_buffer cb' ! unat N, cb', h') \<and>
    serving E cb' h' \<and> unat N < filled cb' \<and> cbuf_le cb h cb' h'"
proof (cases "unat N < filled cb")
  case True
  then show ?thesis using GET_nth_filled [OF s] s by auto
next
  case False
  then have nz: "cb_fill_size cb \<noteq> 0" and n: "unat (cb_fill_size cb) \<le> unat N"
    using N by (auto simp: filled_def split: if_splits)
  have fl: "filled cb = unat (cb_fill_size cb)" using nz by (simp add: filled_def)
  have lt: "cb_fill_size cb - 1 < N"
  proof -
    have "0 < unat (cb_fill_size cb)" using nz by (simp add: unat_gt_0)
    then show ?thesis using n unat_minus_one [OF nz] by (simp add: word_less_nat_alt)
  qed
  obtain cb' h' where p: "push_until E N cb h = Some (cb', h')" "slots_ok E (Suc (unat N)) cb' h'"
      "unat (cb_fill_size cb') = Suc (unat N)" "heap_le h h'" "h_points h' = h_points h"
      "\<forall>i < unat (cb_fill_size cb). cb_buffer cb' ! i = cb_buffer cb ! i"
    using push_until_ok [OF E N _ n, of h] s fl unfolding serving_def by metis
  have nz': "cb_fill_size cb' \<noteq> 0" using p(3) by auto
  then have fl': "filled cb' = Suc (unat N)" "unat (cb_fill_size cb' - 1) = unat N"
    using p(3) unat_minus_one [OF nz'] by (simp_all add: filled_def)
  have "unat N < length (cb_buffer cb')" using p(2) by (simp add: slots_ok_def)
  then have "GET_nth_circ_buf E cb N h = Some (cb_buffer cb' ! unat N, cb', h')"
    using p(1) lt fl'(2) by (simp add: GET_nth_circ_buf_def Let_def)
  moreover have "serving E cb' h'" using p(2) fl' by (simp add: serving_def)
  moreover have "cbuf_le cb h cb' h'" using p n fl fl' by (auto simp: cbuf_le_def)
  ultimately show ?thesis using fl' by auto
qed

section \<open>What a requester may rely on\<close>

text \<open>Answering a sequence of requests.\<close>

fun serve_all :: "('n \<Rightarrow> 's \<Rightarrow> ('a \<times> 's) option) \<Rightarrow> 'n list \<Rightarrow> 's \<Rightarrow> ('a list \<times> 's) option" where
  "serve_all get [] s = Some ([], s)"
| "serve_all get (n # ns) s = do {
     (a, s) \<leftarrow> get n s;
     (as, s) \<leftarrow> serve_all get ns s;
     Some (a # as, s)
   }"

text \<open>\<open>holds s n a\<close>: request \<open>n\<close> has been answered with \<open>a\<close>.\<close>

locale stable_source =
  fixes inv :: "'s \<Rightarrow> bool"
    and le :: "'s \<Rightarrow> 's \<Rightarrow> bool"
    and get :: "'n \<Rightarrow> 's \<Rightarrow> ('a \<times> 's) option"
    and ok :: "'n \<Rightarrow> bool"
    and holds :: "'s \<Rightarrow> 'n \<Rightarrow> 'a \<Rightarrow> bool"
  assumes answered: "inv s \<Longrightarrow> ok n \<Longrightarrow> \<exists>a s'. get n s = Some (a, s') \<and> inv s' \<and> le s s' \<and> holds s' n a"
    and held: "inv s \<Longrightarrow> holds s n a \<Longrightarrow> get n s = Some (a, s)"
    and later: "holds s n a \<Longrightarrow> le s s' \<Longrightarrow> holds s' n a"
    and refl: "le s s"
    and trans: "le s s' \<Longrightarrow> le s' s'' \<Longrightarrow> le s s''"
begin

lemma all_answered:
  assumes "inv s" "\<forall>n \<in> set ns. ok n"
  shows "\<exists>as s'. serve_all get ns s = Some (as, s') \<and> inv s' \<and> le s s' \<and> list_all2 (holds s') ns as"
  using assms
proof (induction ns arbitrary: s)
  case Nil
  then show ?case by (simp add: refl)
next
  case (Cons n ns)
  from Cons.prems obtain a s1 where a: "get n s = Some (a, s1)" "inv s1" "le s s1" "holds s1 n a"
    using answered [of s n] by auto
  with Cons obtain as s2 where as: "serve_all get ns s1 = Some (as, s2)" "inv s2" "le s1 s2"
      "list_all2 (holds s2) ns as"
    by fastforce
  have "holds s2 n a" using later a(4) as(3) by blast
  moreover have "le s s2" using trans a(3) as(3) by blast
  ultimately show ?case using a(1) as by simp
qed

lemma all_held:
  assumes "inv s" "list_all2 (holds s) ns as"
  shows "serve_all get ns s = Some (as, s)"
  using assms(2) by induction (simp_all add: held [OF assms(1)])

lemma all_later: "list_all2 (holds s) ns as \<Longrightarrow> le s s' \<Longrightarrow> list_all2 (holds s') ns as"
  by (erule list_all2_mono) (rule later)

end

definition get_slot :: "env \<Rightarrow> u64 \<Rightarrow> circ_buf_t \<times> heap \<Rightarrow> (addr \<times> circ_buf_t \<times> heap) option" where
  "get_slot E N s = GET_nth_circ_buf E (fst s) N (snd s)"

definition source_ok :: "env \<Rightarrow> circ_buf_t \<times> heap \<Rightarrow> bool" where
  "source_ok E s \<longleftrightarrow> server_env E \<and> serving E (fst s) (snd s)"

definition source_le :: "circ_buf_t \<times> heap \<Rightarrow> circ_buf_t \<times> heap \<Rightarrow> bool" where
  "source_le s s' \<longleftrightarrow> cbuf_le (fst s) (snd s) (fst s') (snd s')"

definition slot_holds :: "env \<Rightarrow> circ_buf_t \<times> heap \<Rightarrow> u64 \<Rightarrow> addr \<Rightarrow> bool" where
  "slot_holds E s N a \<longleftrightarrow> unat N < filled (fst s) \<and> cb_buffer (fst s) ! unat N = a \<and> good_msg E (snd s) a"

interpretation cbuf: stable_source "source_ok E" source_le "get_slot E"
  "\<lambda>N. unat N < CIRC_BUF_SIZE" "slot_holds E" for E
proof unfold_locales
  fix s and N :: u64 assume s: "source_ok E s" and N: "unat N < CIRC_BUF_SIZE"
  then obtain cb' h' where
    g: "GET_nth_circ_buf E (fst s) N (snd s) = Some (cb_buffer cb' ! unat N, cb', h')" "serving E cb' h'"
      "unat N < filled cb'" "cbuf_le (fst s) (snd s) cb' h'"
    using GET_nth_ok [of E "fst s" "snd s" N] unfolding source_ok_def by blast
  then show "\<exists>a s'. get_slot E N s = Some (a, s') \<and> source_ok E s' \<and> source_le s s' \<and> slot_holds E s' N a"
    using s serving_parts(6) [OF g(2,3)] by (simp add: get_slot_def source_ok_def source_le_def slot_holds_def)
next
  fix s N a assume "source_ok E s" "slot_holds E s N a"
  then show "get_slot E N s = Some (a, s)"
    using GET_nth_filled [of E "fst s" "snd s" N] by (simp add: source_ok_def slot_holds_def get_slot_def)
next
  fix s N a s' assume "slot_holds E s N a" "source_le s s'"
  then show "slot_holds E s' N a"
    by (auto simp: slot_holds_def source_le_def cbuf_le_def intro: good_msg_mono)
qed (auto simp: source_le_def intro: cbuf_le_trans)

text \<open>
  C22.  All clients get the same messages: from any serving state, requests 0 to 511 are all answered, with
  512 different live messages that validate under the keys they carry, and in every later serving state
  the same requests are answered with the same messages and change nothing.
\<close>

theorem all_clients_same_messages:
  assumes "server_env E" "serving E cb h"
  shows "\<exists>as cb1 h1. serve_all (get_slot E) (map of_nat [0 ..< 512]) (cb, h) = Some (as, (cb1, h1)) \<and>
    length as = 512 \<and> distinct as \<and> (\<forall>a \<in> set as. good_msg E h1 a) \<and> serving E cb1 h1 \<and>
    (\<forall>cb2 h2. cbuf_le cb1 h1 cb2 h2 \<and> serving E cb2 h2 \<longrightarrow>
       serve_all (get_slot E) (map of_nat [0 ..< 512]) (cb2, h2) = Some (as, (cb2, h2)))"
proof -
  let ?ns = "map of_nat [0 ..< 512] :: u64 list"
  have un: "unat (of_nat i :: u64) = i" if "i < 512" for i using that by (intro unat_of_nat_u64) simp
  have "source_ok E (cb, h)" "\<forall>N \<in> set ?ns. unat N < CIRC_BUF_SIZE" using assms un by (auto simp: source_ok_def)
  then obtain as s1 where s1: "serve_all (get_slot E) ?ns (cb, h) = Some (as, s1)" "source_ok E s1"
      "source_le (cb, h) s1" "list_all2 (slot_holds E s1) ?ns as"
    using cbuf.all_answered by blast
  have len: "length as = 512" using list_all2_lengthD [OF s1(4)] by simp
  have nth: "slot_holds E s1 (of_nat i) (as ! i)" if "i < 512" for i
    using list_all2_nthD [OF s1(4), of i] that by simp
  note parts = serving_parts [of E "fst s1" "snd s1"]
  have "511 < filled (fst s1)" using nth [of 511] un [of 511] by (simp add: slot_holds_def)
  then have "filled (fst s1) = 512" using parts(4) s1(2) by (simp add: source_ok_def)
  moreover have "as = take 512 (cb_buffer (fst s1))"
    using nth un len parts(2) s1(2) by (auto intro!: nth_equalityI simp: slot_holds_def source_ok_def)
  ultimately have "distinct as" using parts(7) s1(2) by (simp add: source_ok_def)
  moreover have "\<forall>a \<in> set as. good_msg E (snd s1) a"
    using nth len by (auto simp: in_set_conv_nth slot_holds_def)
  moreover have "serve_all (get_slot E) ?ns (cb2, h2) = Some (as, (cb2, h2))"
    if "cbuf_le (fst s1) (snd s1) cb2 h2 \<and> serving E cb2 h2" for cb2 h2
    using cbuf.all_held [OF _ cbuf.all_later [OF s1(4)], of "(cb2, h2)"] that assms(1)
    by (simp add: source_ok_def source_le_def)
  ultimately show ?thesis
    using s1 len by (metis prod.collapse source_ok_def)
qed

text \<open>The server starts serving with the one message it pushes before its event loop.\<close>

lemma first_push_serving:
  assumes "server_env E" "heap_wf h"
  shows "\<exists>cb h'. PUSH_msg_circ_buf E (create_circ_buf (replicate 512 NULL)) h = Some (0, cb, h') \<and>
    serving E cb h' \<and> filled cb = 1 \<and> heap_le h h' \<and> h_points h' = h_points h"
proof -
  let ?cb = "create_circ_buf (replicate 512 NULL)"
  have "slots_ok E (unat (cb_fill_size ?cb)) ?cb h" using assms(2) by (simp add: slots_ok_def create_circ_buf_def)
  from PUSH_msg_circ_buf_ok [OF assms(1) this] obtain cb h' where
    p: "PUSH_msg_circ_buf E ?cb h = Some (0, cb, h')" "slots_ok E 1 cb h'" "unat (cb_fill_size cb) = 1"
      "heap_le h h'" "h_points h' = h_points h" by (auto simp: create_circ_buf_def)
  have "cb_fill_size cb \<noteq> 0" using p(3) by auto
  then have "filled cb = 1" using p(3) by (simp add: filled_def)
  then show ?thesis using p by (auto simp: serving_def)
qed

lemma demo_server_env: "server_env demo_env"
  using demo_env_ok by (simp add: server_env_def demo_env_def)

theorem all_clients_same_messages_witness:
  "\<exists>cb h as cb1 h1. PUSH_msg_circ_buf demo_env (create_circ_buf (replicate 512 NULL)) empty_heap = Some (0, cb, h) \<and>
     serve_all (get_slot demo_env) (map of_nat [0 ..< 512]) (cb, h) = Some (as, (cb1, h1)) \<and> length as = 512 \<and>
     serve_all (get_slot demo_env) (map of_nat [0 ..< 512]) (cb1, h1) = Some (as, (cb1, h1))"
proof -
  obtain cb h where p: "PUSH_msg_circ_buf demo_env (create_circ_buf (replicate 512 NULL)) empty_heap = Some (0, cb, h)"
    "serving demo_env cb h" using first_push_serving [OF demo_server_env heap_wf_empty] by blast
  from all_clients_same_messages [OF demo_server_env p(2)] p(1) show ?thesis using cbuf_le_refl by blast
qed

section \<open>Behaviour at the edges\<close>

text \<open>A push onto a full buffer frees all 512 messages and starts again at 0, but drops the message it
  has just generated: no pointer to it remains.\<close>

lemma clean_circ_buf_full:
  assumes "slots_ok E 512 cb h"
  shows "\<exists>h'. clean_circ_buf cb h = Some h' \<and> h_msgs h' = h_msgs h |` (- set (cb_buffer cb))"
proof -
  have len: "length (cb_buffer cb) = 512" and wf: "heap_wf h" and d: "distinct (cb_buffer cb)"
    using assms by (auto simp: slots_ok_def)
  have live: "\<forall>a \<in> set (cb_buffer cb). a \<noteq> NULL \<and> h_msgs h a \<noteq> None"
  proof
    fix a assume "a \<in> set (cb_buffer cb)"
    then obtain m where "h_msgs h a = Some m"
      using assms len by (auto simp: slots_ok_def good_msg_def in_set_conv_nth)
    then show "a \<noteq> NULL \<and> h_msgs h a \<noteq> None" using heap_wf_nonnull(1) [OF wf] by (cases "a = NULL") auto
  qed
  have "foldM (\<lambda>a h. if a \<noteq> NULL then destroy_signed_message a h else Some h) as g = foldM free_msg as g"
    if "\<forall>a \<in> set as. a \<noteq> NULL" for as g
    using that
  proof (induction as arbitrary: g)
    case (Cons a as)
    have "destroy_signed_message a g = free_msg a g"
      using Cons.prems by (auto simp: destroy_signed_message_def free_msg_def split: option.split Option.bind_split)
    then show ?case using Cons by (auto split: Option.bind_split)
  qed simp
  then have "clean_circ_buf cb h = foldM free_msg (cb_buffer cb) h"
    using len live by (simp add: clean_circ_buf_def)
  then show ?thesis using msg_region.release_all [OF d live] by auto
qed

text \<open>
  C37.  Pushing onto a full buffer frees every message in it and reports 1; the buffer keeps its 512
  pointers, which now dangle, and the message generated by that push is lost.
\<close>

theorem push_full_frees_all:
  assumes "server_env E" "slots_ok E 512 cb h" "cb_fill_size cb = 512"
  shows "\<exists>cb' h'. PUSH_msg_circ_buf E cb h = Some (1, cb', h') \<and> cb_fill_size cb' = 0 \<and>
    cb_buffer cb' = cb_buffer cb \<and> (\<forall>a \<in> set (cb_buffer cb). h_msgs h' a = None) \<and>
    (\<exists>m. h_msgs h' (h_next h) = Some m) \<and> h_next h \<notin> set (cb_buffer cb')"
proof -
  have wf: "heap_wf (tick h)" "cb_maxlen cb = 512" using assms(2) by (simp_all add: slots_ok_def)
  obtain keys where k: "create_key_pair E h = Some (keys, tick h)"
    using assms(1) create_key_pair_eq [of E h] by (auto simp: server_env_def)
  obtain h1 where g: "ls_get_a_signed_msg E keys (tick h) = Some (h_next h, h1)"
      "good_msg E h1 (h_next h)" "heap_wf h1" "heap_le (tick h) h1"
    using ls_get_a_signed_msg_ok [OF assms(1) k wf(1)] by auto
  have le: "heap_le h h1" using g(4) by (rule heap_le_tick_trans)
  have "slots_ok E 512 cb h1"
    using assms(2) g(3) good_msg_mono [OF _ le] by (auto simp: slots_ok_def)
  then obtain h2 where c: "clean_circ_buf cb h1 = Some h2" "h_msgs h2 = h_msgs h1 |` (- set (cb_buffer cb))"
    using clean_circ_buf_full by blast
  have "PUSH_msg_circ_buf E cb h = Some (1, cb\<lparr>cb_fill_size := 0\<rparr>, h2)"
    using k g(1) c(1) assms(3) wf(2) by (simp add: PUSH_msg_circ_buf_def Let_def)
  moreover have "h_next h \<notin> set (cb_buffer cb)"
  proof
    assume "h_next h \<in> set (cb_buffer cb)"
    then have "good_msg E h (h_next h)" "heap_wf h" using assms(2) by (auto simp: slots_ok_def in_set_conv_nth)
    then show False using good_msg_old by blast
  qed
  ultimately show ?thesis using c(2) g(2) by (auto simp: good_msg_def)
qed

theorem push_full_frees_all_witness:
  "\<exists>cb h cb' h'. push_until demo_env 511 (create_circ_buf (replicate 512 NULL)) empty_heap = Some (cb, h) \<and>
     PUSH_msg_circ_buf demo_env cb h = Some (1, cb', h') \<and> cb_fill_size cb' = 0"
proof -
  let ?cb = "create_circ_buf (replicate 512 NULL)"
  have "slots_ok demo_env (unat (cb_fill_size ?cb)) ?cb empty_heap"
    using heap_wf_empty by (simp add: slots_ok_def create_circ_buf_def)
  from push_until_ok [OF demo_server_env _ this, of 511]
  obtain cb h where p: "push_until demo_env 511 ?cb empty_heap = Some (cb, h)" "slots_ok demo_env 512 cb h"
    "unat (cb_fill_size cb) = 512" by (auto simp: create_circ_buf_def)
  have "cb_fill_size cb = 512" using p(3) by (simp add: word_unat_eq_iff)
  from push_full_frees_all [OF demo_server_env p(2) this] p(1) show ?thesis by blast
qed

lemma PUSH_fill_bound:
  assumes "PUSH_msg_circ_buf E cb h = Some (r, cb', h')" "cb_maxlen cb = 512" "unat (cb_fill_size cb) \<le> 512"
  shows "cb_maxlen cb' = 512" "unat (cb_fill_size cb') \<le> 512"
proof -
  show "cb_maxlen cb' = 512"
    using assms(1,2) by (auto simp: PUSH_msg_circ_buf_def bind_eq_Some_conv Let_def split: if_splits)
  have "cb_fill_size cb' = 0 \<or> (cb_fill_size cb \<noteq> 512 \<and> cb_fill_size cb' = cb_fill_size cb + 1)"
    using assms(1,2) by (auto simp: PUSH_msg_circ_buf_def bind_eq_Some_conv Let_def split: if_splits)
  then show "unat (cb_fill_size cb') \<le> 512"
  proof
    assume c: "cb_fill_size cb \<noteq> 512 \<and> cb_fill_size cb' = cb_fill_size cb + 1"
    then have "unat (cb_fill_size cb) \<noteq> 512" by (simp add: word_unat_eq_iff)
    then show ?thesis using c assms(3) unat_succ_512 [of "cb_fill_size cb"] by simp
  qed simp
qed

lemma push_until_beyond:
  "push_until E N cb h = Some r \<Longrightarrow> 512 \<le> unat N \<Longrightarrow> N \<noteq> - 1 \<Longrightarrow> cb_maxlen cb = 512 \<Longrightarrow>
   unat (cb_fill_size cb) \<le> 512 \<Longrightarrow> False"
proof (induction E N cb h r rule: push_until.raw_induct [rotated, consumes 1, case_names round])
  case (round again E N cb h r)
  then obtain x cb1 h1 where p: "PUSH_msg_circ_buf E cb h = Some (x, cb1, h1)"
    and a: "(if N + 1 \<noteq> cb_fill_size cb1 then again E N cb1 h1 else Some (cb1, h1)) = Some r"
    by (auto simp: bind_eq_Some_conv)
  note b = PUSH_fill_bound [OF p round.prems(3,4)]
  have "1 + N \<noteq> 0" using round.prems(2) by (simp only: add_eq_0_iff not_False_eq_True)
  then have "unat (1 + N) = Suc (unat N)" by (rule unatSuc)
  then have "unat (N + 1) = Suc (unat N)" by (simp only: add.commute)
  then have "N + 1 \<noteq> cb_fill_size cb1" using b(2) round.prems(1) by auto
  then show ?case using a b round.IH [of E N cb1 h1] round.prems by simp
qed

text \<open>
  A request for a number from 512 on, asked of a buffer in use, is never answered: the loop pushes,
  wraps around and pushes again without end.  The connection handlers never ask for one.
\<close>

theorem GET_nth_beyond_end:
  assumes "serving E cb h" "cb_fill_size cb \<noteq> 0" "512 \<le> unat N" "N \<noteq> - 1"
  shows "GET_nth_circ_buf E cb N h = None"
proof -
  have f: "unat (cb_fill_size cb) \<le> 512" "cb_maxlen cb = 512" "unat (cb_fill_size cb - 1) < 512"
    using serving_parts(3,4) [OF assms(1)] assms(2) unat_minus_one [OF assms(2)]
    by (auto simp: filled_def unat_gt_0 intro: less_le_trans [of _ "unat (cb_fill_size cb)"])
  then have "cb_fill_size cb - 1 < N" using assms(3) by (simp add: word_less_nat_alt)
  moreover have "push_until E N cb h = None"
    using push_until_beyond [OF _ assms(3,4) f(2,1)] by (cases "push_until E N cb h") auto
  ultimately show ?thesis by (simp add: GET_nth_circ_buf_def Let_def)
qed

theorem GET_nth_beyond_end_witness:
  "\<exists>cb h. PUSH_msg_circ_buf demo_env (create_circ_buf (replicate 512 NULL)) empty_heap = Some (0, cb, h) \<and>
     GET_nth_circ_buf demo_env cb 512 h = None"
proof -
  obtain cb h where p: "PUSH_msg_circ_buf demo_env (create_circ_buf (replicate 512 NULL)) empty_heap = Some (0, cb, h)"
    "serving demo_env cb h" "filled cb = 1" using first_push_serving [OF demo_server_env heap_wf_empty] by blast
  then have "cb_fill_size cb \<noteq> 0" by (auto simp: filled_def)
  from GET_nth_beyond_end [OF p(2) this, of 512] p(1) show ?thesis by auto
qed

end
