(* ===== verification/BlockData.thy ===== *)
theory BlockData
  imports Misc
begin

text \<open>
  \<open>sources/block_data/blockdata.c\<close>: block headers and the hash puzzle.  The search loop draws
  random nonces until the hash of nonce and Merkle root starts with zero bytes; it is a
  \<open>partial_function\<close>, so a search that never ends is \<^term>\<open>None\<close>.  The theory shows when it ends,
  with which nonce, and what a finished header holds.  Console output is left out except where it is
  the whole function.
\<close>

section \<open>Data\<close>

definition NONCE_LEN :: nat where
  "NONCE_LEN = 15"

lemmas NONCE_LEN_simp [simp] = NONCE_LEN_def

record block_t =
  blk_nonce :: bytes
  blk_date :: bytes
  blk_timestamp_begin :: u64
  blk_timestamp_end :: u64
  blk_difficulty :: u64
  blk_previous_block :: bytes
  blk_merkle_root :: bytes

record puzzle_thr_container =
  pc_merkle_root_p :: bytes
  pc_nonce :: bytes

text \<open>The packed struct in memory, little-endian.\<close>

definition le64 :: "u64 \<Rightarrow> bytes" where
  "le64 w = map (\<lambda>i. ucast (drop_bit (8 * i) w)) [0 ..< 8]"

definition block_bytes :: "block_t \<Rightarrow> bytes" where
  "block_bytes b = blk_nonce b @ blk_date b @ le64 (blk_timestamp_begin b) @ le64 (blk_timestamp_end b) @
     le64 (blk_difficulty b) @ blk_previous_block b @ blk_merkle_root b"

definition block_zero :: block_t where
  "block_zero = \<lparr>blk_nonce = calloc NONCE_LEN, blk_date = calloc 35, blk_timestamp_begin = 0,
     blk_timestamp_end = 0, blk_difficulty = 0, blk_previous_block = calloc crypto_generichash_BYTES,
     blk_merkle_root = calloc crypto_generichash_BYTES\<rparr>"

definition block_wf :: "block_t \<Rightarrow> bool" where
  "block_wf b \<longleftrightarrow> length (blk_nonce b) = NONCE_LEN \<and> length (blk_date b) = 35 \<and>
     length (blk_previous_block b) = crypto_generichash_BYTES \<and>
     length (blk_merkle_root b) = crypto_generichash_BYTES"

section \<open>Operations\<close>

definition create_block_dummy :: "env \<Rightarrow> block_t option \<Rightarrow> bytes \<Rightarrow> heap \<Rightarrow> (block_t \<times> heap) option" where
  "create_block_dummy E prev_block merkle_root h = do {
     let blk = block_zero;
     temp_hash \<leftarrow> calc_hashof_hash (env_generichash E) merkle_root;
     root \<leftarrow> memcpy (blk_merkle_root blk) temp_hash crypto_generichash_BYTES;
     (date, _, h) \<leftarrow> get_timestamp E (blk_date blk) h;
     let (ts, h) = get_epoch_ns E h;
     prev \<leftarrow> (case prev_block of
        None \<Rightarrow> memset (blk_previous_block blk) 0 crypto_generichash_BYTES
      | Some p \<Rightarrow> memcpy (blk_previous_block blk) (env_generichash E (block_bytes p)) crypto_generichash_BYTES);
     nonce \<leftarrow> memset (blk_nonce blk) 0 NONCE_LEN;
     Some (blk\<lparr>blk_merkle_root := root, blk_date := date, blk_timestamp_begin := ts,
               blk_timestamp_end := 0, blk_previous_block := prev, blk_difficulty := 0,
               blk_nonce := nonce\<rparr>, h)
   }"

definition print_block_data :: "env \<Rightarrow> block_t \<Rightarrow> string option" where
  "print_block_data E block = do {
     d \<leftarrow> DumpHex E (blk_date block) 32;
     n \<leftarrow> DumpHex E (blk_nonce block) 15;
     r \<leftarrow> DumpHex E (blk_merkle_root block) 32;
     Some (''-----------------block content starts-----------------'' @ newline @
           ''block data creation:'' @ newline @ d @ ''block nonce:'' @ newline @ n @
           ''block merkle root:'' @ newline @ r @
           ''-----------------block content ends-------------------'' @ newline)
   }"

definition set_nonce_to_block :: "env \<Rightarrow> block_t \<Rightarrow> bytes \<Rightarrow> heap \<Rightarrow> (block_t \<times> heap) option" where
  "set_nonce_to_block E blk nonce h = do {
     n \<leftarrow> memcpy (blk_nonce blk) nonce NONCE_LEN;
     let (ts, h) = get_epoch_ns E h;
     Some (blk\<lparr>blk_nonce := n, blk_timestamp_end := ts\<rparr>, h)
   }"

definition set_prev_block_hash :: "(bytes \<Rightarrow> bytes) \<Rightarrow> block_t \<Rightarrow> block_t option \<Rightarrow> block_t option" where
  "set_prev_block_hash H blk_current blk_prev =
     (case blk_prev of
        None \<Rightarrow> do {
          p \<leftarrow> memset (blk_previous_block blk_current) 0 crypto_generichash_BYTES;
          Some (blk_current\<lparr>blk_previous_block := p\<rparr>)
        }
      | Some prev \<Rightarrow> do {
          prev_block_hash_of_hash \<leftarrow> calc_hashof_hash H (blk_merkle_root prev);
          p \<leftarrow> memcpy (blk_previous_block blk_current) prev_block_hash_of_hash crypto_generichash_BYTES;
          Some (blk_current\<lparr>blk_previous_block := p\<rparr>)
        })"

definition test_solution :: "(bytes \<Rightarrow> bytes) \<Rightarrow> bytes \<Rightarrow> bytes \<Rightarrow> bytes \<Rightarrow> int option" where
  "test_solution H merkle_root nonce answer = do {
     CONCAT_BYTES \<leftarrow> memcpy (calloc (NONCE_LEN + crypto_generichash_BYTES)) nonce NONCE_LEN;
     CONCAT_BYTES \<leftarrow> memcpy_at CONCAT_BYTES NONCE_LEN merkle_root crypto_generichash_BYTES;
     let out_hash = H (take (crypto_generichash_BYTES + NONCE_LEN) CONCAT_BYTES);
     r \<leftarrow> memcmp out_hash answer crypto_generichash_BYTES;
     Some (if r = 0 then 1 else 0)
   }"

text \<open>The \<open>do\<close> loop of both solvers: the nonce part of \<open>CONCAT_BYTES\<close> is drawn anew each time.
  The counter \<open>ii\<close> only drives the progress output.\<close>

partial_function (option) puzzle_loop ::
  "env \<Rightarrow> nat \<Rightarrow> bytes \<Rightarrow> nat \<Rightarrow> (bytes \<times> bytes \<times> nat) option" where
  "puzzle_loop E difficulty CONCAT_BYTES t = do {
     CONCAT_BYTES \<leftarrow> memcpy CONCAT_BYTES (env_randombytes E t NONCE_LEN) NONCE_LEN;
     let out_hash = env_generichash E (take (crypto_generichash_BYTES + NONCE_LEN) CONCAT_BYTES);
     r \<leftarrow> memcmp out_hash (calloc 5) difficulty;
     (if r \<noteq> 0 then puzzle_loop E difficulty CONCAT_BYTES (Suc t)
      else Some (CONCAT_BYTES, out_hash, Suc t))
   }"

definition solve_puzzle :: "env \<Rightarrow> bytes \<Rightarrow> u32 \<Rightarrow> heap \<Rightarrow> (bytes \<times> heap) option" where
  "solve_puzzle E merkle_root difficulty h = do {
     let difficulty = (if 5 < difficulty then 5 else difficulty);
     let difficulty = (if difficulty = 0 then 1 else difficulty);
     require (0 \<le> env_sodium_init E);
     let nonce_answ = calloc NONCE_LEN;
     CONCAT_BYTES \<leftarrow> memcpy_at (calloc (NONCE_LEN + crypto_generichash_BYTES)) NONCE_LEN merkle_root
                       crypto_generichash_BYTES;
     (CONCAT_BYTES, out_hash, t) \<leftarrow> puzzle_loop E (unat difficulty) CONCAT_BYTES (h_tick h);
     nonce_answ \<leftarrow> memcpy nonce_answ CONCAT_BYTES NONCE_LEN;
     _ \<leftarrow> test_solution (env_generichash E) merkle_root nonce_answ out_hash;
     Some (nonce_answ, h\<lparr>h_tick := t\<rparr>)
   }"

definition solve_puzzle_fixed_diff ::
  "env \<Rightarrow> puzzle_thr_container \<Rightarrow> heap \<Rightarrow> (puzzle_thr_container \<times> heap) option" where
  "solve_puzzle_fixed_diff E pc h = do {
     let difficulty = (3 :: u32);
     require (0 \<le> env_sodium_init E);
     CONCAT_BYTES \<leftarrow> memcpy_at (calloc (NONCE_LEN + crypto_generichash_BYTES)) NONCE_LEN (pc_merkle_root_p pc)
                       crypto_generichash_BYTES;
     (CONCAT_BYTES, out_hash, t) \<leftarrow> puzzle_loop E (unat difficulty) CONCAT_BYTES (h_tick h);
     nonce \<leftarrow> memcpy (pc_nonce pc) CONCAT_BYTES NONCE_LEN;
     _ \<leftarrow> test_solution (env_generichash E) (pc_merkle_root_p pc) nonce out_hash;
     Some (pc\<lparr>pc_nonce := nonce\<rparr>, h\<lparr>h_tick := t\<rparr>)
   }"

section \<open>The puzzle\<close>

text \<open>The specification: the nonce drawn at tick \<open>t\<close>, and what a nonce must satisfy.\<close>

definition nonce_at :: "env \<Rightarrow> nat \<Rightarrow> bytes" where
  "nonce_at E t = env_randombytes E t NONCE_LEN"

definition puzzle_solved :: "(bytes \<Rightarrow> bytes) \<Rightarrow> bytes \<Rightarrow> nat \<Rightarrow> bytes \<Rightarrow> bool" where
  "puzzle_solved H root d nonce \<longleftrightarrow> length nonce = NONCE_LEN \<and> take d (H (nonce @ root)) = replicate d 0"

definition first_hit :: "env \<Rightarrow> bytes \<Rightarrow> nat \<Rightarrow> nat \<Rightarrow> nat \<Rightarrow> bool" where
  "first_hit E root d t n \<longleftrightarrow> puzzle_solved (env_generichash E) root d (nonce_at E (t + n)) \<and>
     (\<forall>i < n. \<not> puzzle_solved (env_generichash E) root d (nonce_at E (t + i)))"

lemma test_solution_eq:
  assumes "length root = crypto_generichash_BYTES" "length nonce = NONCE_LEN" "generichash_ok H"
    and "length answer = crypto_generichash_BYTES"
  shows "test_solution H root nonce answer = Some (if H (nonce @ root) = answer then 1 else 0)"
  using assms by (simp add: test_solution_def memcpy_at_def calloc_def memcmp_full byte_cmp_zero_iff)

text \<open>One round, with the recursive call left open.\<close>

lemma puzzle_round:
  assumes "random_ok E" "generichash_ok (env_generichash E)" "length root = 32" "d \<le> 5" "length pre = 15"
  shows "do { c \<leftarrow> memcpy (pre @ root) (env_randombytes E t NONCE_LEN) NONCE_LEN;
              let out = env_generichash E (take (crypto_generichash_BYTES + NONCE_LEN) c);
              r \<leftarrow> memcmp out (calloc 5) d;
              (if r \<noteq> 0 then again c else Some (c, out, Suc t)) } =
    (if puzzle_solved (env_generichash E) root d (nonce_at E t)
     then Some (nonce_at E t @ root, env_generichash E (nonce_at E t @ root), Suc t)
     else again (nonce_at E t @ root))"
proof -
  let ?out = "env_generichash E (nonce_at E t @ root)"
  have len: "length (nonce_at E t) = 15" using assms(1) by (simp add: nonce_at_def random_ok_def)
  have "memcpy (pre @ root) (nonce_at E t) 15 = Some (nonce_at E t @ root)"
    using len assms(5) by (simp add: memcpy_at_def)
  moreover have "memcmp ?out (calloc 5) d = Some (byte_cmp (take d ?out) (replicate d 0))"
    using assms(2,4) by (simp add: memcmp_def calloc_def)
  moreover have "byte_cmp (take d ?out) (replicate d 0) = 0 \<longleftrightarrow>
      puzzle_solved (env_generichash E) root d (nonce_at E t)"
    using assms(2,4) len by (simp add: byte_cmp_zero_iff puzzle_solved_def)
  ultimately show ?thesis
    using len assms(3) by (simp add: nonce_at_def)
qed

lemma puzzle_loop_step:
  assumes "random_ok E" "generichash_ok (env_generichash E)" "length root = 32" "d \<le> 5" "length pre = 15"
  shows "puzzle_loop E d (pre @ root) t =
    (if puzzle_solved (env_generichash E) root d (nonce_at E t)
     then Some (nonce_at E t @ root, env_generichash E (nonce_at E t @ root), Suc t)
     else puzzle_loop E d (nonce_at E t @ root) (Suc t))"
  by (subst puzzle_loop.simps) (rule puzzle_round [OF assms])

lemma puzzle_loop_first:
  assumes "random_ok E" "generichash_ok (env_generichash E)" "length root = 32" "d \<le> 5"
    and "length pre = 15" "first_hit E root d t n"
  shows "puzzle_loop E d (pre @ root) t =
    Some (nonce_at E (t + n) @ root, env_generichash E (nonce_at E (t + n) @ root), Suc (t + n))"
  using assms(5,6)
proof (induction n arbitrary: t pre)
  case 0
  then show ?case using puzzle_loop_step [OF assms(1-4) "0"(1)] by (simp add: first_hit_def)
next
  case (Suc n)
  have "\<not> puzzle_solved (env_generichash E) root d (nonce_at E t)"
    using Suc.prems(2) unfolding first_hit_def by (metis add_0_right zero_less_Suc)
  moreover have "first_hit E root d (Suc t) n"
    using Suc.prems(2) by (force simp: first_hit_def)
  moreover have "length (nonce_at E t) = 15" using assms(1) by (simp add: nonce_at_def random_ok_def)
  ultimately show ?case
    using puzzle_loop_step [OF assms(1-4) Suc.prems(1)] Suc.IH by simp
qed

text \<open>The loop ends only with a hit.\<close>

lemma puzzle_loop_hits:
  "puzzle_loop E d c t = Some r \<Longrightarrow> random_ok E \<Longrightarrow> generichash_ok (env_generichash E) \<Longrightarrow>
   length root = 32 \<Longrightarrow> d \<le> 5 \<Longrightarrow> length pre = 15 \<Longrightarrow> c = pre @ root \<Longrightarrow>
   \<exists>n. puzzle_solved (env_generichash E) root d (nonce_at E (t + n))"
proof (induction E d c t r arbitrary: pre rule: puzzle_loop.raw_induct [rotated, consumes 1, case_names round])
  case (round again E d c t r)
  have len: "length (nonce_at E t) = 15" using round.prems by (simp add: nonce_at_def random_ok_def)
  show ?case
  proof (cases "puzzle_solved (env_generichash E) root d (nonce_at E t)")
    case True
    then show ?thesis by (metis add_0_right)
  next
    case False
    with round.hyps round.prems have "again E d (nonce_at E t @ root) (Suc t) = Some r"
      by (simp only: puzzle_round if_False)
    from round.IH [OF this round.prems(1-4) len refl] show ?thesis by (metis add_Suc_shift)
  qed
qed

lemma first_hit_exists:
  "puzzle_solved (env_generichash E) root d (nonce_at E (t + n)) \<Longrightarrow> \<exists>n. first_hit E root d t n"
  unfolding first_hit_def
  using exists_least_iff [of "\<lambda>n. puzzle_solved (env_generichash E) root d (nonce_at E (t + n))"] by blast

section \<open>Solvers\<close>

definition clamp_difficulty :: "u32 \<Rightarrow> nat" where
  "clamp_difficulty d = max 1 (min 5 (unat d))"

lemma clamp_difficulty_eq:
  "unat (let d = (if 5 < d then 5 else d) in if d = 0 then 1 else d :: u32) = clamp_difficulty d"
proof -
  consider "d = 0" | "0 < d" "d \<le> 5" | "5 < d" using word_gt_0 [of d] not_less [of 5 d] by blast
  then show ?thesis
  proof cases
    case 2
    then have "1 \<le> unat d" "unat d \<le> 5" by (simp_all add: word_less_nat_alt word_le_nat_alt)
    then show ?thesis using 2 by (auto simp: clamp_difficulty_def Let_def)
  next
    case 3
    then have "5 < unat d" by (simp add: word_less_nat_alt)
    then show ?thesis using 3 by (simp add: clamp_difficulty_def Let_def)
  qed (simp add: clamp_difficulty_def)
qed

definition env_ok :: "env \<Rightarrow> bool" where
  "env_ok E \<longleftrightarrow> random_ok E \<and> generichash_ok (env_generichash E) \<and> 0 \<le> env_sodium_init E"

text \<open>The common tail of both solvers, once the loop has ended.\<close>

lemma solver_tail:
  assumes "env_ok E" "length root = 32" "first_hit E root d t n"
  shows "length (nonce_at E (t + n)) = 15"
    "test_solution (env_generichash E) root (nonce_at E (t + n)) (env_generichash E (nonce_at E (t + n) @ root)) = Some 1"
  using assms by (simp_all add: env_ok_def first_hit_def puzzle_solved_def test_solution_eq)

lemma puzzle_loop_decides:
  assumes "env_ok E" "length root = 32" "d \<le> 5" "length pre = 15"
  shows "first_hit E root d t n \<Longrightarrow> puzzle_loop E d (pre @ root) t =
      Some (nonce_at E (t + n) @ root, env_generichash E (nonce_at E (t + n) @ root), Suc (t + n))"
    and "\<nexists>n. first_hit E root d t n \<Longrightarrow> puzzle_loop E d (pre @ root) t = None"
proof -
  note ok = assms(1) [unfolded env_ok_def]
  show "puzzle_loop E d (pre @ root) t =
      Some (nonce_at E (t + n) @ root, env_generichash E (nonce_at E (t + n) @ root), Suc (t + n))"
    if "first_hit E root d t n"
    using puzzle_loop_first [OF _ _ assms(2-4) that] ok by blast
  show "puzzle_loop E d (pre @ root) t = None" if no: "\<nexists>n. first_hit E root d t n"
  proof (rule ccontr)
    assume "\<not> ?thesis"
    then obtain r where "puzzle_loop E d (pre @ root) t = Some r" by blast
    then obtain n where "puzzle_solved (env_generichash E) root d (nonce_at E (t + n))"
      using puzzle_loop_hits [OF _ _ _ assms(2-4) refl] ok by blast
    with no first_hit_exists show False by blast
  qed
qed

lemma first_hit_unique: "first_hit E root d t n \<Longrightarrow> first_hit E root d t m \<Longrightarrow> n = m"
  by (metis first_hit_def linorder_neqE_nat)

lemma concat_buffer:
  "length root = 32 \<Longrightarrow> memcpy_at (calloc (NONCE_LEN + crypto_generichash_BYTES)) NONCE_LEN root
     crypto_generichash_BYTES = Some (calloc 15 @ root)"
  by (simp add: memcpy_at_def calloc_def)

lemma solve_puzzle_decides:
  assumes "env_ok E" "length root = 32"
  shows "first_hit E root (clamp_difficulty dd) (h_tick h) n \<Longrightarrow>
      solve_puzzle E root dd h = Some (nonce_at E (h_tick h + n), h\<lparr>h_tick := Suc (h_tick h + n)\<rparr>)"
    and "\<nexists>n. first_hit E root (clamp_difficulty dd) (h_tick h) n \<Longrightarrow> solve_puzzle E root dd h = None"
proof -
  have d: "clamp_difficulty dd \<le> 5" by (simp add: clamp_difficulty_def)
  note loop = puzzle_loop_decides [OF assms d length_calloc]
  show "solve_puzzle E root dd h = Some (nonce_at E (h_tick h + n), h\<lparr>h_tick := Suc (h_tick h + n)\<rparr>)"
    if hit: "first_hit E root (clamp_difficulty dd) (h_tick h) n"
    unfolding solve_puzzle_def concat_buffer [OF assms(2)] bind.bind_lunit
      clamp_difficulty_eq [unfolded Let_def] Let_def loop(1) [OF hit]
    using solver_tail [OF assms hit] assms(1) by (simp add: env_ok_def memcpy_at_def)
  show "solve_puzzle E root dd h = None" if no: "\<nexists>n. first_hit E root (clamp_difficulty dd) (h_tick h) n"
    unfolding solve_puzzle_def concat_buffer [OF assms(2)] bind.bind_lunit
      clamp_difficulty_eq [unfolded Let_def] Let_def loop(2) [OF no]
    by simp
qed

lemma solve_puzzle_fixed_diff_decides:
  assumes "env_ok E" "length (pc_merkle_root_p pc) = 32" "length (pc_nonce pc) = 15"
  shows "first_hit E (pc_merkle_root_p pc) 3 (h_tick h) n \<Longrightarrow>
      solve_puzzle_fixed_diff E pc h =
        Some (pc\<lparr>pc_nonce := nonce_at E (h_tick h + n)\<rparr>, h\<lparr>h_tick := Suc (h_tick h + n)\<rparr>)"
    and "\<nexists>n. first_hit E (pc_merkle_root_p pc) 3 (h_tick h) n \<Longrightarrow> solve_puzzle_fixed_diff E pc h = None"
proof -
  have u: "unat (3 :: u32) = 3" and d: "(3 :: nat) \<le> 5" by simp_all
  note loop = puzzle_loop_decides [OF assms(1,2) d length_calloc]
  show "solve_puzzle_fixed_diff E pc h =
      Some (pc\<lparr>pc_nonce := nonce_at E (h_tick h + n)\<rparr>, h\<lparr>h_tick := Suc (h_tick h + n)\<rparr>)"
    if hit: "first_hit E (pc_merkle_root_p pc) 3 (h_tick h) n"
    unfolding solve_puzzle_fixed_diff_def concat_buffer [OF assms(2)] bind.bind_lunit Let_def u loop(1) [OF hit]
    using solver_tail [OF assms(1,2) hit] assms(1,3) by (simp add: env_ok_def memcpy_at_def)
  show "solve_puzzle_fixed_diff E pc h = None"
    if no: "\<nexists>n. first_hit E (pc_merkle_root_p pc) 3 (h_tick h) n"
    unfolding solve_puzzle_fixed_diff_def concat_buffer [OF assms(2)] bind.bind_lunit Let_def u loop(2) [OF no]
    by simp
qed

text \<open>
  C19.  \<open>solve_puzzle\<close> returns exactly when some drawn nonce solves the puzzle at the difficulty
  clamped to 1 to 5, and then it returns the first such nonce, having drawn no further one.
\<close>

theorem solve_puzzle_first_nonce:
  assumes "env_ok E" "length root = crypto_generichash_BYTES"
  shows "solve_puzzle E root difficulty h = Some (nonce, h') \<longleftrightarrow>
    (\<exists>n. first_hit E root (clamp_difficulty difficulty) (h_tick h) n \<and>
         nonce = nonce_at E (h_tick h + n) \<and> h' = h\<lparr>h_tick := Suc (h_tick h + n)\<rparr>)"
proof -
  have "length root = 32" using assms(2) by simp
  note dec = solve_puzzle_decides [OF assms(1) this, of difficulty h]
  show ?thesis
  proof (cases "\<exists>n. first_hit E root (clamp_difficulty difficulty) (h_tick h) n")
    case True
    then obtain n where n: "first_hit E root (clamp_difficulty difficulty) (h_tick h) n" by blast
    show ?thesis unfolding dec(1) [OF n] using n first_hit_unique [OF n] by blast
  next
    case False
    then show ?thesis using dec(2) by simp
  qed
qed

theorem solve_puzzle_first_nonce_witness:
  "\<exists>h'. solve_puzzle demo_env (replicate 32 9) 0 (empty_heap\<lparr>h_tick := 254\<rparr>) = Some (replicate 15 0, h')"
proof -
  have "env_ok demo_env" using demo_env_ok by (simp add: env_ok_def demo_env_def)
  moreover have "first_hit demo_env (replicate 32 9) (clamp_difficulty 0) 254 2"
    by (auto simp: first_hit_def puzzle_solved_def nonce_at_def demo_env_def clamp_difficulty_def less_2_cases_iff)
  moreover have "nonce_at demo_env 256 = replicate 15 0" by (simp add: nonce_at_def demo_env_def)
  ultimately show ?thesis
    using solve_puzzle_first_nonce [of demo_env "replicate 32 9" 0 "empty_heap\<lparr>h_tick := 254\<rparr>"]
    by fastforce
qed

section \<open>Headers\<close>

lemma get_epoch_ns_heap [simp]: "snd (get_epoch_ns E h) = tick h"
  by (simp add: get_epoch_ns_def split: option.split)

lemma create_block_dummy_eq:
  assumes "generichash_ok (env_generichash E)" "length root = crypto_generichash_BYTES"
    and "env_time E (h_tick h) < 200000000000"
  shows "\<exists>b. create_block_dummy E prev root h = Some (b, tick (tick h)) \<and> block_wf b \<and>
    blk_merkle_root b = env_generichash E root \<and>
    blk_previous_block b = (case prev of None \<Rightarrow> replicate 32 0 | Some p \<Rightarrow> env_generichash E (block_bytes p)) \<and>
    blk_nonce b = replicate 15 0 \<and> blk_difficulty b = 0 \<and>
    blk_timestamp_begin b = fst (get_epoch_ns E (tick h)) \<and> blk_timestamp_end b = 0 \<and>
    take 24 (blk_date b) = string_bytes (date_text (gmtime (env_time E (h_tick h)))) @ [0]"
proof -
  have "calc_hashof_hash (env_generichash E) root = Some (env_generichash E root)"
    using calc_hashof_hash_eq [OF assms(2)] .
  then show ?thesis
    using assms date_text_length [OF assms(3)] get_timestamp_eq [OF assms(3), of "calloc 35"]
    by (auto simp: create_block_dummy_def block_zero_def block_wf_def memcpy_full memset_full split_beta
        string_bytes_def split: option.split)
qed

text \<open>
  A new header holds the hash of the Merkle root it was given, a terminated 23-character date,
  zeroes for nonce, difficulty and end time, and zeroes or the hash of the predecessor's 138 bytes as
  previous block.
\<close>

theorem create_block_dummy_fields:
  assumes "generichash_ok (env_generichash E)" "length root = crypto_generichash_BYTES"
    and "env_time E (h_tick h) < 200000000000"
  shows "\<exists>b. create_block_dummy E prev root h = Some (b, tick (tick h)) \<and> block_wf b \<and>
    blk_merkle_root b = env_generichash E root \<and>
    blk_previous_block b = (case prev of None \<Rightarrow> replicate 32 0 | Some p \<Rightarrow> env_generichash E (block_bytes p)) \<and>
    blk_nonce b = replicate 15 0 \<and> blk_difficulty b = 0 \<and>
    blk_timestamp_begin b = fst (get_epoch_ns E (tick h)) \<and> blk_timestamp_end b = 0 \<and>
    take 24 (blk_date b) = string_bytes (date_text (gmtime (env_time E (h_tick h)))) @ [0]"
  using create_block_dummy_eq [OF assms] .

theorem create_block_dummy_fields_witness:
  "\<exists>b. create_block_dummy demo_env None (replicate 32 9) empty_heap = Some (b, tick (tick empty_heap)) \<and>
    blk_merkle_root b = replicate 32 9"
  using create_block_dummy_fields [OF demo_env_ok(3), of "replicate 32 9" empty_heap None]
  by (auto simp: demo_env_def)

end
