(* ===== verification/Ipc.thy ===== *)
theory Ipc
  imports BlockData
begin

text \<open>
  The messages on the wire: \<open>serdes/transaction.pb-c.h\<close>, \<open>client/serdes_client/p2ptransaction.pb-c.h\<close>
  and the functions that fill and read them (\<open>serdes/serdes.c\<close>, \<open>networking/ipcmessages.c\<close>,
  \<open>client/ipc_messages_client.c\<close>).  The protobuf-c library itself is a parameter: packing and
  unpacking of both message types.  An optional field is an option; \<open>unpack\<close> of bytes that are no
  message is a null pointer, which every caller dereferences.
\<close>

section \<open>Messages between server and client\<close>

datatype IpcMessage__Status =
    IPC_MESSAGE__STATUS__TEST | IPC_MESSAGE__STATUS__OK | IPC_MESSAGE__STATUS__ERROR
  | IPC_MESSAGE__STATUS__FINISH | IPC_MESSAGE__STATUS__WAIT | IPC_MESSAGE__STATUS__ASK_NEED_MSG
  | IPC_MESSAGE__STATUS__NEED_MORE | IPC_MESSAGE__STATUS__ACKN_OK | IPC_MESSAGE__STATUS__MESSAGE_SENDED
  | IPC_MESSAGE__STATUS__ENOUGH | IPC_MESSAGE__STATUS__ALL_BLOCK_MSG_SENDED
  | IPC_MESSAGE__STATUS__ALL_BLOCK_RECEIVED

primrec ipc_code :: "IpcMessage__Status \<Rightarrow> u32" where
  "ipc_code IPC_MESSAGE__STATUS__TEST = 0"
| "ipc_code IPC_MESSAGE__STATUS__OK = 1"
| "ipc_code IPC_MESSAGE__STATUS__ERROR = 2"
| "ipc_code IPC_MESSAGE__STATUS__FINISH = 3"
| "ipc_code IPC_MESSAGE__STATUS__WAIT = 4"
| "ipc_code IPC_MESSAGE__STATUS__ASK_NEED_MSG = 5"
| "ipc_code IPC_MESSAGE__STATUS__NEED_MORE = 6"
| "ipc_code IPC_MESSAGE__STATUS__ACKN_OK = 7"
| "ipc_code IPC_MESSAGE__STATUS__MESSAGE_SENDED = 8"
| "ipc_code IPC_MESSAGE__STATUS__ENOUGH = 9"
| "ipc_code IPC_MESSAGE__STATUS__ALL_BLOCK_MSG_SENDED = 10"
| "ipc_code IPC_MESSAGE__STATUS__ALL_BLOCK_RECEIVED = 11"

record IpcMessage =
  im_transaction_msg :: "bytes option"
  im_pubkey :: "bytes option"
  im_timestamp :: bytes
  im_time_num :: u64
  im_status_code :: u32

definition ipc_message__init :: IpcMessage where
  "ipc_message__init = \<lparr>im_transaction_msg = None, im_pubkey = None, im_timestamp = [],
     im_time_num = 0, im_status_code = ipc_code IPC_MESSAGE__STATUS__TEST\<rparr>"

section \<open>Messages between peers\<close>

datatype P2pIpcMessage__Status =
    P2P__IPC_MESSAGE__STATUS__TEST | P2P__IPC_MESSAGE__STATUS__OK | P2P__IPC_MESSAGE__STATUS__ERROR
  | P2P__IPC_MESSAGE__STATUS__FINISH | P2P__IPC_MESSAGE__STATUS__WAIT | P2P__IPC_MESSAGE__STATUS__BLOCK
  | P2P__IPC_MESSAGE__STATUS__PING | P2P__IPC_MESSAGE__STATUS__PONG
  | P2P__IPC_MESSAGE__STATUS__ASK_IF_BLOCK_READY | P2P__IPC_MESSAGE__STATUS__BLOCK_READY
  | P2P__IPC_MESSAGE__STATUS__BLOCK_NOT_READY | P2P__IPC_MESSAGE__STATUS__ACKN

primrec p2p_code :: "P2pIpcMessage__Status \<Rightarrow> u32" where
  "p2p_code P2P__IPC_MESSAGE__STATUS__TEST = 0"
| "p2p_code P2P__IPC_MESSAGE__STATUS__OK = 1"
| "p2p_code P2P__IPC_MESSAGE__STATUS__ERROR = 2"
| "p2p_code P2P__IPC_MESSAGE__STATUS__FINISH = 3"
| "p2p_code P2P__IPC_MESSAGE__STATUS__WAIT = 4"
| "p2p_code P2P__IPC_MESSAGE__STATUS__BLOCK = 5"
| "p2p_code P2P__IPC_MESSAGE__STATUS__PING = 6"
| "p2p_code P2P__IPC_MESSAGE__STATUS__PONG = 7"
| "p2p_code P2P__IPC_MESSAGE__STATUS__ASK_IF_BLOCK_READY = 8"
| "p2p_code P2P__IPC_MESSAGE__STATUS__BLOCK_READY = 9"
| "p2p_code P2P__IPC_MESSAGE__STATUS__BLOCK_NOT_READY = 10"
| "p2p_code P2P__IPC_MESSAGE__STATUS__ACKN = 11"

record P2pIpcMessage =
  pm_date :: bytes
  pm_timestamp_begin :: "u64 option"
  pm_timestamp_end :: "u64 option"
  pm_difficulty :: "u64 option"
  pm_merkle_root :: "bytes option"
  pm_nonce :: "bytes option"
  pm_prev_block :: "bytes option"
  pm_status_code :: u32

definition p2p__ipc_message__init :: P2pIpcMessage where
  "p2p__ipc_message__init = \<lparr>pm_date = [], pm_timestamp_begin = None, pm_timestamp_end = None,
     pm_difficulty = None, pm_merkle_root = None, pm_nonce = None, pm_prev_block = None,
     pm_status_code = p2p_code P2P__IPC_MESSAGE__STATUS__TEST\<rparr>"

lemma ipc_code_inject [simp]: "ipc_code s = ipc_code t \<longleftrightarrow> s = t"
  by (cases s; cases t) simp_all

lemma p2p_code_inject [simp]: "p2p_code s = p2p_code t \<longleftrightarrow> s = t"
  by (cases s; cases t) simp_all

section \<open>The protobuf library\<close>

text \<open>The last two fields stand for what the language leaves undefined when memory of the library is read
  outside its life or its bounds: \<open>pb_freed_status m\<close> is what a read of the status field yields after
  \<open>m\<close> was freed, and \<open>pb_behind m\<close> gives the bytes behind the terminator of the date of \<open>m\<close>.  Either
  read may fault, which is \<open>None\<close>, or yield anything.  The laws below say nothing about them.\<close>

record protobuf =
  pb_ipc_pack :: "IpcMessage \<Rightarrow> bytes"
  pb_ipc_unpack :: "bytes \<Rightarrow> IpcMessage option"
  pb_p2p_pack :: "P2pIpcMessage \<Rightarrow> bytes"
  pb_p2p_unpack :: "bytes \<Rightarrow> P2pIpcMessage option"
  pb_freed_status :: "P2pIpcMessage \<Rightarrow> u32 option"
  pb_behind :: "P2pIpcMessage \<Rightarrow> (nat \<Rightarrow> byte) option"

text \<open>Messages the library packs without loss: strings are C strings, lengths fit 32 bits.  Both message
  types have required fields, so that no packed message is empty.\<close>

definition opt_len :: "bytes option \<Rightarrow> nat" where
  "opt_len x = (case x of None \<Rightarrow> 0 | Some b \<Rightarrow> length b)"

lemma opt_len_simps [simp]: "opt_len None = 0" "opt_len (Some b) = length b"
  by (simp_all add: opt_len_def)

definition ipc_size :: "IpcMessage \<Rightarrow> nat" where
  "ipc_size m = opt_len (im_transaction_msg m) + opt_len (im_pubkey m) + length (im_timestamp m)"

definition p2p_size :: "P2pIpcMessage \<Rightarrow> nat" where
  "p2p_size m = length (pm_date m) + opt_len (pm_merkle_root m) + opt_len (pm_nonce m) + opt_len (pm_prev_block m)"

definition protobuf_ok :: "protobuf \<Rightarrow> bool" where
  "protobuf_ok PB \<longleftrightarrow>
     (\<forall>m. 0 \<notin> set (im_timestamp m) \<and> ipc_size m < 2 ^ 31 \<longrightarrow>
        pb_ipc_unpack PB (pb_ipc_pack PB m) = Some m \<and> length (pb_ipc_pack PB m) \<le> 80 + ipc_size m) \<and>
     (\<forall>m. 0 \<notin> set (pm_date m) \<and> p2p_size m < 2 ^ 31 \<longrightarrow>
        pb_p2p_unpack PB (pb_p2p_pack PB m) = Some m \<and> length (pb_p2p_pack PB m) \<le> 80 + p2p_size m) \<and>
     (\<forall>m. pb_ipc_pack PB m \<noteq> []) \<and> (\<forall>m. pb_p2p_pack PB m \<noteq> [])"

definition cstr :: "bytes \<Rightarrow> bytes" where
  "cstr b = takeWhile (\<lambda>x. x \<noteq> 0) b"

lemma cstr_no_NUL [simp]: "0 \<notin> set (cstr b)"
  by (auto simp: cstr_def dest: set_takeWhileD)

lemma length_cstr_le: "length (cstr b) \<le> length b"
  by (simp add: cstr_def length_takeWhile_le)

text \<open>\<open>get_packed_size\<close> and \<open>pack\<close> into a buffer: the packed bytes at its start.\<close>

definition ipc_message__pack :: "protobuf \<Rightarrow> IpcMessage \<Rightarrow> bytes \<Rightarrow> (nat \<times> bytes) option" where
  "ipc_message__pack PB m out = do {
     let packed = pb_ipc_pack PB m;
     out \<leftarrow> memcpy out packed (length packed);
     Some (length packed, out)
   }"

definition p2p__ipc_message__pack :: "protobuf \<Rightarrow> P2pIpcMessage \<Rightarrow> bytes \<Rightarrow> (nat \<times> bytes) option" where
  "p2p__ipc_message__pack PB m out = do {
     let packed = pb_p2p_pack PB m;
     out \<leftarrow> memcpy out packed (length packed);
     Some (length packed, out)
   }"

definition ipc_message__unpack :: "protobuf \<Rightarrow> nat \<Rightarrow> bytes \<Rightarrow> IpcMessage option" where
  "ipc_message__unpack PB len data = do {
     require (len \<le> length data);
     pb_ipc_unpack PB (take len data)
   }"

definition p2p__ipc_message__unpack :: "protobuf \<Rightarrow> nat \<Rightarrow> bytes \<Rightarrow> P2pIpcMessage option" where
  "p2p__ipc_message__unpack PB len data = do {
     require (len \<le> length data);
     pb_p2p_unpack PB (take len data)
   }"

section \<open>Server side: \<open>ipcmessages.c\<close> and \<open>serdes.c\<close>\<close>

text \<open>The date array is not initialised: packing reads it as a string, whatever it holds.\<close>

definition send_ONLY_status_code ::
  "protobuf \<Rightarrow> env \<Rightarrow> bytes \<Rightarrow> IpcMessage__Status \<Rightarrow> heap \<Rightarrow> (nat \<times> bytes \<times> heap) option" where
  "send_ONLY_status_code PB E socket_buf STATUS h = do {
     let date = indeterminate E 32;
     let (ns, h) = get_epoch_ns E h;
     require (0 \<in> set date);
     let message = ipc_message__init\<lparr>im_pubkey := None, im_transaction_msg := None,
       im_timestamp := cstr date, im_time_num := ns, im_status_code := ipc_code STATUS\<rparr>;
     (len, socket_buf) \<leftarrow> ipc_message__pack PB message socket_buf;
     Some (len, socket_buf, h)
   }"

definition read_ONLY_STATUS_response :: "protobuf \<Rightarrow> bytes \<Rightarrow> nat \<Rightarrow> u32 option" where
  "read_ONLY_STATUS_response PB buf len = do {
     message \<leftarrow> ipc_message__unpack PB len buf;
     Some (im_status_code message)
   }"

definition serialize_data_v2 ::
  "protobuf \<Rightarrow> env \<Rightarrow> bytes \<Rightarrow> addr \<Rightarrow> heap \<Rightarrow> (nat \<times> bytes \<times> heap) option" where
  "serialize_data_v2 PB E socket_buf a_message h = do {
     a \<leftarrow> h_msgs h a_message;
     data \<leftarrow> sm_message a;
     require (unat (sm_length a) \<le> length data);
     let (ns, h) = get_epoch_ns E h;
     (date, _, h) \<leftarrow> get_timestamp E (indeterminate E 32) h;
     let message = ipc_message__init\<lparr>im_transaction_msg := Some (take (unat (sm_length a)) data),
       im_pubkey := Some (take crypto_sign_PUBLICKEYBYTES (sm_public_key a)),
       im_status_code := ipc_code IPC_MESSAGE__STATUS__MESSAGE_SENDED,
       im_time_num := ns, im_timestamp := cstr date\<rparr>;
     (len, socket_buf) \<leftarrow> ipc_message__pack PB message socket_buf;
     Some (len, socket_buf, h)
   }"

text \<open>\<open>serdes.c\<close> reads into a message whose buffer pointer was never set: copying a text through it is
  a fault.  \<open>received\<close> is what \<open>read(sock, buf, 4096)\<close> delivered.\<close>

definition deserialize_data :: "protobuf \<Rightarrow> env \<Rightarrow> bytes \<Rightarrow> signed_message_t option" where
  "deserialize_data PB E received = do {
     message \<leftarrow> ipc_message__unpack PB (length received) received;
     pk \<leftarrow> (case im_pubkey message of
        None \<Rightarrow> Some (indeterminate E crypto_sign_PUBLICKEYBYTES)
      | Some p \<Rightarrow> memcpy (indeterminate E crypto_sign_PUBLICKEYBYTES) p crypto_sign_PUBLICKEYBYTES);
     require (im_transaction_msg message = None);
     Some \<lparr>sm_message = None, sm_length = 0, sm_public_key = pk\<rparr>
   }"

section \<open>Client side: \<open>ipc_messages_client.c\<close>\<close>

definition client_send_ONLY_status_code ::
  "protobuf \<Rightarrow> env \<Rightarrow> bytes \<Rightarrow> IpcMessage__Status \<Rightarrow> heap \<Rightarrow> (nat \<times> bytes \<times> heap) option" where
  "client_send_ONLY_status_code PB E socket_buf STATUS h = do {
     (date, _, h) \<leftarrow> get_timestamp E (indeterminate E 32) h;
     let (ns, h) = get_epoch_ns E h;
     let message = ipc_message__init\<lparr>im_pubkey := None, im_transaction_msg := None,
       im_timestamp := cstr date, im_time_num := ns, im_status_code := ipc_code STATUS\<rparr>;
     (len, socket_buf) \<leftarrow> ipc_message__pack PB message socket_buf;
     Some (len, socket_buf, h)
   }"

definition read_response_ONLY_STATUS :: "protobuf \<Rightarrow> bytes \<Rightarrow> nat \<Rightarrow> u32 option" where
  "read_response_ONLY_STATUS PB buf len = do {
     message \<leftarrow> ipc_message__unpack PB len buf;
     Some (im_status_code message)
   }"

text \<open>The text is copied into the buffer the message already has, the key into its key field.\<close>

definition deserialize_data_from_server :: "protobuf \<Rightarrow> bytes \<Rightarrow> nat \<Rightarrow> addr \<Rightarrow> heap \<Rightarrow> heap option" where
  "deserialize_data_from_server PB buff len msg h = do {
     message \<leftarrow> ipc_message__unpack PB len buff;
     m \<leftarrow> h_msgs h msg;
     m \<leftarrow> (case im_pubkey message of
        None \<Rightarrow> Some m
      | Some pk \<Rightarrow> do {
          k \<leftarrow> memcpy (sm_public_key m) pk crypto_sign_PUBLICKEYBYTES;
          Some (m\<lparr>sm_public_key := k\<rparr>)
        });
     m \<leftarrow> (case im_transaction_msg message of
        None \<Rightarrow> Some m
      | Some t \<Rightarrow> do {
          b \<leftarrow> sm_message m;
          b \<leftarrow> memcpy b t (length t);
          Some (m\<lparr>sm_length := of_nat (length t), sm_message := Some b\<rparr>)
        });
     write_msg msg m h
   }"

definition get_a_message :: "protobuf \<Rightarrow> bytes \<Rightarrow> nat \<Rightarrow> addr \<Rightarrow> heap \<Rightarrow> (nat \<times> heap) option" where
  "get_a_message PB buf len a_msg h = do {
     h \<leftarrow> deserialize_data_from_server PB buf len a_msg h;
     Some (len, h)
   }"

definition P2P_serialize_block_to_sock :: "protobuf \<Rightarrow> block_t \<Rightarrow> bytes \<Rightarrow> (nat \<times> bytes) option" where
  "P2P_serialize_block_to_sock PB a_block buf_out = do {
     require (0 \<in> set (blk_date a_block));
     let ipc_msg_p2p = p2p__ipc_message__init\<lparr>pm_difficulty := Some (blk_difficulty a_block),
       pm_timestamp_begin := Some (blk_timestamp_begin a_block),
       pm_timestamp_end := Some (blk_timestamp_end a_block),
       pm_merkle_root := Some (take crypto_generichash_BYTES (blk_merkle_root a_block)),
       pm_nonce := Some (take 15 (blk_nonce a_block)),
       pm_prev_block := Some (take crypto_generichash_BYTES (blk_previous_block a_block)),
       pm_date := cstr (blk_date a_block),
       pm_status_code := p2p_code P2P__IPC_MESSAGE__STATUS__BLOCK\<rparr>;
     p2p__ipc_message__pack PB ipc_msg_p2p buf_out
   }"

definition P2P_send_status ::
  "protobuf \<Rightarrow> env \<Rightarrow> P2pIpcMessage__Status \<Rightarrow> bytes \<Rightarrow> heap \<Rightarrow> (nat \<times> bytes \<times> heap) option" where
  "P2P_send_status PB E STATUS buf_out h = do {
     (date, _, h) \<leftarrow> get_timestamp E (calloc 35) h;
     let ipc_msg_p2p = p2p__ipc_message__init\<lparr>pm_date := cstr date, pm_status_code := p2p_code STATUS\<rparr>;
     (len, buf_out) \<leftarrow> p2p__ipc_message__pack PB ipc_msg_p2p buf_out;
     Some (len, buf_out, h)
   }"

text \<open>The status is read after the message was freed: a fault, or any value.\<close>

definition P2P_deserialize_STATUS :: "protobuf \<Rightarrow> bytes \<Rightarrow> nat \<Rightarrow> u32 option" where
  "P2P_deserialize_STATUS PB buff len = do {
     message \<leftarrow> p2p__ipc_message__unpack PB len buff;
     pb_freed_status PB message
   }"

text \<open>The first \<open>n\<close> bytes at a string of the library: its characters, its terminator, and for a shorter
  string what is behind it, if reading that does not fault.\<close>

definition string_memory :: "protobuf \<Rightarrow> P2pIpcMessage \<Rightarrow> nat \<Rightarrow> bytes option" where
  "string_memory PB message n = (
     let s = pm_date message @ [0] in
     if n \<le> length s then Some s
     else do {
       behind \<leftarrow> pb_behind PB message;
       Some (s @ map behind [0 ..< n - length s])
     })"

text \<open>35 bytes are copied from the date string, which has 24.  The three binary fields are copied with
  the length they came with.  A null pointer is the result for any other status.\<close>

definition deserialize_block :: "protobuf \<Rightarrow> bytes \<Rightarrow> nat \<Rightarrow> block_t option option" where
  "deserialize_block PB buf_in len = do {
     let block = block_zero;
     message \<leftarrow> p2p__ipc_message__unpack PB len buf_in;
     (if pm_status_code message \<noteq> p2p_code P2P__IPC_MESSAGE__STATUS__BLOCK then Some None
      else do {
        date \<leftarrow> string_memory PB message 35;
        date \<leftarrow> memcpy (blk_date block) date 35;
        let field = (\<lambda>x. case x of None \<Rightarrow> [] | Some b \<Rightarrow> b);
        let root = field (pm_merkle_root message);
        root \<leftarrow> memcpy (blk_merkle_root block) root (length root);
        let nonce = field (pm_nonce message);
        nonce \<leftarrow> memcpy (blk_nonce block) nonce (length nonce);
        let prev = field (pm_prev_block message);
        prev \<leftarrow> memcpy (blk_previous_block block) prev (length prev);
        let num = (\<lambda>x. case x of None \<Rightarrow> 0 | Some n \<Rightarrow> n);
        Some (Some (block\<lparr>blk_date := date, blk_merkle_root := root, blk_nonce := nonce,
          blk_timestamp_begin := num (pm_timestamp_begin message),
          blk_timestamp_end := num (pm_timestamp_end message), blk_previous_block := prev,
          blk_difficulty := num (pm_difficulty message)\<rparr>))
      })
   }"

end
