(* ===== verification/PlainCodec.thy ===== *)
theory PlainCodec
  imports Ipc
begin

text \<open>
  A concrete codec with the behaviour \<open>protobuf_ok\<close> asks for: little-endian numbers and
  length-prefixed byte strings.  It shows that the assumption on the protobuf library can hold and
  instantiates it in the witnesses.
\<close>

fun put_nat :: "nat \<Rightarrow> nat \<Rightarrow> bytes" where
  "put_nat 0 n = []"
| "put_nat (Suc k) n = of_nat (n mod 256) # put_nat k (n div 256)"

fun get_nat :: "bytes \<Rightarrow> nat" where
  "get_nat [] = 0"
| "get_nat (b # bs) = unat b + 256 * get_nat bs"

definition put_bytes :: "bytes \<Rightarrow> bytes" where
  "put_bytes b = put_nat 4 (length b) @ b"

definition get_bytes :: "bytes \<Rightarrow> bytes \<times> bytes" where
  "get_bytes bs = (let n = get_nat (take 4 bs); r = drop 4 bs in (take n r, drop n r))"

definition put_opt :: "('a \<Rightarrow> bytes) \<Rightarrow> 'a option \<Rightarrow> bytes" where
  "put_opt put x = (case x of None \<Rightarrow> [0] | Some y \<Rightarrow> 1 # put y)"

definition get_opt :: "(bytes \<Rightarrow> 'a \<times> bytes) \<Rightarrow> bytes \<Rightarrow> 'a option \<times> bytes" where
  "get_opt get bs = (if hd bs = 0 then (None, tl bs) else (let (y, r) = get (tl bs) in (Some y, r)))"

definition put_u64 :: "u64 \<Rightarrow> bytes" where
  "put_u64 w = put_nat 8 (unat w)"

definition get_u64 :: "bytes \<Rightarrow> u64 \<times> bytes" where
  "get_u64 bs = (of_nat (get_nat (take 8 bs)), drop 8 bs)"

definition put_u32 :: "u32 \<Rightarrow> bytes" where
  "put_u32 w = put_nat 4 (unat w)"

definition get_u32 :: "bytes \<Rightarrow> u32 \<times> bytes" where
  "get_u32 bs = (of_nat (get_nat (take 4 bs)), drop 4 bs)"

definition plain_pb :: protobuf where
  "plain_pb = \<lparr>
     pb_ipc_pack = (\<lambda>m. put_opt put_bytes (im_transaction_msg m) @ put_opt put_bytes (im_pubkey m) @
        put_bytes (im_timestamp m) @ put_u64 (im_time_num m) @ put_u32 (im_status_code m)),
     pb_ipc_unpack = (\<lambda>bs. let (t, bs) = get_opt get_bytes bs; (k, bs) = get_opt get_bytes bs;
        (s, bs) = get_bytes bs; (n, bs) = get_u64 bs; (c, bs) = get_u32 bs in
        Some \<lparr>im_transaction_msg = t, im_pubkey = k, im_timestamp = s, im_time_num = n, im_status_code = c\<rparr>),
     pb_p2p_pack = (\<lambda>m. put_bytes (pm_date m) @ put_opt put_u64 (pm_timestamp_begin m) @
        put_opt put_u64 (pm_timestamp_end m) @ put_opt put_u64 (pm_difficulty m) @
        put_opt put_bytes (pm_merkle_root m) @ put_opt put_bytes (pm_nonce m) @
        put_opt put_bytes (pm_prev_block m) @ put_u32 (pm_status_code m)),
     pb_p2p_unpack = (\<lambda>bs. let (d, bs) = get_bytes bs; (tb, bs) = get_opt get_u64 bs;
        (te, bs) = get_opt get_u64 bs; (df, bs) = get_opt get_u64 bs; (r, bs) = get_opt get_bytes bs;
        (n, bs) = get_opt get_bytes bs; (p, bs) = get_opt get_bytes bs; (c, bs) = get_u32 bs in
        Some \<lparr>pm_date = d, pm_timestamp_begin = tb, pm_timestamp_end = te, pm_difficulty = df,
              pm_merkle_root = r, pm_nonce = n, pm_prev_block = p, pm_status_code = c\<rparr>),
     pb_freed_status = Some \<circ> pm_status_code,
     pb_behind = (\<lambda>_. Some (\<lambda>_. 0))\<rparr>"

lemma length_put_nat [simp]: "length (put_nat k n) = k"
  by (induction k n rule: put_nat.induct) simp_all

lemma get_put_nat: "n < 256 ^ k \<Longrightarrow> get_nat (put_nat k n) = n"
proof (induction k n rule: put_nat.induct)
  case (2 k n)
  then have "n div 256 < 256 ^ k" by (simp add: less_mult_imp_div_less mult.commute)
  moreover have "unat (of_nat (n mod 256) :: byte) = n mod 256"
    by (simp add: unat_of_nat)
  ultimately show ?case using 2 by simp
qed simp

lemma get_put_bytes: "length b < 2 ^ 32 \<Longrightarrow> get_bytes (put_bytes b @ r) = (b, r)"
  by (simp add: get_bytes_def put_bytes_def get_put_nat)

lemma get_put_u64: "get_u64 (put_u64 w @ r) = (w, r)"
proof -
  have "unat w < 256 ^ 8" using unsigned_less [of w] by simp
  then show ?thesis by (simp add: get_u64_def put_u64_def get_put_nat)
qed

lemma get_put_u32: "get_u32 (put_u32 w @ r) = (w, r)"
proof -
  have "unat w < 256 ^ 4" using unsigned_less [of w] by simp
  then show ?thesis by (simp add: get_u32_def put_u32_def get_put_nat)
qed

lemma get_put_opt:
  assumes "\<And>y. x = Some y \<Longrightarrow> get (put y @ r) = (y, r)"
  shows "get_opt get (put_opt put x @ r) = (x, r)"
  using assms by (cases x) (simp_all add: get_opt_def put_opt_def)

lemma get_put_opt_bytes: "opt_len x < 2 ^ 32 \<Longrightarrow> get_opt get_bytes (put_opt put_bytes x @ r) = (x, r)"
  by (rule get_put_opt) (auto intro: get_put_bytes)

lemmas plain_gets = get_put_opt_bytes get_put_bytes get_put_u64 get_put_u32
  get_put_opt [of _ get_u64 put_u64, OF get_put_u64] get_put_u32 [where r = "[]", simplified]

lemma plain_opt_lengths:
  "length (put_opt put_bytes x) \<le> 5 + opt_len x" "length (put_opt put_u64 y) \<le> 9"
  by (cases x; cases y; simp add: put_opt_def put_bytes_def put_u64_def)+

lemma plain_lengths [simp]:
  "length (put_bytes b) = 4 + length b" "length (put_u64 w) = 8" "length (put_u32 v) = 4"
  by (simp_all add: put_bytes_def put_u64_def put_u32_def)

lemma plain_pb_ok: "protobuf_ok plain_pb"
proof -
  have "pb_ipc_unpack plain_pb (pb_ipc_pack plain_pb m) = Some m" if "ipc_size m < 2 ^ 31" for m
    using that by (simp add: plain_pb_def ipc_size_def plain_gets)
  moreover have "length (pb_ipc_pack plain_pb m) \<le> 80 + ipc_size m" for m
    using plain_opt_lengths(1) [of "im_transaction_msg m"] plain_opt_lengths(1) [of "im_pubkey m"]
    by (simp add: plain_pb_def ipc_size_def)
  moreover have "pb_p2p_unpack plain_pb (pb_p2p_pack plain_pb m) = Some m" if "p2p_size m < 2 ^ 31" for m
    using that by (simp add: plain_pb_def p2p_size_def plain_gets)
  moreover have "length (pb_p2p_pack plain_pb m) \<le> 80 + p2p_size m" for m
    using plain_opt_lengths(1) [of "pm_merkle_root m"] plain_opt_lengths(1) [of "pm_nonce m"]
      plain_opt_lengths(1) [of "pm_prev_block m"] plain_opt_lengths(2) [of "pm_timestamp_begin m"]
      plain_opt_lengths(2) [of "pm_timestamp_end m"] plain_opt_lengths(2) [of "pm_difficulty m"]
    by (simp add: plain_pb_def p2p_size_def)
  moreover have "pb_ipc_pack plain_pb m \<noteq> []" "pb_p2p_pack plain_pb m' \<noteq> []" for m m'
    by (simp_all add: plain_pb_def put_u32_def put_nat.simps(2) [of 3, simplified])
  ultimately show ?thesis by (simp add: protobuf_ok_def)
qed

end
