(* ===== verification/Wire.thy ===== *)
theory Wire
  imports PlainCodec
begin

text \<open>
  Round trips over the wire: what one side writes into a socket buffer, the other side reads back.
  Each direction of the protocol is covered: messages from server to client, status codes both ways,
  blocks between peers.
\<close>

definition SOCK_BUF :: nat where
  "SOCK_BUF = 4096"

lemmas SOCK_BUF_simp [simp] = SOCK_BUF_def

section \<open>Packing into a buffer and unpacking\<close>

text \<open>A frame as the library packs it.\<close>

definition ipc_packed :: "protobuf \<Rightarrow> bytes \<Rightarrow> bool" where
  "ipc_packed PB f \<longleftrightarrow> (\<exists>m. f = pb_ipc_pack PB m \<and> 0 \<notin> set (im_timestamp m) \<and> ipc_size m < 2 ^ 31)"

lemma ipc_pack_unpack:
  assumes "protobuf_ok PB" "0 \<notin> set (im_timestamp m)" "80 + ipc_size m \<le> length buf" "length buf \<le> SOCK_BUF"
  shows "\<exists>n buf'. ipc_message__pack PB m buf = Some (n, buf') \<and> 0 < n \<and> n \<le> 80 + ipc_size m \<and>
    length buf' = length buf \<and> ipc_message__unpack PB n buf' = Some m \<and> ipc_packed PB (take n buf')"
proof -
  let ?p = "pb_ipc_pack PB m"
  have p: "pb_ipc_unpack PB ?p = Some m" "length ?p \<le> 80 + ipc_size m" "?p \<noteq> []"
    using assms by (auto simp: protobuf_ok_def)
  have "memcpy buf ?p (length ?p) = Some (?p @ drop (length ?p) buf)"
    using p(2) assms(3) by (simp add: memcpy_at_def)
  then have "ipc_message__pack PB m buf = Some (length ?p, ?p @ drop (length ?p) buf)"
    by (simp add: ipc_message__pack_def Let_def)
  moreover have "ipc_packed PB ?p" using assms by (auto simp: ipc_packed_def)
  ultimately show ?thesis using p assms(3) by (simp add: ipc_message__unpack_def)
qed

lemma p2p_pack_unpack:
  assumes "protobuf_ok PB" "0 \<notin> set (pm_date m)" "80 + p2p_size m \<le> length buf" "length buf \<le> SOCK_BUF"
  shows "\<exists>n buf'. p2p__ipc_message__pack PB m buf = Some (n, buf') \<and> 0 < n \<and> n \<le> 80 + p2p_size m \<and>
    length buf' = length buf \<and> p2p__ipc_message__unpack PB n buf' = Some m \<and> take n buf' = pb_p2p_pack PB m"
proof -
  let ?p = "pb_p2p_pack PB m"
  have p: "pb_p2p_unpack PB ?p = Some m" "length ?p \<le> 80 + p2p_size m" "?p \<noteq> []"
    using assms by (auto simp: protobuf_ok_def)
  have "memcpy buf ?p (length ?p) = Some (?p @ drop (length ?p) buf)"
    using p(2) assms(3) by (simp add: memcpy_at_def)
  then have "p2p__ipc_message__pack PB m buf = Some (length ?p, ?p @ drop (length ?p) buf)"
    by (simp add: p2p__ipc_message__pack_def Let_def)
  then show ?thesis using p assms(3) by (simp add: p2p__ipc_message__unpack_def)
qed

text \<open>What is known of the clock: its readings lie before the year 8307.\<close>

definition clock_ok :: "env \<Rightarrow> bool" where
  "clock_ok E \<longleftrightarrow> (\<forall>t. env_time E t < 200000000000)"

lemma timestamp_ok:
  assumes "clock_ok E" "24 \<le> length buf"
  shows "\<exists>date. get_timestamp E buf h = Some (date, 23, tick h) \<and> length date = length buf \<and> 0 \<in> set date"
proof -
  have t: "env_time E (h_tick h) < 200000000000" using assms(1) by (simp add: clock_ok_def)
  show ?thesis
    using get_timestamp_eq [OF t assms(2)] date_text_length [OF t] assms(2) by (simp add: string_bytes_def)
qed

section \<open>Status codes\<close>

lemma client_send_status:
  assumes "protobuf_ok PB" "clock_ok E" "length buf = SOCK_BUF"
  shows "\<exists>n buf' m. client_send_ONLY_status_code PB E buf STATUS h = Some (n, buf', tick (tick h)) \<and>
    0 < n \<and> n \<le> 112 \<and> length buf' = SOCK_BUF \<and> ipc_message__unpack PB n buf' = Some m \<and>
    im_status_code m = ipc_code STATUS \<and> im_transaction_msg m = None \<and> im_pubkey m = None \<and>
    ipc_packed PB (take n buf')"
proof -
  obtain date where d: "get_timestamp E (indeterminate E 32) h = Some (date, 23, tick h)" "length date = 32"
    using timestamp_ok [OF assms(2), of "indeterminate E 32" h] by auto
  obtain ns where g: "get_epoch_ns E (tick h) = (ns, tick (tick h))"
    by (metis get_epoch_ns_heap prod.collapse)
  let ?m = "ipc_message__init\<lparr>im_pubkey := None, im_transaction_msg := None,
       im_timestamp := cstr date, im_time_num := ns, im_status_code := ipc_code STATUS\<rparr>"
  have size: "ipc_size ?m \<le> 32" using length_cstr_le [of date] d(2) by (simp add: ipc_size_def ipc_message__init_def)
  obtain n buf' where "ipc_message__pack PB ?m buf = Some (n, buf')" "0 < n" "n \<le> 80 + ipc_size ?m"
      "length buf' = length buf" "ipc_message__unpack PB n buf' = Some ?m" "ipc_packed PB (take n buf')"
    using ipc_pack_unpack [OF assms(1), of ?m buf] size assms(3) by auto
  then show ?thesis
    using d g size assms(3) by (auto simp: client_send_ONLY_status_code_def ipc_message__init_def)
qed

lemma server_send_status:
  assumes "protobuf_ok PB" "0 \<in> set (indeterminate E 32)" "length buf = SOCK_BUF"
  shows "\<exists>n buf' m. send_ONLY_status_code PB E buf STATUS h = Some (n, buf', tick h) \<and>
    0 < n \<and> n \<le> 112 \<and> length buf' = SOCK_BUF \<and> ipc_message__unpack PB n buf' = Some m \<and>
    im_status_code m = ipc_code STATUS \<and> im_transaction_msg m = None \<and> im_pubkey m = None \<and>
    ipc_packed PB (take n buf')"
proof -
  let ?date = "indeterminate E 32"
  obtain ns where g: "get_epoch_ns E h = (ns, tick h)" by (metis get_epoch_ns_heap prod.collapse)
  let ?m = "ipc_message__init\<lparr>im_pubkey := None, im_transaction_msg := None,
       im_timestamp := cstr ?date, im_time_num := ns, im_status_code := ipc_code STATUS\<rparr>"
  have size: "ipc_size ?m \<le> 32" using length_cstr_le [of ?date] by (simp add: ipc_size_def ipc_message__init_def)
  obtain n buf' where "ipc_message__pack PB ?m buf = Some (n, buf')" "0 < n" "n \<le> 80 + ipc_size ?m"
      "length buf' = length buf" "ipc_message__unpack PB n buf' = Some ?m" "ipc_packed PB (take n buf')"
    using ipc_pack_unpack [OF assms(1), of ?m buf] size assms(3) by auto
  then show ?thesis
    using g size assms by (auto simp: send_ONLY_status_code_def ipc_message__init_def)
qed

text \<open>
  Status codes survive the wire: every status the client sends is what the server's
  \<open>read_ONLY_STATUS_response\<close> reads, and every status the server sends is what the client reads, provided
  the server's uninitialised date array happens to hold a terminator.
\<close>

theorem status_roundtrip:
  assumes "protobuf_ok PB" "clock_ok E" "length buf = SOCK_BUF"
  shows "(\<exists>n buf' h'. client_send_ONLY_status_code PB E buf STATUS h = Some (n, buf', h') \<and>
            read_ONLY_STATUS_response PB buf' n = Some (ipc_code STATUS)) \<and>
         (0 \<in> set (indeterminate E 32) \<longrightarrow>
          (\<exists>n buf' h'. send_ONLY_status_code PB E buf STATUS h = Some (n, buf', h') \<and>
            read_response_ONLY_STATUS PB buf' n = Some (ipc_code STATUS)))"
  using client_send_status [OF assms] server_send_status [OF assms(1) _ assms(3)]
  by (fastforce simp: read_ONLY_STATUS_response_def read_response_ONLY_STATUS_def)

lemma demo_clock_ok: "clock_ok demo_env"
  by (simp add: clock_ok_def demo_env_def)

theorem status_roundtrip_witness:
  "\<exists>n buf' h'. client_send_ONLY_status_code plain_pb demo_env (calloc 4096) IPC_MESSAGE__STATUS__NEED_MORE empty_heap =
      Some (n, buf', h') \<and> read_ONLY_STATUS_response plain_pb buf' n = Some 6"
  using status_roundtrip [OF plain_pb_ok demo_clock_ok, of "calloc 4096" IPC_MESSAGE__STATUS__NEED_MORE empty_heap]
  by simp

section \<open>Signed messages\<close>

lemma serialize_message:
  assumes "protobuf_ok PB" "clock_ok E" "h_msgs h a = Some m" "msg_ok m" "unat (sm_length m) \<le> 3000"
    and "length buf = SOCK_BUF"
  shows "\<exists>n buf' im. serialize_data_v2 PB E buf a h = Some (n, buf', tick (tick h)) \<and> 0 < n \<and> n \<le> SOCK_BUF \<and>
    length buf' = SOCK_BUF \<and> ipc_message__unpack PB n buf' = Some im \<and>
    im_status_code im = ipc_code IPC_MESSAGE__STATUS__MESSAGE_SENDED \<and>
    im_transaction_msg im = Some (msg_bytes m) \<and> im_pubkey im = Some (sm_public_key m) \<and> ipc_packed PB (take n buf')"
proof -
  obtain ns where g: "get_epoch_ns E h = (ns, tick h)" by (metis get_epoch_ns_heap prod.collapse)
  obtain date where d: "get_timestamp E (indeterminate E 32) (tick h) = Some (date, 23, tick (tick h))"
      "length date = 32"
    using timestamp_ok [OF assms(2), of "indeterminate E 32" "tick h"] by auto
  obtain data where data: "sm_message m = Some data" "unat (sm_length m) \<le> length data"
      "length (sm_public_key m) = 32"
    using assms(4) by (auto simp: msg_ok_def)
  let ?m = "ipc_message__init\<lparr>im_transaction_msg := Some (msg_bytes m), im_pubkey := Some (sm_public_key m),
       im_status_code := ipc_code IPC_MESSAGE__STATUS__MESSAGE_SENDED, im_time_num := ns,
       im_timestamp := cstr date\<rparr>"
  have size: "ipc_size ?m \<le> 3064"
    using length_cstr_le [of date] d(2) data assms(5)
    by (simp add: ipc_size_def ipc_message__init_def msg_bytes_def)
  obtain n buf' where "ipc_message__pack PB ?m buf = Some (n, buf')" "0 < n" "n \<le> 80 + ipc_size ?m"
      "length buf' = length buf" "ipc_message__unpack PB n buf' = Some ?m" "ipc_packed PB (take n buf')"
    using ipc_pack_unpack [OF assms(1), of ?m buf] size assms(6) by auto
  then show ?thesis
    using d g size data assms(3,6)
    by (auto simp: serialize_data_v2_def ipc_message__init_def msg_bytes_def)
qed

lemma deserialize_message:
  assumes "ipc_message__unpack PB n buf = Some im" "im_transaction_msg im = Some t" "im_pubkey im = Some pk"
    and "length pk = 32" "h_msgs h b = Some r" "sm_message r = Some rb" "length t \<le> length rb"
    and "length (sm_public_key r) = 32"
  shows "deserialize_data_from_server PB buf n b h = Some (h\<lparr>h_msgs := (h_msgs h)(b \<mapsto>
    r\<lparr>sm_public_key := pk, sm_length := of_nat (length t), sm_message := Some (t @ drop (length t) rb)\<rparr>)\<rparr>)"
  using assms by (simp add: deserialize_data_from_server_def memcpy_at_def write_msg_def)

text \<open>
  C25.  A message survives the wire: what \<open>serialize_data_v2\<close> writes for a message of up to 512 bytes,
  \<open>deserialize_data_from_server\<close> stores in the client's preallocated message, text and key, and the
  client sees status \<open>MESSAGE_SENDED\<close>.
\<close>

theorem message_wire_roundtrip:
  assumes "protobuf_ok PB" "clock_ok E" "h_msgs h a = Some m" "msg_ok m" "unat (sm_length m) \<le> 512"
    and "length buf = SOCK_BUF"
    and "h_msgs hc b = Some r" "sm_message r = Some rb" "length rb = 512" "length (sm_public_key r) = 32"
  shows "\<exists>n buf' h' hc' r'. serialize_data_v2 PB E buf a h = Some (n, buf', h') \<and>
    read_response_ONLY_STATUS PB buf' n = Some (ipc_code IPC_MESSAGE__STATUS__MESSAGE_SENDED) \<and>
    deserialize_data_from_server PB buf' n b hc = Some hc' \<and> h_msgs hc' = (h_msgs hc)(b \<mapsto> r') \<and>
    msg_ok r' \<and> msg_bytes r' = msg_bytes m \<and> sm_public_key r' = sm_public_key m"
proof -
  have "unat (sm_length m) \<le> 3000" using assms(5) by simp
  from serialize_message [OF assms(1-4) this assms(6)] obtain n buf' im where
    s: "serialize_data_v2 PB E buf a h = Some (n, buf', tick (tick h))" "ipc_message__unpack PB n buf' = Some im"
      "im_status_code im = ipc_code IPC_MESSAGE__STATUS__MESSAGE_SENDED"
      "im_transaction_msg im = Some (msg_bytes m)" "im_pubkey im = Some (sm_public_key m)" by blast
  have len: "length (msg_bytes m) = unat (sm_length m)" "length (sm_public_key m) = 32"
    using assms(4) by (auto simp: msg_ok_def msg_bytes_def)
  define t where "t = msg_bytes m"
  define r' where "r' = r\<lparr>sm_public_key := sm_public_key m, sm_length := of_nat (length t),
    sm_message := Some (t @ drop (length t) rb)\<rparr>"
  have "length t \<le> length rb" using len(1) assms(5,9) by (simp add: t_def)
  then have d: "deserialize_data_from_server PB buf' n b hc = Some (hc\<lparr>h_msgs := (h_msgs hc)(b \<mapsto> r')\<rparr>)"
    using deserialize_message [OF s(2,4,5) len(2) assms(7,8) _ assms(10)] by (simp add: r'_def t_def)
  have "unat (of_nat (length t) :: u64) = length t" using len(1) by (simp add: t_def)
  then have "msg_ok r'" "msg_bytes r' = t" "sm_public_key r' = sm_public_key m"
    using len(2) by (simp_all add: r'_def msg_ok_def msg_bytes_def)
  moreover have "read_response_ONLY_STATUS PB buf' n = Some (ipc_code IPC_MESSAGE__STATUS__MESSAGE_SENDED)"
    using s(2,3) by (simp add: read_response_ONLY_STATUS_def)
  moreover have "h_msgs (hc\<lparr>h_msgs := (h_msgs hc)(b \<mapsto> r')\<rparr>) = (h_msgs hc)(b \<mapsto> r')" by simp
  ultimately show ?thesis using s(1) d unfolding t_def by blast
qed

definition demo_msg :: signed_message_t where
  "demo_msg = \<lparr>sm_message = Some (replicate 164 3), sm_length = 164, sm_public_key = replicate 32 1\<rparr>"

definition demo_slot :: signed_message_t where
  "demo_slot = \<lparr>sm_message = Some (calloc 512), sm_length = 0, sm_public_key = calloc 32\<rparr>"

theorem message_wire_roundtrip_witness:
  "\<exists>n buf' h' hc' r'. serialize_data_v2 plain_pb demo_env (calloc 4096) 1 (snd (alloc_msg demo_msg empty_heap)) =
      Some (n, buf', h') \<and>
    deserialize_data_from_server plain_pb buf' n 1 (snd (alloc_msg demo_slot empty_heap)) = Some hc' \<and>
    h_msgs hc' 1 = Some r' \<and> msg_bytes r' = replicate 164 3"
proof -
  have a: "h_msgs (snd (alloc_msg demo_msg empty_heap)) 1 = Some demo_msg"
    and b: "h_msgs (snd (alloc_msg demo_slot empty_heap)) 1 = Some demo_slot"
    by (simp_all add: alloc_msg_def empty_heap_def)
  have "msg_ok demo_msg" "msg_bytes demo_msg = replicate 164 3" by (simp_all add: demo_msg_def msg_ok_def msg_bytes_def)
  with message_wire_roundtrip [OF plain_pb_ok demo_clock_ok a _ _ _ b, of "calloc 4096" "calloc 512"]
  show ?thesis by (auto simp: demo_msg_def demo_slot_def)
qed

text \<open>
  C35.  The client trusts the length in the message: a text longer than the 512 bytes of the preallocated
  buffer, or a key shorter than 32 bytes, makes \<open>deserialize_data_from_server\<close> copy out of bounds.
\<close>

theorem oversized_message_faults:
  assumes "ipc_message__unpack PB n buf = Some im" "h_msgs h b = Some r"
    and "(\<exists>t rb. im_transaction_msg im = Some t \<and> sm_message r = Some rb \<and> length rb < length t) \<or>
         (\<exists>pk. im_pubkey im = Some pk \<and> length pk < 32)"
  shows "deserialize_data_from_server PB buf n b h = None"
  using assms by (auto simp: deserialize_data_from_server_def memcpy_at_def split: option.split Option.bind_split)

theorem oversized_message_faults_witness:
  "\<exists>im. ipc_message__unpack plain_pb (length (pb_ipc_pack plain_pb im)) (pb_ipc_pack plain_pb im) = Some im \<and>
     deserialize_data_from_server plain_pb (pb_ipc_pack plain_pb im) (length (pb_ipc_pack plain_pb im)) 1
       (snd (alloc_msg demo_slot empty_heap)) = None"
proof -
  let ?im = "ipc_message__init\<lparr>im_transaction_msg := Some (replicate 513 0)\<rparr>"
  have u: "ipc_message__unpack plain_pb (length (pb_ipc_pack plain_pb ?im)) (pb_ipc_pack plain_pb ?im) = Some ?im"
    using plain_pb_ok by (auto simp: ipc_message__unpack_def protobuf_ok_def ipc_message__init_def ipc_size_def)
  have b: "h_msgs (snd (alloc_msg demo_slot empty_heap)) 1 = Some demo_slot"
    by (simp add: alloc_msg_def empty_heap_def)
  from oversized_message_faults [OF u b] u show ?thesis by (auto simp: demo_slot_def)
qed

section \<open>Blocks\<close>

lemma cstr_take: "0 \<notin> set s \<Longrightarrow> length s < n \<Longrightarrow> cstr (take n (s @ [0] @ r)) = s"
  by (auto simp: cstr_def takeWhile_append take_Cons')

text \<open>What is transferred of a block: every field, of the date the string.\<close>

definition same_block :: "block_t \<Rightarrow> block_t \<Rightarrow> bool" where
  "same_block b b' \<longleftrightarrow> blk_nonce b' = blk_nonce b \<and> blk_merkle_root b' = blk_merkle_root b \<and>
     blk_previous_block b' = blk_previous_block b \<and> blk_difficulty b' = blk_difficulty b \<and>
     blk_timestamp_begin b' = blk_timestamp_begin b \<and> blk_timestamp_end b' = blk_timestamp_end b \<and>
     cstr (blk_date b') = cstr (blk_date b)"

text \<open>The messages of the peers, and what it means that a frame is the packed message.\<close>

definition block_message :: "block_t \<Rightarrow> P2pIpcMessage" where
  "block_message b = p2p__ipc_message__init\<lparr>pm_difficulty := Some (blk_difficulty b),
     pm_timestamp_begin := Some (blk_timestamp_begin b), pm_timestamp_end := Some (blk_timestamp_end b),
     pm_merkle_root := Some (blk_merkle_root b), pm_nonce := Some (blk_nonce b),
     pm_prev_block := Some (blk_previous_block b), pm_date := cstr (blk_date b),
     pm_status_code := p2p_code P2P__IPC_MESSAGE__STATUS__BLOCK\<rparr>"

definition status_message :: "bytes \<Rightarrow> P2pIpcMessage__Status \<Rightarrow> P2pIpcMessage" where
  "status_message date STATUS = p2p__ipc_message__init\<lparr>pm_date := date, pm_status_code := p2p_code STATUS\<rparr>"

definition p2p_packed :: "protobuf \<Rightarrow> P2pIpcMessage \<Rightarrow> bytes \<Rightarrow> bool" where
  "p2p_packed PB m f \<longleftrightarrow> f = pb_p2p_pack PB m \<and> pb_p2p_unpack PB f = Some m \<and> 0 \<notin> set (pm_date m) \<and>
     p2p_size m < 2 ^ 31 \<and> f \<noteq> [] \<and> length f \<le> 80 + p2p_size m"

lemma p2p_packedI:
  "protobuf_ok PB \<Longrightarrow> 0 \<notin> set (pm_date m) \<Longrightarrow> p2p_size m < 2 ^ 31 \<Longrightarrow> p2p_packed PB m (pb_p2p_pack PB m)"
  by (simp add: p2p_packed_def protobuf_ok_def)

lemma length_cstr_less: "0 \<in> set d \<Longrightarrow> length (cstr d) < length d"
  by (metis cstr_def cstr_no_NUL le_neq_implies_less length_takeWhile_le takeWhile_eq_take take_all_iff)

lemma block_message_size: "block_wf b \<Longrightarrow> p2p_size (block_message b) \<le> 114"
  using length_cstr_le [of "blk_date b"]
  by (simp add: block_message_def p2p_size_def p2p__ipc_message__init_def block_wf_def)

text \<open>The block read from a block message, whatever its date: the copy of the date faults or brings foreign
  bytes when the string is too short, everything else is the block.\<close>

lemma deserialize_block_message:
  assumes "p2p__ipc_message__unpack PB n buf = Some ((block_message b)\<lparr>pm_date := d\<rparr>)" "block_wf b"
  shows "deserialize_block PB buf n = (case string_memory PB ((block_message b)\<lparr>pm_date := d\<rparr>) 35 of
      None \<Rightarrow> None | Some mem \<Rightarrow> Some (Some (b\<lparr>blk_date := take 35 mem\<rparr>)))"
proof -
  have "35 \<le> length mem" if "string_memory PB m 35 = Some mem" for m mem
    using that by (auto simp: string_memory_def Let_def bind_eq_Some_conv split: if_splits)
  then show ?thesis
    using assms by (auto simp: deserialize_block_def block_message_def p2p__ipc_message__init_def block_zero_def block_wf_def
        memcpy_at_def Let_def split: option.splits)
qed

lemma string_memory_take:
  "string_memory PB m 35 = Some mem \<Longrightarrow> 35 \<le> length mem \<and> (\<exists>r. mem = pm_date m @ [0] @ r)"
  by (auto simp: string_memory_def Let_def bind_eq_Some_conv split: if_splits)

lemma deserialize_block_Some:
  assumes "p2p__ipc_message__unpack PB n buf = Some ((block_message b)\<lparr>pm_date := d\<rparr>)" "block_wf b"
    and "deserialize_block PB buf n = Some r"
  shows "\<exists>b'. r = Some b' \<and> block_wf b' \<and> same_block (b\<lparr>blk_date := blk_date b'\<rparr>) b' \<and>
    (0 \<notin> set d \<and> length d < 35 \<longrightarrow> cstr (blk_date b') = d)"
proof -
  obtain mem where mem: "string_memory PB ((block_message b)\<lparr>pm_date := d\<rparr>) 35 = Some mem" "r = Some (b\<lparr>blk_date := take 35 mem\<rparr>)"
    using assms(3) deserialize_block_message [OF assms(1,2)] by (auto split: option.splits)
  then show ?thesis
    using string_memory_take [OF mem(1)] assms(2) cstr_take [of d 35] by (auto simp: block_wf_def same_block_def)
qed

lemma deserialize_block_readable:
  assumes "p2p__ipc_message__unpack PB n buf = Some ((block_message b)\<lparr>pm_date := d\<rparr>)" "block_wf b" "\<And>m. pb_behind PB m \<noteq> None"
  shows "\<exists>r. deserialize_block PB buf n = Some r"
proof -
  let ?m = "(block_message b)\<lparr>pm_date := d\<rparr>"
  obtain behind where "pb_behind PB ?m = Some behind" using assms(3) [of ?m] by blast
  then show ?thesis using deserialize_block_message [OF assms(1,2)] by (simp add: string_memory_def Let_def)
qed

lemma block_wire:
  assumes "protobuf_ok PB" "block_wf b" "0 \<in> set (blk_date b)" "length buf = SOCK_BUF"
  shows "\<exists>n buf'. P2P_serialize_block_to_sock PB b buf = Some (n, buf') \<and> 0 < n \<and> n \<le> 194 \<and>
    length buf' = SOCK_BUF \<and> p2p__ipc_message__unpack PB n buf' = Some (block_message b) \<and>
    p2p_packed PB (block_message b) (take n buf')"
proof -
  let ?m = "block_message b"
  have size: "p2p_size ?m \<le> 114" using block_message_size [OF assms(2)] .
  have date: "pm_date ?m = cstr (blk_date b)" by (simp add: block_message_def)
  obtain n buf' where p: "p2p__ipc_message__pack PB ?m buf = Some (n, buf')" "0 < n" "n \<le> 80 + p2p_size ?m"
      "p2p__ipc_message__unpack PB n buf' = Some ?m" "length buf' = length buf" "take n buf' = pb_p2p_pack PB ?m"
    using p2p_pack_unpack [OF assms(1), of ?m buf] size date assms(4) by auto
  have "P2P_serialize_block_to_sock PB b buf = Some (n, buf')"
    using p(1) assms(2,3) by (simp add: P2P_serialize_block_to_sock_def block_wf_def block_message_def)
  then show ?thesis using p size assms(4) p2p_packedI [OF assms(1), of ?m] date by auto
qed

text \<open>A frame that is the packed block.  What a receiver reads from it is the block, up to the bytes behind the
  terminator of the date; where the read behind the terminator does not fault, it reads one.\<close>

definition block_frame :: "protobuf \<Rightarrow> block_t \<Rightarrow> bytes \<Rightarrow> bool" where
  "block_frame PB b f \<longleftrightarrow> length f \<le> SOCK_BUF \<and> block_wf b \<and> 0 \<in> set (blk_date b) \<and> p2p_packed PB (block_message b) f"

lemma p2p_unpack_take:
  "n \<le> length buf \<Longrightarrow> p2p__ipc_message__unpack PB n (take n buf) = p2p__ipc_message__unpack PB n buf"
  by (simp add: p2p__ipc_message__unpack_def)

lemma deserialize_block_take:
  "n \<le> length buf \<Longrightarrow> deserialize_block PB (take n buf) n = deserialize_block PB buf n"
  by (simp add: deserialize_block_def p2p_unpack_take)

lemma block_frame_unpack:
  assumes "block_frame PB b f"
  shows "p2p__ipc_message__unpack PB (length f) (f @ rest) = Some ((block_message b)\<lparr>pm_date := cstr (blk_date b)\<rparr>)"
proof -
  have m: "(block_message b)\<lparr>pm_date := cstr (blk_date b)\<rparr> = block_message b" by (simp add: block_message_def)
  show ?thesis unfolding m using assms by (auto simp: block_frame_def p2p_packed_def p2p__ipc_message__unpack_def)
qed

lemma block_frame_read:
  assumes "block_frame PB b f" "deserialize_block PB (f @ rest) (length f) = Some r"
  shows "\<exists>b'. r = Some b' \<and> block_wf b' \<and> same_block b b'"
proof -
  have b: "block_wf b" "0 \<in> set (blk_date b)" using assms(1) by (simp_all add: block_frame_def)
  moreover from this have "length (cstr (blk_date b)) < 35" using length_cstr_less [of "blk_date b"] by (simp add: block_wf_def)
  ultimately show ?thesis
    using deserialize_block_Some [OF block_frame_unpack [OF assms(1)] b(1) assms(2)] by (auto simp: same_block_def)
qed

lemma block_frame_readable:
  assumes "block_frame PB b f" "\<And>m. pb_behind PB m \<noteq> None"
  shows "\<exists>b'. deserialize_block PB (f @ rest) (length f) = Some (Some b') \<and> block_wf b' \<and> same_block b b'"
  using deserialize_block_readable [OF block_frame_unpack [OF assms(1)] _ assms(2)] block_frame_read [OF assms(1)] assms(1)
  unfolding block_frame_def by metis

lemma block_serialized:
  assumes "protobuf_ok PB" "block_wf b" "0 \<in> set (blk_date b)" "length buf = SOCK_BUF"
  shows "\<exists>n buf'. P2P_serialize_block_to_sock PB b buf = Some (n, buf') \<and> n \<le> SOCK_BUF \<and> length buf' = SOCK_BUF \<and>
    block_frame PB b (take n buf')"
  using block_wire [OF assms] assms(2,3) by (fastforce simp: block_frame_def)

lemma cstr_34: "length d = 35 \<Longrightarrow> 0 \<in> set d \<Longrightarrow> length (cstr d) = 34 \<Longrightarrow> cstr d @ [0] = d"
proof -
  assume d: "length d = 35" "0 \<in> set d" "length (cstr d) = 34"
  have c: "cstr d = take 34 d" using d(3) takeWhile_eq_take [of "\<lambda>x. x \<noteq> 0" d] by (simp add: cstr_def)
  have s: "d = take 34 d @ [d ! 34]" using d(1) take_Suc_conv_app_nth [of 34 d] by simp
  have "0 \<notin> set (take 34 d)" using cstr_no_NUL [of d] c by simp
  then have "d ! 34 = 0" using d(2) s by (metis Un_iff list.set(1,2) set_append insert_iff empty_iff)
  then show ?thesis using s c by simp
qed

text \<open>
  C23.  What becomes of a block on the wire between peers, exactly: its serialisation fits the buffer, and reading
  it back gives the same block in every field, except that for a date of fewer than 34 characters, which is every
  date the program writes, the copy of 35 bytes reads behind the string.  Then, if that read faults, so
  does \<open>deserialize_block\<close>, and otherwise the date is the same string and foreign bytes follow its terminator.
\<close>

theorem block_wire_roundtrip:
  assumes "protobuf_ok PB" "block_wf b" "0 \<in> set (blk_date b)" "length buf = SOCK_BUF"
  shows "\<exists>n buf'. P2P_serialize_block_to_sock PB b buf = Some (n, buf') \<and> n \<le> SOCK_BUF \<and>
    deserialize_block PB buf' n =
      (if length (cstr (blk_date b)) = 34 then Some (Some b)
       else case pb_behind PB (block_message b) of
           None \<Rightarrow> None
         | Some behind \<Rightarrow> Some (Some (b\<lparr>blk_date :=
             cstr (blk_date b) @ [0] @ map behind [0 ..< 34 - length (cstr (blk_date b))]\<rparr>)))"
proof -
  obtain n buf' where w: "P2P_serialize_block_to_sock PB b buf = Some (n, buf')" "n \<le> SOCK_BUF"
      "p2p__ipc_message__unpack PB n buf' = Some (block_message b)"
    using block_wire [OF assms] by auto
  have m: "(block_message b)\<lparr>pm_date := cstr (blk_date b)\<rparr> = block_message b" by (simp add: block_message_def)
  have len: "length (blk_date b) = 35" "length (cstr (blk_date b)) \<le> 34"
    using length_cstr_less [OF assms(3)] assms(2) by (simp_all add: block_wf_def)
  have d: "pm_date (block_message b) = cstr (blk_date b)" by (simp add: block_message_def)
  have "deserialize_block PB buf' n = (case string_memory PB (block_message b) 35 of
      None \<Rightarrow> None | Some mem \<Rightarrow> Some (Some (b\<lparr>blk_date := take 35 mem\<rparr>)))"
    using deserialize_block_message [of PB n buf' "cstr (blk_date b)" b] w(3) assms(2) m by simp
  then show ?thesis
    using w(1,2) len cstr_34 [OF len(1) assms(3)]
    by (intro exI [of _ n] exI [of _ buf']) (auto simp: string_memory_def d Let_def split: option.splits)
qed

text \<open>A block with an empty date, and two libraries that differ in the memory behind the string.\<close>

theorem block_wire_roundtrip_witness:
  "\<exists>n buf'. P2P_serialize_block_to_sock plain_pb (block_zero\<lparr>blk_nonce := replicate 15 7\<rparr>) (calloc 4096) = Some (n, buf') \<and>
    deserialize_block plain_pb buf' n = Some (Some (block_zero\<lparr>blk_nonce := replicate 15 7\<rparr>)) \<and>
    deserialize_block (plain_pb\<lparr>pb_behind := \<lambda>_. None\<rparr>) buf' n = None"
proof -
  let ?b = "block_zero\<lparr>blk_nonce := replicate 15 7\<rparr>" and ?PB = "plain_pb\<lparr>pb_behind := \<lambda>_. None\<rparr>"
  have b: "block_wf ?b" "0 \<in> set (blk_date ?b)" "cstr (blk_date ?b) = []"
    by (simp_all add: block_wf_def block_zero_def calloc_def cstr_def)
  have ok: "protobuf_ok ?PB" using plain_pb_ok by (simp add: protobuf_ok_def)
  have same: "P2P_serialize_block_to_sock ?PB ?b (calloc 4096) = P2P_serialize_block_to_sock plain_pb ?b (calloc 4096)"
    by (simp add: P2P_serialize_block_to_sock_def p2p__ipc_message__pack_def)
  have z: "[0] @ map (\<lambda>_. 0) [0 ..< 34] = blk_date ?b"
    by (simp add: block_zero_def calloc_def map_replicate_const numeral_eq_Suc)
  show ?thesis
    using block_wire_roundtrip [OF plain_pb_ok b(1,2), of "calloc 4096"] block_wire_roundtrip [OF ok b(1,2), of "calloc 4096"] b(3) same z
    by (simp add: plain_pb_def) auto
qed

text \<open>The same library at another moment: the memory read out of life or bounds has other contents, or faults.\<close>

definition with_reads :: "protobuf \<Rightarrow> (P2pIpcMessage \<Rightarrow> u32 option) \<Rightarrow> (P2pIpcMessage \<Rightarrow> (nat \<Rightarrow> byte) option) \<Rightarrow> protobuf" where
  "with_reads PB freed behind = PB\<lparr>pb_freed_status := freed, pb_behind := behind\<rparr>"

lemma with_reads_simps [simp]:
  "pb_ipc_pack (with_reads PB freed behind) = pb_ipc_pack PB" "pb_ipc_unpack (with_reads PB freed behind) = pb_ipc_unpack PB"
  "pb_p2p_pack (with_reads PB freed behind) = pb_p2p_pack PB" "pb_p2p_unpack (with_reads PB freed behind) = pb_p2p_unpack PB"
  "pb_freed_status (with_reads PB freed behind) = freed" "pb_behind (with_reads PB freed behind) = behind"
  by (simp_all add: with_reads_def)

lemma with_reads_same [simp]: "with_reads PB (pb_freed_status PB) (pb_behind PB) = PB"
  by (simp add: with_reads_def)

lemma with_reads_laws [simp]:
  "protobuf_ok (with_reads PB freed behind) = protobuf_ok PB"
  "p2p__ipc_message__unpack (with_reads PB freed behind) = p2p__ipc_message__unpack PB"
  "p2p_packed (with_reads PB freed behind) = p2p_packed PB"
  "block_frame (with_reads PB freed behind) = block_frame PB"
  by (simp_all add: protobuf_ok_def p2p__ipc_message__unpack_def p2p_packed_def block_frame_def fun_eq_iff)

text \<open>An allocator that leaves freed messages as they were and maps the memory behind a string: then what
  \<open>P2P_deserialize_STATUS\<close> returns is the status sent.  Nothing promises this; lemmas that suppose it describe
  what the peers do when it happens to be so, and the theorems about all runs do not use it.\<close>

definition freed_readable :: "protobuf \<Rightarrow> bool" where
  "freed_readable PB \<longleftrightarrow> (\<forall>m. pb_freed_status PB m = Some (pm_status_code m) \<and> pb_behind PB m \<noteq> None)"

lemma p2p_send_status:
  assumes "protobuf_ok PB" "clock_ok E" "length buf = SOCK_BUF"
  shows "\<exists>n buf' d. P2P_send_status PB E STATUS buf h = Some (n, buf', tick h) \<and> 0 < n \<and> n \<le> 115 \<and> length buf' = SOCK_BUF \<and>
    p2p__ipc_message__unpack PB n buf' = Some (status_message d STATUS) \<and> length d < 35 \<and>
    p2p_packed PB (status_message d STATUS) (take n buf') \<and>
    (\<exists>date. get_timestamp E (calloc 35) h = Some (date, 23, tick h) \<and> d = cstr date)"
proof -
  obtain date where d: "get_timestamp E (calloc 35) h = Some (date, 23, tick h)" "length date = 35" "0 \<in> set date"
    using timestamp_ok [OF assms(2), of "calloc 35" h] by auto
  let ?m = "status_message (cstr date) STATUS"
  have len: "length (cstr date) < 35" using length_cstr_less [OF d(3)] d(2) by simp
  have m: "p2p_size ?m \<le> 35" "pm_date ?m = cstr date"
    using len by (simp_all add: status_message_def p2p_size_def p2p__ipc_message__init_def)
  obtain n buf' where p: "p2p__ipc_message__pack PB ?m buf = Some (n, buf')" "0 < n" "n \<le> 80 + p2p_size ?m"
      "length buf' = length buf" "p2p__ipc_message__unpack PB n buf' = Some ?m" "take n buf' = pb_p2p_pack PB ?m"
    using p2p_pack_unpack [OF assms(1), of ?m buf] m assms(3) by auto
  have "p2p_packed PB ?m (take n buf')" using p(6) p2p_packedI [OF assms(1), of ?m] m by simp
  then show ?thesis using d(1) p m assms(3) len
    by (intro exI [of _ n] exI [of _ buf'] exI [of _ "cstr date"]) (simp add: P2P_send_status_def status_message_def)
qed

lemma p2p_status_roundtrip:
  assumes "protobuf_ok PB" "clock_ok E" "length buf = SOCK_BUF" "freed_readable PB"
  shows "\<exists>n buf'. P2P_send_status PB E STATUS buf h = Some (n, buf', tick h) \<and>
    P2P_deserialize_STATUS PB buf' n = Some (p2p_code STATUS)"
  using p2p_send_status [OF assms(1-3)] assms(4)
  by (fastforce simp: P2P_deserialize_STATUS_def freed_readable_def status_message_def)

end
