(* ===== verification/Requests.thy ===== *)
theory Requests
  imports Prelude
begin

text \<open>
  The 64-bit tags of io_uring requests: \<open>make_request_data\<close>, \<open>request_data_client_fd\<close> and
  \<open>request_data_event_type\<close>, which \<open>networking/connection_handlers.c\<close>, \<open>client/dhandlers_p2p.c\<close> and
  \<open>client/p2p_listen.c\<close> define three times, with one enumeration each.  An \<open>int\<close> is a 32-bit word.  The
  locale \<open>flag_codec\<close> is what an event loop relies on to dispatch a completion.
\<close>

unbundle bit_operations_syntax

section \<open>Enumerations\<close>

datatype flag_state = FLAG_ACCEPT | TEST_RESPONSE | READ_RESPONSE | WAIT_ACKNOWLEDGEMENT
  | FLAG_SEND_TRANSACTIONS | FLAG_CLOSE_CONNECTION | FLAG_READ | FLAG_WRITE

datatype STATE_P2P = P2P_FLAG_ACCEPT | FLAG_WAIT_PONG | FLAG_TEST_RESPONSE | FLAG_BLOCK_SENDED
  | FLAG_BLOCK_NOT_READY | FLAG_READ_RESPONSE

datatype cl_p2p_state = CL_TEST | ACCEPTED_PING | SEND_PONG | PROCESS_RESPONSE | ASK_FOR_A_BLOCK
  | PROCESS_BLOCK_REQUEST | CL_READ_RESPONSE

primrec flag_num :: "flag_state \<Rightarrow> u32" where
  "flag_num FLAG_ACCEPT = 0"
| "flag_num TEST_RESPONSE = 1"
| "flag_num READ_RESPONSE = 2"
| "flag_num WAIT_ACKNOWLEDGEMENT = 3"
| "flag_num FLAG_SEND_TRANSACTIONS = 4"
| "flag_num FLAG_CLOSE_CONNECTION = 5"
| "flag_num FLAG_READ = 6"
| "flag_num FLAG_WRITE = 7"

primrec p2p_num :: "STATE_P2P \<Rightarrow> u32" where
  "p2p_num P2P_FLAG_ACCEPT = 0"
| "p2p_num FLAG_WAIT_PONG = 1"
| "p2p_num FLAG_TEST_RESPONSE = 2"
| "p2p_num FLAG_BLOCK_SENDED = 3"
| "p2p_num FLAG_BLOCK_NOT_READY = 4"
| "p2p_num FLAG_READ_RESPONSE = 5"

primrec cl_num :: "cl_p2p_state \<Rightarrow> u32" where
  "cl_num CL_TEST = 0"
| "cl_num ACCEPTED_PING = 1"
| "cl_num SEND_PONG = 2"
| "cl_num PROCESS_RESPONSE = 3"
| "cl_num ASK_FOR_A_BLOCK = 4"
| "cl_num PROCESS_BLOCK_REQUEST = 5"
| "cl_num CL_READ_RESPONSE = 6"

section \<open>Tags\<close>

text \<open>The descriptor is converted from \<open>int\<close> to \<open>uint64_t\<close>: its sign is extended.\<close>

definition make_request_data :: "u32 \<Rightarrow> u32 \<Rightarrow> u64" where
  "make_request_data client_fd flag = push_bit 32 (ucast flag) OR scast client_fd"

definition request_data_client_fd :: "u64 \<Rightarrow> u32" where
  "request_data_client_fd request_data = ucast (request_data AND 0xFFFFFFFF)"

definition request_data_event_type :: "u64 \<Rightarrow> u32" where
  "request_data_event_type request_data =
     ucast (drop_bit 32 (request_data AND (0xFFFFFFFFFFFFFFFF - 0xFFFFFFFF)))"

lemma mask_hi: "(0xFFFFFFFFFFFFFFFF - 0xFFFFFFFF :: u64) = NOT (mask 32)"
  by (simp add: mask_eq_exp_minus_1)

lemma mask_lo: "(0xFFFFFFFF :: u64) = mask 32"
  by (simp add: mask_eq_exp_minus_1)

lemma bit_u32: "bit (fd :: u32) n \<Longrightarrow> n < 32"
  using bit_imp_le_length [of fd n] by simp

lemma bit_scast_u32:
  "bit (scast (fd :: u32) :: u64) n \<longleftrightarrow> n < 64 \<and> bit fd (if n < 32 then n else 31)"
proof (cases "n < 31")
  case False
  then show ?thesis by (cases "n = 31") (simp_all add: bit_simps min_def)
qed (simp add: bit_simps)

lemma scast_nonneg: "\<not> bit (fd :: u32) 31 \<Longrightarrow> (scast fd :: u64) = ucast fd"
  by (rule bit_word_eqI) (auto simp: bit_scast_u32 bit_ucast_iff dest: bit_u32)

lemma request_fd_roundtrip: "request_data_client_fd (make_request_data fd flag) = fd"
  unfolding request_data_client_fd_def make_request_data_def mask_lo
  by (rule bit_word_eqI) (simp add: bit_scast_u32 bit_ucast_iff bit_or_iff bit_and_iff bit_mask_iff bit_push_bit_iff)

lemma request_type_roundtrip:
  assumes "\<not> bit fd 31"
  shows "request_data_event_type (make_request_data fd flag) = flag"
  unfolding request_data_event_type_def make_request_data_def mask_hi scast_nonneg [OF assms]
  by (rule bit_word_eqI) (use bit_u32 [of fd] in \<open>auto simp: bit_simps\<close>)

lemma request_type_negative:
  "bit fd 31 \<Longrightarrow> request_data_event_type (make_request_data fd flag) = - 1"
  unfolding request_data_event_type_def make_request_data_def mask_hi
  by (rule bit_word_eqI)
    (simp add: bit_scast_u32 bit_ucast_iff bit_or_iff bit_and_iff bit_not_iff bit_mask_iff bit_drop_bit_eq)

lemma ucast_request: "(ucast (make_request_data fd flag) :: u32) = fd"
  unfolding make_request_data_def
  by (rule bit_word_eqI) (simp add: bit_scast_u32 bit_ucast_iff bit_or_iff bit_push_bit_iff)

lemma fd_nonneg:
  assumes "unat (fd :: u32) < 2 ^ 31"
  shows "\<not> bit fd 31"
proof -
  have "unat fd div 2 ^ 31 = 0" using assms by (rule div_less)
  moreover have "bit fd 31 \<longleftrightarrow> bit (unat fd) 31" by (simp add: bit_unsigned_iff)
  ultimately show ?thesis by (simp only: bit_iff_odd) simp
qed


section \<open>Dispatch\<close>

locale flag_codec =
  fixes num :: "'f \<Rightarrow> u32"
  assumes num_inject: "num f = num g \<longleftrightarrow> f = g"
    and num_defined: "num f \<noteq> - 1"
begin

lemma dispatch:
  assumes "\<not> bit fd 31"
  shows "request_data_event_type (make_request_data fd (num f)) = num g \<longleftrightarrow> f = g"
  using request_type_roundtrip [OF assms] by (simp add: num_inject)

lemma dispatch_negative:
  assumes "bit fd 31"
  shows "request_data_event_type (make_request_data fd (num f)) \<noteq> num g"
  using request_type_negative [OF assms] num_defined [of g] by simp

end

interpretation server_flags: flag_codec flag_num
proof
  show "flag_num f = flag_num g \<longleftrightarrow> f = g" for f g by (cases f; cases g) simp_all
  show "flag_num f \<noteq> - 1" for f by (cases f) simp_all
qed

interpretation p2p_flags: flag_codec p2p_num
proof
  show "p2p_num f = p2p_num g \<longleftrightarrow> f = g" for f g by (cases f; cases g) simp_all
  show "p2p_num f \<noteq> - 1" for f by (cases f) simp_all
qed

interpretation cl_flags: flag_codec cl_num
proof
  show "cl_num f = cl_num g \<longleftrightarrow> f = g" for f g by (cases f; cases g) simp_all
  show "cl_num f \<noteq> - 1" for f by (cases f) simp_all
qed

section \<open>The copies of the peer threads\<close>

text \<open>\<open>client/dhandlers_p2p.c\<close> has its own functions for its enumeration.\<close>

definition p2p_request_data_client_fd :: "u64 \<Rightarrow> u32" where
  "p2p_request_data_client_fd request_data = ucast (request_data AND 0xFFFFFFFF)"

definition p2p_request_data_event_type :: "u64 \<Rightarrow> u32" where
  "p2p_request_data_event_type request_data =
     ucast (drop_bit 32 (request_data AND (0xFFFFFFFFFFFFFFFF - 0xFFFFFFFF)))"

definition p2p_make_request_data :: "u32 \<Rightarrow> STATE_P2P \<Rightarrow> u64" where
  "p2p_make_request_data client_fd flag = push_bit 32 (ucast (p2p_num flag)) OR scast client_fd"

text \<open>\<open>client/p2p_listen.c\<close> too; the descriptor it reads with the function above.\<close>

definition cl_make_request_data :: "u32 \<Rightarrow> cl_p2p_state \<Rightarrow> u64" where
  "cl_make_request_data client_fd flag = push_bit 32 (ucast (cl_num flag)) OR scast client_fd"

definition cl_request_data_event_type :: "u64 \<Rightarrow> u32" where
  "cl_request_data_event_type request_data =
     ucast (drop_bit 32 (request_data AND (0xFFFFFFFFFFFFFFFF - 0xFFFFFFFF)))"

text \<open>The event loops of the peers are stated with the functions of the server.\<close>

lemma tag_copies:
  "p2p_request_data_client_fd = request_data_client_fd" "p2p_request_data_event_type = request_data_event_type"
  "cl_request_data_event_type = request_data_event_type"
  "p2p_make_request_data fd f = make_request_data fd (p2p_num f)" "cl_make_request_data fd g = make_request_data fd (cl_num g)"
  by (simp_all add: fun_eq_iff p2p_request_data_client_fd_def p2p_request_data_event_type_def cl_request_data_event_type_def
      p2p_make_request_data_def cl_make_request_data_def request_data_client_fd_def request_data_event_type_def make_request_data_def)

text \<open>
  C30.  Request tags, in the server and in both peer threads: the descriptor always survives
  \<open>make_request_data\<close>; the event type survives exactly for descriptors that are not negative, and for a
  negative one (a failed accept) it becomes all ones, which no event loop dispatches.
\<close>

theorem request_data_roundtrip:
  "request_data_client_fd (make_request_data fd (flag_num f)) = fd \<and>
   request_data_event_type (make_request_data fd (flag_num f)) = (if 0 \<le> sint fd then flag_num f else - 1) \<and>
   p2p_request_data_client_fd (p2p_make_request_data fd g) = fd \<and>
   p2p_request_data_event_type (p2p_make_request_data fd g) = (if 0 \<le> sint fd then p2p_num g else - 1) \<and>
   p2p_request_data_client_fd (cl_make_request_data fd k) = fd \<and>
   cl_request_data_event_type (cl_make_request_data fd k) = (if 0 \<le> sint fd then cl_num k else - 1)"
proof -
  have "0 \<le> sint fd \<longleftrightarrow> \<not> bit fd 31" using bit_last_iff [of fd] by (simp add: not_less)
  then show ?thesis
    using request_fd_roundtrip request_type_roundtrip request_type_negative by (simp add: tag_copies)
qed

end
