(* ===== verification/MerkleSpec.thy ===== *)
theory MerkleSpec
  imports Hashing
begin

text \<open>
  The specification the Merkle modules are measured against: the root over \<open>2 ^ n\<close> leaf hashes,
  by halves.  \<open>level_up\<close> is one layer of the bottom-up construction; building layer by layer gives
  the same root.  The root binds its leaves: two leaf lists with one root are equal, or two
  different inputs hashed on the way have the same hash.
\<close>

fun mroot :: "(bytes \<Rightarrow> bytes) \<Rightarrow> nat \<Rightarrow> bytes list \<Rightarrow> bytes" where
  "mroot H 0 hs = hs ! 0"
| "mroot H (Suc n) hs = H (mroot H n (take (2 ^ n) hs) @ mroot H n (drop (2 ^ n) hs))"

definition level_up :: "(bytes \<Rightarrow> bytes) \<Rightarrow> bytes list \<Rightarrow> bytes list" where
  "level_up H hs = map (\<lambda>(a, b). H (a @ b)) (pairs hs)"

lemma length_level_up [simp]: "length (level_up H hs) = length hs div 2"
  by (simp add: level_up_def)

lemma nth_level_up:
  "2 * k + 1 < length hs \<Longrightarrow> level_up H hs ! k = H (hs ! (2 * k) @ hs ! (2 * k + 1))"
  by (simp add: level_up_def nth_pairs)

lemma level_up_take_drop:
  assumes "even k" "k \<le> length hs"
  shows "level_up H (take k hs) = take (k div 2) (level_up H hs)"
    and "level_up H (drop k hs) = drop (k div 2) (level_up H hs)"
proof -
  have "level_up H (take k hs @ drop k hs) = level_up H (take k hs) @ level_up H (drop k hs)"
    using assms by (simp add: level_up_def pairs_append del: append_take_drop_id)
  then have "level_up H hs = level_up H (take k hs) @ level_up H (drop k hs)" by simp
  moreover have "length (level_up H (take k hs)) = k div 2" using assms by simp
  ultimately show "level_up H (take k hs) = take (k div 2) (level_up H hs)"
    and "level_up H (drop k hs) = drop (k div 2) (level_up H hs)"
    by simp_all
qed

lemma mroot_level_up:
  "length hs = 2 ^ Suc n \<Longrightarrow> mroot H (Suc n) hs = mroot H n (level_up H hs)"
proof (induction n arbitrary: hs)
  case 0
  then show ?case by (simp add: nth_level_up)
next
  case (Suc n)
  have "2 ^ Suc n div 2 = (2 ^ n :: nat)" by simp
  then show ?case
    using Suc.IH [of "take (2 ^ Suc n) hs"] Suc.IH [of "drop (2 ^ Suc n) hs"] Suc.prems
      level_up_take_drop [of "2 ^ Suc n" hs]
    by (simp del: mroot.simps(2) add: mroot.simps(2) [of H "Suc n"])
      (simp add: mroot.simps(2) [of H n "level_up H hs"])
qed

lemma mroot_length:
  "generichash_ok H \<Longrightarrow> 0 < n \<Longrightarrow> length (mroot H n hs) = 32"
  by (cases n) auto

section \<open>The root binds the leaves\<close>

text \<open>The inputs hashed while the root is computed.\<close>

fun merge_inputs :: "(bytes \<Rightarrow> bytes) \<Rightarrow> nat \<Rightarrow> bytes list \<Rightarrow> bytes list" where
  "merge_inputs H 0 hs = []"
| "merge_inputs H (Suc n) hs =
     (mroot H n (take (2 ^ n) hs) @ mroot H n (drop (2 ^ n) hs)) #
     merge_inputs H n (take (2 ^ n) hs) @ merge_inputs H n (drop (2 ^ n) hs)"

definition collision_between :: "(bytes \<Rightarrow> bytes) \<Rightarrow> bytes list \<Rightarrow> bytes list \<Rightarrow> bool" where
  "collision_between H as bs \<longleftrightarrow> (\<exists>a \<in> set as. \<exists>b \<in> set bs. a \<noteq> b \<and> H a = H b)"

lemma collision_between_mono:
  "collision_between H as bs \<Longrightarrow> set as \<subseteq> set as' \<Longrightarrow> set bs \<subseteq> set bs' \<Longrightarrow> collision_between H as' bs'"
  by (auto simp: collision_between_def)

lemma mroot_length_all:
  assumes "generichash_ok H" "length hs = 2 ^ n" "\<forall>x \<in> set hs. length x = 32"
  shows "length (mroot H n hs) = 32"
  using assms by (cases n) (auto simp: length_Suc_conv)

lemma mroot_binding:
  assumes "generichash_ok H" "length xs = 2 ^ n" "length ys = 2 ^ n"
    and "\<forall>x \<in> set xs. length x = 32" "\<forall>y \<in> set ys. length y = 32"
    and "mroot H n xs = mroot H n ys"
  shows "xs = ys \<or> collision_between H (merge_inputs H n xs) (merge_inputs H n ys)"
  using assms(2-)
proof (induction n arbitrary: xs ys)
  case 0
  then show ?case by (auto simp: length_Suc_conv)
next
  case (Suc n)
  let ?xl = "take (2 ^ n) xs" and ?xr = "drop (2 ^ n) xs"
  let ?yl = "take (2 ^ n) ys" and ?yr = "drop (2 ^ n) ys"
  have lens: "length ?xl = 2 ^ n" "length ?xr = 2 ^ n" "length ?yl = 2 ^ n" "length ?yr = 2 ^ n"
    using Suc.prems by simp_all
  have el: "\<forall>x \<in> set ?xl. length x = 32" "\<forall>x \<in> set ?xr. length x = 32"
      "\<forall>x \<in> set ?yl. length x = 32" "\<forall>x \<in> set ?yr. length x = 32"
    using Suc.prems by (auto dest: in_set_takeD in_set_dropD)
  have eq: "H (mroot H n ?xl @ mroot H n ?xr) = H (mroot H n ?yl @ mroot H n ?yr)"
    using Suc.prems by simp
  show ?case
  proof (cases "mroot H n ?xl @ mroot H n ?xr = mroot H n ?yl @ mroot H n ?yr")
    case False
    with eq show ?thesis by (auto simp: collision_between_def)
  next
    case True
    then have "mroot H n ?xl = mroot H n ?yl" "mroot H n ?xr = mroot H n ?yr"
      using mroot_length_all [OF assms(1) lens(1) el(1)] mroot_length_all [OF assms(1) lens(3) el(3)]
      by auto
    then have "?xl = ?yl \<or> collision_between H (merge_inputs H n ?xl) (merge_inputs H n ?yl)"
      and "?xr = ?yr \<or> collision_between H (merge_inputs H n ?xr) (merge_inputs H n ?yr)"
      using Suc.IH lens el by blast+
    moreover have "?xl = ?yl \<Longrightarrow> ?xr = ?yr \<Longrightarrow> xs = ys"
      by (metis append_take_drop_id)
    moreover have "collision_between H (merge_inputs H n ?xl) (merge_inputs H n ?yl) \<Longrightarrow>
        collision_between H (merge_inputs H (Suc n) xs) (merge_inputs H (Suc n) ys)"
      and "collision_between H (merge_inputs H n ?xr) (merge_inputs H n ?yr) \<Longrightarrow>
        collision_between H (merge_inputs H (Suc n) xs) (merge_inputs H (Suc n) ys)"
      by (rule collision_between_mono, assumption, auto)+
    ultimately show ?thesis by blast
  qed
qed

end
