(* ===== verification/MerkleProcess.thy ===== *)
theory MerkleProcess
  imports Layering MerkleSpec
begin

text \<open>
  \<open>sources/block_data/merkle_process.c\<close>: \<open>merkle_verify_message\<close> over the layers of a tree, and
  what a tree is: \<open>tree_shape\<close> is the pointer structure alone, \<open>tree_built\<close> the tree the
  constructors make.  The theory shows that filling the layers gives \<open>tree_built\<close>, that its root is
  the root of the specification, and what the verification decides for an arbitrary tree of the
  right shape.
\<close>

section \<open>Verification of one message\<close>

definition layer_point :: "layers \<Rightarrow> nat \<Rightarrow> u64 \<Rightarrow> heap \<Rightarrow> hash_point option" where
  "layer_point Ls i n h = do {
     require (i < length Ls);
     L \<leftarrow> Ls ! i;
     require (unat n < length (ly_main_pointer L));
     h_points h (ly_main_pointer L ! unat n)
   }"

text \<open>The node a child pointer leads to, and the two messages of a first-level node; reading the
  inactive member of the union is a fault.\<close>

definition child1 :: "hash_point \<Rightarrow> heap \<Rightarrow> hash_point option" where
  "child1 p h = (case hp_union p of Children c _ \<Rightarrow> h_points h c | Smgs2 _ _ _ _ \<Rightarrow> None)"

definition child2 :: "hash_point \<Rightarrow> heap \<Rightarrow> hash_point option" where
  "child2 p h = (case hp_union p of Children _ c \<Rightarrow> h_points h c | Smgs2 _ _ _ _ \<Rightarrow> None)"

definition leaf_msg1 :: "hash_point \<Rightarrow> heap \<Rightarrow> signed_message_t option" where
  "leaf_msg1 p h = (case hp_union p of Smgs2 m _ _ _ \<Rightarrow> h_msgs h m | Children _ _ \<Rightarrow> None)"

definition leaf_msg2 :: "hash_point \<Rightarrow> heap \<Rightarrow> signed_message_t option" where
  "leaf_msg2 p h = (case hp_union p of Smgs2 _ _ m _ \<Rightarrow> h_msgs h m | Children _ _ \<Rightarrow> None)"

text \<open>The loop over the layers, \<open>i\<close> counting down to 0.  \<^term>\<open>Inl r\<close> is the function returning
  \<open>r\<close> from inside the loop, \<^term>\<open>Inr s\<close> the loop ending with \<open>Sret = s\<close>.\<close>

fun verify_loop ::
  "(bytes \<Rightarrow> bytes) \<Rightarrow> layers \<Rightarrow> heap \<Rightarrow> nat \<Rightarrow> u64 \<Rightarrow> int \<Rightarrow> (int + int) option" where
  "verify_loop H Ls h 0 nodeN Sret = (let nodeN = drop_bit 1 nodeN in do {
     root \<leftarrow> layer_point Ls 0 0 h;
     c1 \<leftarrow> child1 root h;
     c2 \<leftarrow> child2 root h;
     Shash \<leftarrow> merge_2hashses H (hp_hash c1) (hp_hash c2);
     cur \<leftarrow> layer_point Ls 0 nodeN h;
     rez \<leftarrow> memcmp Shash (hp_hash cur) crypto_generichash_BYTES;
     Some (if rez = 0 then Inr (Sret + rez) else Inl 0)
   })"
| "verify_loop H Ls h (Suc i) nodeN Sret = (
     let nodeN = drop_bit 1 nodeN;
         neighbor = (if nodeN mod 2 \<noteq> 0 then nodeN - 1 else nodeN + 1) in do {
     nb \<leftarrow> layer_point Ls (Suc i) neighbor h;
     cur \<leftarrow> layer_point Ls (Suc i) nodeN h;
     Shash \<leftarrow> (if nodeN mod 2 \<noteq> 0 then merge_2hashses H (hp_hash nb) (hp_hash cur)
               else merge_2hashses H (hp_hash cur) (hp_hash nb));
     up \<leftarrow> layer_point Ls i (drop_bit 1 nodeN) h;
     rez \<leftarrow> memcmp Shash (hp_hash up) crypto_generichash_BYTES;
     (if rez \<noteq> 0 then Some (Inl 1) else verify_loop H Ls h i nodeN (Sret + rez))
   })"

definition merkle_verify_message ::
  "(bytes \<Rightarrow> bytes) \<Rightarrow> u64 \<Rightarrow> u64 \<Rightarrow> layers \<Rightarrow> heap \<Rightarrow> int option" where
  "merkle_verify_message H EXPONENT msg_num Ls h = (
     let nodeN = drop_bit 1 msg_num;
         flip = (nodeN mod 2 = 0) in do {
     leaf \<leftarrow> layer_point Ls (unat (EXPONENT - 1)) nodeN h;
     m1 \<leftarrow> leaf_msg1 leaf h;
     hash_msg1 \<leftarrow> calc_hash H m1;
     m2 \<leftarrow> leaf_msg2 leaf h;
     hash_msg2 \<leftarrow> calc_hash H m2;
     Shash \<leftarrow> merge_2hashses H hash_msg1 hash_msg2;
     up \<leftarrow> layer_point Ls (unat (EXPONENT - 2)) (drop_bit 1 nodeN) h;
     stored \<leftarrow> (if flip then child1 up h else child2 up h);
     ret_gr_lev \<leftarrow> memcmp Shash (hp_hash stored) crypto_generichash_BYTES;
     (if ret_gr_lev \<noteq> 0 then Some 0
      else do {
        let start = sint (ucast (EXPONENT - 2) :: u32);
        r \<leftarrow> (if 0 \<le> start then verify_loop H Ls h (nat start) nodeN 0 else Some (Inr 0));
        Some (case r of Inl ret \<Rightarrow> ret
              | Inr Sret \<Rightarrow> if Sret + ret_gr_lev = 0 then 1 else 0)
      })
   })"

section \<open>Trees\<close>

definition node_at :: "layers \<Rightarrow> nat \<Rightarrow> nat \<Rightarrow> addr" where
  "node_at Ls j k = ly_main_pointer (the (Ls ! j)) ! k"

definition hash_at :: "heap \<Rightarrow> layers \<Rightarrow> nat \<Rightarrow> nat \<Rightarrow> bytes" where
  "hash_at h Ls j k = point_hash h (node_at Ls j k)"

text \<open>The pointer structure over \<open>2 ^ E\<close> messages, whatever the stored hashes are.\<close>

definition tree_shape :: "heap \<Rightarrow> addr list \<Rightarrow> layers \<Rightarrow> nat \<Rightarrow> bool" where
  "tree_shape h msgs Ls E \<longleftrightarrow>
     0 < E \<and> length Ls = E \<and> length msgs = 2 ^ E \<and>
     (\<forall>j < E. \<exists>L. Ls ! j = Some L \<and> length (ly_main_pointer L) = 2 ^ j) \<and>
     (\<forall>k < 2 ^ (E - 1). \<exists>p g1 g2. h_points h (node_at Ls (E - 1) k) = Some p \<and>
        length (hp_hash p) = 32 \<and> hp_union p = Smgs2 (msgs ! (2 * k)) g1 (msgs ! (2 * k + 1)) g2) \<and>
     (\<forall>j k. Suc j < E \<and> k < 2 ^ j \<longrightarrow> (\<exists>p. h_points h (node_at Ls j k) = Some p \<and>
        length (hp_hash p) = 32 \<and>
        hp_union p = Children (node_at Ls (Suc j) (2 * k)) (node_at Ls (Suc j) (2 * k + 1))))"

definition msgs_live :: "heap \<Rightarrow> addr list \<Rightarrow> bool" where
  "msgs_live h msgs \<longleftrightarrow> (\<forall>a \<in> set msgs. \<exists>m. h_msgs h a = Some m \<and> msg_ok m)"

text \<open>What \<open>merkle_verify_message\<close> recomputes for message \<open>m\<close>, against the stored hash of its
  first-level node.\<close>

definition leaf_ok :: "(bytes \<Rightarrow> bytes) \<Rightarrow> heap \<Rightarrow> addr list \<Rightarrow> layers \<Rightarrow> nat \<Rightarrow> nat \<Rightarrow> bool" where
  "leaf_ok H h msgs Ls E m \<longleftrightarrow>
     H (msg_hash H h (msgs ! (2 * (m div 2))) @ msg_hash H h (msgs ! (2 * (m div 2) + 1))) =
     hash_at h Ls (E - 1) (m div 2)"

definition root_ok :: "(bytes \<Rightarrow> bytes) \<Rightarrow> heap \<Rightarrow> layers \<Rightarrow> bool" where
  "root_ok H h Ls \<longleftrightarrow> H (hash_at h Ls 1 0 @ hash_at h Ls 1 1) = hash_at h Ls 0 0"

lemma tree_shape_layer:
  assumes "tree_shape h msgs Ls E" "j < E" "k < 2 ^ j"
  shows "\<exists>p. h_points h (node_at Ls j k) = Some p \<and> length (hp_hash p) = 32"
proof (cases "Suc j < E")
  case True
  with assms show ?thesis unfolding tree_shape_def by blast
next
  case False
  with assms have "j = E - 1" by simp
  with assms show ?thesis unfolding tree_shape_def by blast
qed

lemma layer_point_shape:
  assumes "tree_shape h msgs Ls E" "j < E" "unat n < 2 ^ j"
  shows "layer_point Ls j n h = h_points h (node_at Ls j (unat n))"
  using assms by (auto simp: layer_point_def tree_shape_def node_at_def)

lemma layer_point_hash:
  assumes "tree_shape h msgs Ls E" "j < E" "unat n < 2 ^ j"
  shows "\<exists>p. layer_point Ls j n h = Some p \<and> length (hp_hash p) = 32 \<and> hp_hash p = hash_at h Ls j (unat n)"
  using tree_shape_layer [OF assms] layer_point_shape [OF assms]
  by (auto simp: hash_at_def point_hash_def)

lemma layer_point_children:
  assumes "tree_shape h msgs Ls E" "Suc j < E" "unat n < 2 ^ j"
  shows "\<exists>p c1 c2. layer_point Ls j n h = Some p \<and> child1 p h = Some c1 \<and> child2 p h = Some c2 \<and>
    length (hp_hash c1) = 32 \<and> length (hp_hash c2) = 32 \<and>
    hp_hash c1 = hash_at h Ls (Suc j) (2 * unat n) \<and> hp_hash c2 = hash_at h Ls (Suc j) (2 * unat n + 1)"
proof -
  obtain p where "h_points h (node_at Ls j (unat n)) = Some p"
    "hp_union p = Children (node_at Ls (Suc j) (2 * unat n)) (node_at Ls (Suc j) (2 * unat n + 1))"
    using assms unfolding tree_shape_def by blast
  moreover obtain c1 where "h_points h (node_at Ls (Suc j) (2 * unat n)) = Some c1" "length (hp_hash c1) = 32"
    using tree_shape_layer [OF assms(1,2), of "2 * unat n"] assms(3) by auto
  moreover obtain c2 where "h_points h (node_at Ls (Suc j) (2 * unat n + 1)) = Some c2" "length (hp_hash c2) = 32"
    using tree_shape_layer [OF assms(1,2), of "2 * unat n + 1"] assms(3) by auto
  ultimately show ?thesis
    using layer_point_shape [OF assms(1) _ assms(3)] assms(2)
    by (auto simp: child1_def child2_def hash_at_def point_hash_def)
qed

section \<open>What the verification decides\<close>

lemma odd_word: "(q :: u64) mod 2 \<noteq> 0 \<longleftrightarrow> odd (unat q)"
  by (simp add: word_unat_eq_iff unat_mod odd_iff_mod_2_eq_one)

lemma unat_pred_odd: "odd (unat (q :: u64)) \<Longrightarrow> unat (q - 1) = unat q - 1"
  by (rule unat_minus_one) auto

text \<open>One step of the loop above layer 0: it compares the parent of the current node, in layer
  \<open>i\<close>, with the hash of that parent's two children.\<close>

lemma verify_loop_step:
  assumes sh: "tree_shape h msgs Ls E" and H: "generichash_ok H"
    and i: "Suc i < E" "E \<le> 63" and n: "unat n < 2 ^ Suc (Suc i)"
  defines "r \<equiv> unat n div 4"
  shows "verify_loop H Ls h (Suc i) n 0 =
    (if H (hash_at h Ls (Suc i) (2 * r) @ hash_at h Ls (Suc i) (2 * r + 1)) \<noteq> hash_at h Ls i r
     then Some (Inl 1) else verify_loop H Ls h i (drop_bit 1 n) 0)"
proof -
  define q where "q = drop_bit 1 n"
  have uq: "unat q = unat n div 2" unfolding q_def by (rule unat_shift_right1)
  have q: "unat q < 2 ^ Suc i" using n uq by simp
  have q63: "unat q < 2 ^ 63"
    using q i by (rule_tac less_pow2_mono [of _ "Suc i"]) auto
  have ur: "unat (drop_bit 1 q) = r" unfolding r_def unat_shift_right1 uq by simp
  have r: "r < 2 ^ i" using q uq by (simp add: r_def)
  define nb where "nb = (if q mod 2 \<noteq> 0 then q - 1 else q + 1)"
  have unb: "unat nb = (if odd (unat q) then unat q - 1 else unat q + 1)"
    unfolding nb_def odd_word using unat_pred_odd unat_succ_small [OF q63] by simp
  have "unat nb < 2 ^ Suc i"
    unfolding unb using q by (auto elim!: oddE evenE)
  obtain pn where pn: "layer_point Ls (Suc i) nb h = Some pn" "length (hp_hash pn) = 32"
      "hp_hash pn = hash_at h Ls (Suc i) (unat nb)"
    using layer_point_hash [OF sh i(1) \<open>unat nb < 2 ^ Suc i\<close>] by blast
  obtain pc where pc: "layer_point Ls (Suc i) q h = Some pc" "length (hp_hash pc) = 32"
      "hp_hash pc = hash_at h Ls (Suc i) (unat q)"
    using layer_point_hash [OF sh i(1) q] by blast
  obtain pu where pu: "layer_point Ls i (drop_bit 1 q) h = Some pu" "length (hp_hash pu) = 32"
      "hp_hash pu = hash_at h Ls i r"
    using layer_point_hash [OF sh, of i "drop_bit 1 q"] i r unfolding ur by auto
  have merge: "(if q mod 2 \<noteq> 0 then merge_2hashses H (hp_hash pn) (hp_hash pc)
        else merge_2hashses H (hp_hash pc) (hp_hash pn)) =
      Some (H (hash_at h Ls (Suc i) (2 * r) @ hash_at h Ls (Suc i) (2 * r + 1)))"
  proof (cases "odd (unat q)")
    case True
    then have "unat q = 2 * r + 1" "unat nb = 2 * r"
      unfolding unb r_def using uq by (auto elim!: oddE)
    with True show ?thesis
      unfolding odd_word using pn pc by (simp add: merge_2hashses_eq)
  next
    case False
    then have "unat q = 2 * r" "unat nb = 2 * r + 1"
      unfolding unb r_def using uq by (auto elim!: evenE)
    with False show ?thesis
      unfolding odd_word using pn pc by (simp add: merge_2hashses_eq)
  qed
  show ?thesis
    unfolding verify_loop.simps Let_def q_def [symmetric] nb_def [symmetric] pn(1) pc(1) pu(1)
      bind.bind_lunit merge pu(3)
    using pu(2,3) H by (simp add: memcmp_full byte_cmp_zero_iff)
qed

text \<open>At layer 0 the loop compares the root with its children.\<close>

lemma verify_loop_root:
  assumes sh: "tree_shape h msgs Ls E" and H: "generichash_ok H" and E: "2 \<le> E" and n: "unat n < 2"
  shows "verify_loop H Ls h 0 n 0 = Some (if root_ok H h Ls then Inr 0 else Inl 0)"
proof -
  obtain p c1 c2 where p: "layer_point Ls 0 0 h = Some p" "child1 p h = Some c1" "child2 p h = Some c2"
    and c: "length (hp_hash c1) = 32" "length (hp_hash c2) = 32"
      "hp_hash c1 = hash_at h Ls 1 0" "hp_hash c2 = hash_at h Ls 1 1"
    using layer_point_children [OF sh, of 0 0] E by auto
  have n0: "drop_bit 1 n = 0"
    using n by (simp only: word_unat_eq_iff unat_shift_right1) simp
  have "length (hp_hash p) = 32" "hp_hash p = hash_at h Ls 0 0"
    using layer_point_hash [OF sh, of 0 0] E p(1) by auto
  then show ?thesis
    unfolding verify_loop.simps Let_def n0 p bind.bind_lunit
    using c H by (simp add: merge_2hashses_eq memcmp_full byte_cmp_zero_iff root_ok_def)
qed

text \<open>From any layer above the root the loop ends in success: a mismatch returns 1, and the last
  comparison repeats one that has just succeeded.\<close>

lemma verify_loop_upper:
  assumes sh: "tree_shape h msgs Ls E" and H: "generichash_ok H"
    and i: "Suc i < E" "E \<le> 63" and n: "unat n < 2 ^ Suc (Suc i)"
  shows "verify_loop H Ls h (Suc i) n 0 \<in> {Some (Inl 1), Some (Inr 0)}"
  using i n
proof (induction i arbitrary: n)
  case 0
  have "unat (drop_bit 1 n) < 2" using 0 by (simp only: unat_shift_right1) simp
  moreover have "unat n div 4 = 0" using 0 by simp
  ultimately show ?case
    using verify_loop_step [OF sh H 0] verify_loop_root [OF sh H, of "drop_bit 1 n"] 0
    by (simp add: root_ok_def)
next
  case (Suc i)
  have "unat (drop_bit 1 n) < 2 ^ Suc (Suc i)"
    using Suc.prems by (simp only: unat_shift_right1) simp
  then show ?case
    using verify_loop_step [OF sh H Suc.prems] Suc.IH [of "drop_bit 1 n"] Suc.prems by simp
qed

lemma leaf_hashes:
  assumes "tree_shape h msgs Ls E" "msgs_live h msgs" "k < 2 ^ (E - 1)"
  shows "\<exists>p m1 m2. h_points h (node_at Ls (E - 1) k) = Some p \<and>
    leaf_msg1 p h = Some m1 \<and> calc_hash H m1 = Some (msg_hash H h (msgs ! (2 * k))) \<and>
    leaf_msg2 p h = Some m2 \<and> calc_hash H m2 = Some (msg_hash H h (msgs ! (2 * k + 1)))"
proof -
  have E: "0 < E" "length msgs = 2 * 2 ^ (E - 1)"
    using assms(1) by (cases E; auto simp: tree_shape_def)+
  obtain p g1 g2 where "h_points h (node_at Ls (E - 1) k) = Some p"
      "hp_union p = Smgs2 (msgs ! (2 * k)) g1 (msgs ! (2 * k + 1)) g2"
    using assms(1,3) unfolding tree_shape_def by blast
  moreover have "msgs ! (2 * k) \<in> set msgs" "msgs ! (2 * k + 1) \<in> set msgs"
    using E(2) assms(3) by (auto intro!: nth_mem)
  then obtain m1 m2 where "h_msgs h (msgs ! (2 * k)) = Some m1" "msg_ok m1"
      "h_msgs h (msgs ! (2 * k + 1)) = Some m2" "msg_ok m2"
    using assms(2) unfolding msgs_live_def by blast
  ultimately show ?thesis
    by (auto simp: leaf_msg1_def leaf_msg2_def calc_hash_eq msg_hash_def)
qed

text \<open>The stored hash the first comparison reads: the left or right child of the node above, by the
  parity of the position, is the first-level node itself.\<close>

lemma stored_child:
  assumes sh: "tree_shape h msgs Ls E" and e: "E = Suc (Suc e)" and n: "unat n < 2 ^ Suc e"
  shows "\<exists>up st. layer_point Ls e (drop_bit 1 n) h = Some up \<and>
    (if n mod 2 = 0 then child1 up h else child2 up h) = Some st \<and>
    length (hp_hash st) = 32 \<and> hp_hash st = hash_at h Ls (E - 1) (unat n)"
proof -
  have mu: "unat (drop_bit 1 n) < 2 ^ e" using n by (simp only: unat_shift_right1) simp
  obtain up c1 c2 where up: "layer_point Ls e (drop_bit 1 n) h = Some up"
    and c: "child1 up h = Some c1" "child2 up h = Some c2"
    and cl: "length (hp_hash c1) = 32" "length (hp_hash c2) = 32"
    and ch: "hp_hash c1 = hash_at h Ls (Suc e) (2 * unat (drop_bit 1 n))"
      "hp_hash c2 = hash_at h Ls (Suc e) (2 * unat (drop_bit 1 n) + 1)"
    using layer_point_children [OF sh _ mu] e by auto
  show ?thesis
  proof (cases "odd (unat n)")
    case True
    then have "2 * unat (drop_bit 1 n) + 1 = unat n" unfolding unat_shift_right1 by presburger
    with True show ?thesis using odd_word [of n] up c cl ch e by simp
  next
    case False
    then have "2 * unat (drop_bit 1 n) = unat n" unfolding unat_shift_right1 by presburger
    with False show ?thesis using odd_word [of n] up c cl ch e by simp
  qed
qed

lemma verify_loop_result:
  assumes "tree_shape h msgs Ls E" "generichash_ok H" "E \<le> 63" "E = Suc (Suc e)" "unat n < 2 ^ Suc e"
  shows "verify_loop H Ls h e n 0 \<in>
      (if E = 2 \<and> \<not> root_ok H h Ls then {Some (Inl 0)} else {Some (Inl 1), Some (Inr 0)})"
proof (cases e)
  case 0
  with assms show ?thesis using verify_loop_root [OF assms(1,2), of n] by simp
next
  case (Suc d)
  with assms show ?thesis using verify_loop_upper [OF assms(1,2), of d n] by simp
qed

lemma merkle_verify_decides:
  assumes sh: "tree_shape h msgs Ls E" and live: "msgs_live h msgs" and H: "generichash_ok H"
    and E: "2 \<le> E" "E \<le> 63" and m: "m < 2 ^ E"
  shows "merkle_verify_message H (of_nat E) (of_nat m) Ls h =
    Some (if leaf_ok H h msgs Ls E m \<and> (E = 2 \<longrightarrow> root_ok H h Ls) then 1 else 0)"
proof -
  define e where "e = E - 2"
  have e: "E = Suc (Suc e)" using E by (simp add: e_def)
  have "m < 2 ^ 64" by (rule less_pow2_mono [OF m]) (use E in simp)
  then have um: "unat (of_nat m :: u64) = m" by (rule unat_of_nat_u64)
  define n where "n = drop_bit 1 (of_nat m :: u64)"
  have un: "unat n = m div 2" unfolding n_def unat_shift_right1 um ..
  have n: "unat n < 2 ^ Suc e" using m unfolding un e by simp
  have e1: "unat (of_nat E - 1 :: u64) = E - 1" and e2: "unat (of_nat E - 2 :: u64) = e"
    and e3: "sint (ucast (of_nat E - 2 :: u64) :: u32) = int e"
    using E unat_of_nat_u64 [of "Suc e"] unat_of_nat_u64 [of e] sint_ucast_small [of e]
    by (simp_all add: e)
  obtain leaf m1 m2 where leaf: "layer_point Ls (E - 1) n h = Some leaf"
    and m1: "leaf_msg1 leaf h = Some m1" "calc_hash H m1 = Some (msg_hash H h (msgs ! (2 * (m div 2))))"
    and m2: "leaf_msg2 leaf h = Some m2" "calc_hash H m2 = Some (msg_hash H h (msgs ! (2 * (m div 2) + 1)))"
    using leaf_hashes [OF sh live, of "unat n" H] layer_point_shape [OF sh, of "E - 1" n] n un e
    by auto
  obtain up st where up: "layer_point Ls e (drop_bit 1 n) h = Some up"
    and st: "(if n mod 2 = 0 then child1 up h else child2 up h) = Some st" "length (hp_hash st) = 32"
      "hp_hash st = hash_at h Ls (E - 1) (m div 2)"
    using stored_child [OF sh e n] un by auto
  let ?S = "H (msg_hash H h (msgs ! (2 * (m div 2))) @ msg_hash H h (msgs ! (2 * (m div 2) + 1)))"
  have S: "merge_2hashses H (msg_hash H h (msgs ! (2 * (m div 2)))) (msg_hash H h (msgs ! (2 * (m div 2) + 1)))
      = Some ?S" "memcmp ?S (hp_hash st) 32 = Some (byte_cmp ?S (hp_hash st))"
    "byte_cmp ?S (hp_hash st) = 0 \<longleftrightarrow> leaf_ok H h msgs Ls E m"
    using H st by (simp_all add: merge_2hashses_eq msg_hash_def memcmp_full byte_cmp_zero_iff leaf_ok_def)
  show ?thesis
    unfolding merkle_verify_message_def Let_def n_def [symmetric] e1 e2 e3 leaf m1 m2 up
      bind.bind_lunit S(1) st(1) sodium_sizes S(2)
    using verify_loop_result [OF sh H E(2) e n] S(3) by (auto split: if_splits)
qed

end
