(* ===== verification/MerkleTree.thy ===== *)
theory MerkleTree
  imports MerkleProcess
begin

text \<open>
  The trees the constructors make.  \<open>tree_part\<close> is the state of \<open>fill_intermediate_levels\<close> with
  the layers from \<open>lo\<close> on in place; \<open>tree_built\<close> is the finished tree.  A finished tree has the
  shape \<open>merkle_verify_message\<close> needs, its hashes are consistent, and its root is the
  specification's.
\<close>

section \<open>A tree under construction\<close>

text \<open>Layer \<open>j\<close> occupies \<open>2 ^ j\<close> consecutive addresses; the layers lie one after another from
  \<open>b\<close>, the first-level nodes first.\<close>

definition layer_base :: "addr \<Rightarrow> nat \<Rightarrow> nat \<Rightarrow> addr" where
  "layer_base b E j = b + 2 ^ E - 2 ^ Suc j"

definition tree_part ::
  "(bytes \<Rightarrow> bytes) \<Rightarrow> heap \<Rightarrow> addr list \<Rightarrow> addr \<Rightarrow> layers \<Rightarrow> nat \<Rightarrow> nat \<Rightarrow> bool" where
  "tree_part H h msgs b Ls E lo \<longleftrightarrow>
     lo < E \<and> length Ls = E \<and> length msgs = 2 ^ E \<and> h_next h = b + 2 ^ E - 2 ^ lo \<and>
     (\<forall>j. lo \<le> j \<and> j < E \<longrightarrow> (\<exists>lev. Ls ! j =
        Some \<lparr>ly_main_pointer = [layer_base b E j ..< layer_base b E j + 2 ^ j],
              ly_size = of_nat (2 ^ j), ly_level = lev\<rparr>)) \<and>
     (\<forall>k < 2 ^ (E - 1). h_points h (layer_base b E (E - 1) + k) =
        Some (message_node H h (msgs ! (2 * k)) (msgs ! (2 * k + 1)))) \<and>
     (\<forall>j k. lo \<le> j \<and> Suc j < E \<and> k < 2 ^ j \<longrightarrow> h_points h (layer_base b E j + k) =
        Some (inner_node H h (layer_base b E (Suc j) + 2 * k) (layer_base b E (Suc j) + 2 * k + 1)))"

definition tree_built ::
  "(bytes \<Rightarrow> bytes) \<Rightarrow> heap \<Rightarrow> addr list \<Rightarrow> addr \<Rightarrow> layers \<Rightarrow> nat \<Rightarrow> bool" where
  "tree_built H h msgs b Ls E \<longleftrightarrow> tree_part H h msgs b Ls E 0"

lemma tree_part_child:
  assumes "tree_part H h msgs b Ls E lo" "generichash_ok H" "lo \<le> j" "j < E" "k < 2 ^ j"
  shows "point_child_ok H h (layer_base b E j + k)"
proof (cases "Suc j < E")
  case True
  with assms show ?thesis by (simp add: tree_part_def point_child_ok_def)
next
  case False
  with assms have "j = E - 1" by simp
  with assms show ?thesis by (auto simp: tree_part_def point_child_ok_def)
qed

text \<open>A new layer \<open>k\<close> completes the inner nodes from \<open>k\<close> on.\<close>

lemma grown_inner_node:
  assumes part: "tree_part H h msgs b Ls E (Suc k)" and H: "generichash_ok H"
    and b: "built h (2 ^ k) (\<lambda>i. inner_node H h (layer_base b E (Suc k) + 2 * i)
              (layer_base b E (Suc k) + 2 * i + 1)) h'"
    and j: "k \<le> j" "Suc j < E" "i < 2 ^ j"
  shows "h_points h' (layer_base b E j + i) =
      Some (inner_node H h' (layer_base b E (Suc j) + 2 * i) (layer_base b E (Suc j) + 2 * i + 1))"
proof -
  have le: "heap_le h h'" using b by (simp add: built_def)
  have "point_child_ok H h (layer_base b E (Suc j) + 2 * i)" "point_child_ok H h (layer_base b E (Suc j) + (2 * i + 1))"
    by (rule tree_part_child [OF part H]; use j in simp)+
  then have eq: "inner_node H h' (layer_base b E (Suc j) + 2 * i) (layer_base b E (Suc j) + 2 * i + 1) =
      inner_node H h (layer_base b E (Suc j) + 2 * i) (layer_base b E (Suc j) + 2 * i + 1)"
    using inner_builder.node_mono [OF le] by simp
  show ?thesis
  proof (cases "j = k")
    case True
    have "h_next h = layer_base b E k" using part by (simp add: tree_part_def layer_base_def)
    with True b j eq show ?thesis by (simp add: built_def)
  next
    case False
    with j have "Suc k \<le> j" by simp
    with part j have "h_points h (layer_base b E j + i) = Some (inner_node H h
        (layer_base b E (Suc j) + 2 * i) (layer_base b E (Suc j) + 2 * i + 1))"
      unfolding tree_part_def by blast
    then show ?thesis unfolding eq by (rule heap_le_point [OF le])
  qed
qed

lemma tree_part_grow:
  assumes part: "tree_part H h msgs b Ls E (Suc k)" and H: "generichash_ok H"
    and b: "built h (2 ^ k) (\<lambda>i. inner_node H h (layer_base b E (Suc k) + 2 * i)
              (layer_base b E (Suc k) + 2 * i + 1)) h'"
  shows "tree_part H h' msgs b
    (Ls[k := Some \<lparr>ly_main_pointer = [h_next h ..< h_next h + 2 ^ k], ly_size = of_nat (2 ^ k),
                   ly_level = lev\<rparr>]) E k"
proof -
  have le: "heap_le h h'" and ms: "h_msgs h' = h_msgs h" using b by (auto simp: built_def)
  have nx: "h_next h = layer_base b E k" using part by (simp add: tree_part_def layer_base_def)
  have "2 ^ Suc k \<le> (2 :: nat) ^ E" using part by (intro power_increasing) (auto simp: tree_part_def)
  then have nx': "h_next h' = b + 2 ^ E - 2 ^ k"
    using b part by (auto simp: built_def tree_part_def)
  have msgn: "message_node H h' x y = message_node H h x y" for x y
    by (simp add: message_node_def msg_hash_def ms)
  note grown_inner_node [OF part H b]
  moreover have "h_points h' (layer_base b E (E - 1) + i) =
      Some (message_node H h' (msgs ! (2 * i)) (msgs ! (2 * i + 1)))" if "i < 2 ^ (E - 1)" for i
    using part that heap_le_point [OF le] by (auto simp: tree_part_def msgn)
  moreover have "\<exists>lev'. (Ls[k := Some \<lparr>ly_main_pointer = [h_next h ..< h_next h + 2 ^ k],
        ly_size = of_nat (2 ^ k), ly_level = lev\<rparr>]) ! j =
      Some \<lparr>ly_main_pointer = [layer_base b E j ..< layer_base b E j + 2 ^ j],
            ly_size = of_nat (2 ^ j), ly_level = lev'\<rparr>" if "k \<le> j" "j < E" for j
    using part that nx by (cases "j = k") (auto simp: tree_part_def nth_list_update)
  ultimately show ?thesis
    using part nx' by (simp add: tree_part_def)
qed

section \<open>Filling the layers\<close>

lemma fill_levels_loop_build:
  assumes "tree_part H h msgs b Ls E k" "generichash_ok H" "heap_wf h" "E \<le> 63"
    and "length Lp = E" "\<forall>j. k \<le> j \<and> j < E \<longrightarrow> Lp ! j = Ls ! j"
  shows "\<exists>Ls' h'. fill_levels_loop H k (of_nat (2 ^ k)) Ls Lp h = Some (1, Ls', Ls', h') \<and>
           tree_part H h' msgs b Ls' E 0 \<and> heap_wf h' \<and> heap_le h h' \<and> h_msgs h' = h_msgs h \<and>
           h_tick h' = h_tick h \<and> (\<forall>a < h_next h. h_points h' a = h_points h a)"
  using assms
proof (induction k arbitrary: h Ls Lp)
  case 0
  then have "Lp = Ls" by (auto simp: tree_part_def intro: nth_equalityI)
  with 0 show ?case by simp
next
  case (Suc k)
  let ?start = "[layer_base b E (Suc k) ..< layer_base b E (Suc k) + 2 ^ Suc k]"
  obtain lev where below: "Ls ! Suc k = Some \<lparr>ly_main_pointer = ?start,
      ly_size = of_nat (2 ^ Suc k), ly_level = lev\<rparr>" and k: "Suc k < E" "length Ls = E"
    using Suc.prems(1) by (auto simp: tree_part_def)
  have "point_child_ok H h a" if a: "a \<in> set ?start" for a
    using tree_part_child [OF Suc.prems(1,2) order.refl k(1), of "a - layer_base b E (Suc k)"] a
    by auto
  moreover have "(2 :: nat) ^ k < 2 ^ 63" by (rule power_strict_increasing) (use k Suc.prems in auto)
  ultimately obtain h1 where
    layer: "create_a_h_layer H (of_nat (2 * 2 ^ k)) ?start h =
        Some (\<lparr>ly_main_pointer = [h_next h ..< h_next h + 2 ^ k], ly_size = of_nat (2 ^ k), ly_level = 0\<rparr>,
              of_nat (2 ^ k), h1)"
    and bu: "built h (2 ^ k) (\<lambda>j. inner_node H h (?start ! (2 * j)) (?start ! (2 * j + 1))) h1"
    using create_a_h_layer_build [of h ?start H "2 ^ k"] Suc.prems(3) by auto
  define L where "L = \<lparr>ly_main_pointer = [h_next h ..< h_next h + 2 ^ k],
                       ly_size = of_nat (2 ^ k) :: u64, ly_level = 0 :: u64\<rparr>"
  have "built h (2 ^ k) (\<lambda>j. inner_node H h (layer_base b E (Suc k) + 2 * j)
          (layer_base b E (Suc k) + 2 * j + 1)) h1"
    using bu by (simp add: built_def)
  then have part1: "tree_part H h1 msgs b (Ls[k := Some L]) E k"
    unfolding L_def by (rule tree_part_grow [OF Suc.prems(1,2)])
  have h1: "heap_wf h1" "heap_le h h1" "h_msgs h1 = h_msgs h" "h_tick h1 = h_tick h"
      "h_next h \<le> h_next h1" "\<forall>a < h_next h. h_points h1 a = h_points h a"
    using bu by (auto simp: built_def)
  have "\<forall>j. k \<le> j \<and> j < E \<longrightarrow> Lp[k := Some L] ! j = Ls[k := Some L] ! j"
    using Suc.prems(5,6) k by (auto simp: nth_list_update)
  then obtain Ls' h' where
    "fill_levels_loop H k (of_nat (2 ^ k)) (Ls[k := Some L]) (Lp[k := Some L]) h1 = Some (1, Ls', Ls', h')"
    "tree_part H h' msgs b Ls' E 0" "heap_wf h'" "heap_le h1 h'" "h_msgs h' = h_msgs h1"
    "h_tick h' = h_tick h1" "\<forall>a < h_next h1. h_points h' a = h_points h1 a"
    using Suc.IH [OF part1 Suc.prems(2) h1(1) Suc.prems(4), of "Lp[k := Some L]"] Suc.prems(5) by auto
  then show ?case
    using layer below k Suc.prems(5) h1 by (auto simp: L_def intro: heap_le_trans)
qed

lemma fill_intermediate_levels_build:
  assumes "tree_part H h msgs b Ls E (E - 1)" "generichash_ok H" "heap_wf h" "E \<le> 63"
    and "length Lp = E" "Lp ! (E - 1) = Ls ! (E - 1)"
  shows "\<exists>Ls' h'. fill_intermediate_levels H (of_nat E) (of_nat (2 ^ (E - 1))) Ls Lp h =
             Some (1, Ls', Ls', h') \<and>
           tree_built H h' msgs b Ls' E \<and> heap_wf h' \<and> heap_le h h' \<and> h_msgs h' = h_msgs h \<and>
           h_tick h' = h_tick h \<and> (\<forall>a < h_next h. h_points h' a = h_points h a)"
proof -
  have E: "0 < E" using assms(1) by (auto simp: tree_part_def)
  have "nat (sint (ucast (of_nat E - 2 :: u64) :: u32) + 1) = E - 1"
  proof (cases "E = 1")
    case True
    have "sint (ucast (- 1 :: u64) :: u32) = - 1" by code_simp
    with True show ?thesis by simp
  next
    case False
    with E have "(of_nat E - 2 :: u64) = of_nat (E - 2)" by (simp add: of_nat_diff)
    then show ?thesis using sint_ucast_small [of "E - 2"] assms(4) E False by simp
  qed
  moreover have "\<forall>j. E - 1 \<le> j \<and> j < E \<longrightarrow> Lp ! j = Ls ! j"
    using assms(6) by (auto dest: le_antisym intro: arg_cong simp: le_less_Suc_eq)
  ultimately show ?thesis
    using fill_levels_loop_build [OF assms(1-5)] by (simp add: fill_intermediate_levels_def tree_built_def)
qed

section \<open>Finished trees\<close>

lemma tree_built_node_at:
  "tree_built H h msgs b Ls E \<Longrightarrow> j < E \<Longrightarrow> k < 2 ^ j \<Longrightarrow> node_at Ls j k = layer_base b E j + k"
  by (fastforce simp: tree_built_def tree_part_def node_at_def)

lemma tree_built_shape:
  assumes t: "tree_built H h msgs b Ls E" and H: "generichash_ok H"
  shows "tree_shape h msgs Ls E"
proof -
  note at = tree_built_node_at [OF t]
  have E: "0 < E" "length Ls = E" "length msgs = 2 ^ E"
    using t by (auto simp: tree_built_def tree_part_def)
  have "\<exists>L. Ls ! j = Some L \<and> length (ly_main_pointer L) = 2 ^ j" if "j < E" for j
    using t that by (fastforce simp: tree_built_def tree_part_def)
  moreover have "h_points h (node_at Ls (E - 1) k) =
      Some (message_node H h (msgs ! (2 * k)) (msgs ! (2 * k + 1)))" if "k < 2 ^ (E - 1)" for k
    using t that at [of "E - 1" k] E(1) by (simp add: tree_built_def tree_part_def)
  moreover have "h_points h (node_at Ls j k) =
      Some (inner_node H h (node_at Ls (Suc j) (2 * k)) (node_at Ls (Suc j) (2 * k + 1)))"
    if "Suc j < E" "k < 2 ^ j" for j k
    using t that at [of j k] at [of "Suc j" "2 * k"] at [of "Suc j" "2 * k + 1"]
    by (simp add: tree_built_def tree_part_def)
  ultimately show ?thesis
    using E H by (simp add: tree_shape_def message_node_def inner_node_def)
qed

lemma tree_built_hashes:
  assumes t: "tree_built H h msgs b Ls E"
  shows "k < 2 ^ (E - 1) \<Longrightarrow> hash_at h Ls (E - 1) k =
      H (msg_hash H h (msgs ! (2 * k)) @ msg_hash H h (msgs ! (2 * k + 1)))"
    and "Suc j < E \<Longrightarrow> k < 2 ^ j \<Longrightarrow> hash_at h Ls j k =
      H (hash_at h Ls (Suc j) (2 * k) @ hash_at h Ls (Suc j) (2 * k + 1))"
proof -
  note at = tree_built_node_at [OF t]
  have E: "0 < E" using t by (auto simp: tree_built_def tree_part_def)
  show "hash_at h Ls (E - 1) k = H (msg_hash H h (msgs ! (2 * k)) @ msg_hash H h (msgs ! (2 * k + 1)))"
    if "k < 2 ^ (E - 1)"
    using t that at [of "E - 1" k] E
    by (simp add: hash_at_def point_hash_def tree_built_def tree_part_def message_node_def)
  show "hash_at h Ls j k = H (hash_at h Ls (Suc j) (2 * k) @ hash_at h Ls (Suc j) (2 * k + 1))"
    if "Suc j < E" "k < 2 ^ j"
  proof -
    have "h_points h (node_at Ls j k) =
        Some (inner_node H h (node_at Ls (Suc j) (2 * k)) (node_at Ls (Suc j) (2 * k + 1)))"
      using t that at [of j k] at [of "Suc j" "2 * k"] at [of "Suc j" "2 * k + 1"]
      by (simp add: tree_built_def tree_part_def)
    then show ?thesis
      unfolding hash_at_def by (subst point_hash_def) (simp add: inner_node_def)
  qed
qed

text \<open>The hashes of layer \<open>j\<close>, as a list: one \<open>level_up\<close> of the layer below.\<close>

definition layer_hashes :: "heap \<Rightarrow> layers \<Rightarrow> nat \<Rightarrow> bytes list" where
  "layer_hashes h Ls j = map (hash_at h Ls j) [0 ..< 2 ^ j]"

lemma tree_built_layer_hashes:
  assumes t: "tree_built H h msgs b Ls E"
  shows "layer_hashes h Ls (E - 1) = level_up H (map (msg_hash H h) msgs)"
    and "Suc j < E \<Longrightarrow> layer_hashes h Ls j = level_up H (layer_hashes h Ls (Suc j))"
proof -
  have len: "length msgs = 2 * 2 ^ (E - 1)"
    using t by (cases E) (auto simp: tree_built_def tree_part_def)
  show "layer_hashes h Ls (E - 1) = level_up H (map (msg_hash H h) msgs)"
    by (rule nth_equalityI)
      (simp_all add: layer_hashes_def len nth_level_up tree_built_hashes(1) [OF t, simplified])
  show "layer_hashes h Ls j = level_up H (layer_hashes h Ls (Suc j))" if "Suc j < E"
    by (rule nth_equalityI)
      (simp_all add: layer_hashes_def nth_level_up tree_built_hashes(2) [OF t that])
qed

lemma tree_built_root:
  assumes t: "tree_built H h msgs b Ls E"
  shows "hash_at h Ls 0 0 = mroot H E (map (msg_hash H h) msgs)"
proof -
  have E: "0 < E" "length msgs = 2 ^ E" using t by (auto simp: tree_built_def tree_part_def)
  have "mroot H j (layer_hashes h Ls j) = mroot H E (map (msg_hash H h) msgs)" if "j < E" for j
    using that
  proof (induction "E - 1 - j" arbitrary: j)
    case 0
    then have "j = E - 1" by simp
    moreover have "mroot H (Suc (E - 1)) (map (msg_hash H h) msgs) =
        mroot H (E - 1) (level_up H (map (msg_hash H h) msgs))"
      using E by (intro mroot_level_up) simp
    ultimately show ?case
      using E tree_built_layer_hashes(1) [OF t] by simp
  next
    case (Suc d)
    then have "mroot H (Suc j) (layer_hashes h Ls (Suc j)) = mroot H E (map (msg_hash H h) msgs)"
      by (intro Suc.hyps(1)) auto
    moreover have "mroot H (Suc j) (layer_hashes h Ls (Suc j)) =
        mroot H j (level_up H (layer_hashes h Ls (Suc j)))"
      by (rule mroot_level_up) (simp add: layer_hashes_def)
    moreover have "Suc j < E" using Suc by simp
    ultimately show ?case using tree_built_layer_hashes(2) [OF t] by simp
  qed
  from this [of 0] E show ?thesis by (simp add: layer_hashes_def)
qed

section \<open>Building and releasing a whole tree\<close>

text \<open>The common part of both \<open>calc_merkle_tree\<close> functions: the first-level layer goes to slot
  \<open>EXPONENT - 1\<close> of both arrays, then the layers above are filled.\<close>

definition merkle_layers ::
  "(bytes \<Rightarrow> bytes) \<Rightarrow> u64 \<Rightarrow> u64 \<Rightarrow> addr list \<Rightarrow> heap \<Rightarrow> (layers \<times> layers \<times> heap) option" where
  "merkle_layers H EXPONENT n_msg msg_arr h = do {
     let L_arrays = replicate (unat EXPONENT) None;
     let L_arrays_p = replicate (unat EXPONENT) None;
     (base, h) \<leftarrow> process_s_messagesV2 H n_msg msg_arr h;
     require (unat (EXPONENT - 1) < unat EXPONENT);
     let L_arrays = L_arrays[unat (EXPONENT - 1) := Some base];
     let L_arrays_p = L_arrays_p[unat (EXPONENT - 1) := Some base];
     let n_msg = drop_bit 1 n_msg;
     (n_msg, L_arrays, L_arrays_p, h) \<leftarrow> fill_intermediate_levels H EXPONENT n_msg L_arrays L_arrays_p h;
     Some (L_arrays, L_arrays_p, h)
   }"

text \<open>\<open>for (i = 0; i < EXPONENT; i++) destoroy_a_layer(L_arrays[i])\<close>\<close>

definition destroy_layers :: "layers \<Rightarrow> heap \<Rightarrow> heap option" where
  "destroy_layers Ls h =
     foldM (\<lambda>L h. case L of None \<Rightarrow> None | Some L \<Rightarrow> destoroy_a_layer L h) Ls h"

lemma tree_part_base:
  assumes "built h (2 ^ (E - 1)) (\<lambda>j. message_node H h (msgs ! (2 * j)) (msgs ! (2 * j + 1))) h1"
    and "0 < E" "length msgs = 2 ^ E"
  shows "tree_part H h1 msgs (h_next h)
    ((replicate E None)[E - 1 := Some \<lparr>ly_main_pointer = [h_next h ..< h_next h + 2 ^ (E - 1)],
       ly_size = of_nat (2 ^ (E - 1)), ly_level = lev\<rparr>]) E (E - 1)"
proof -
  have lb: "layer_base (h_next h) E (E - 1) = h_next h" using assms(2) by (simp add: layer_base_def)
  have two: "2 ^ E = 2 * (2 :: nat) ^ (E - 1)" using assms(2) by (cases E) auto
  have "message_node H h1 x y = message_node H h x y" for x y
    using assms(1) by (simp add: built_def message_node_def msg_hash_def)
  moreover have "\<exists>lev'. ((replicate E None)[E - 1 := Some \<lparr>ly_main_pointer = [h_next h ..< h_next h + 2 ^ (E - 1)],
       ly_size = of_nat (2 ^ (E - 1)) :: u64, ly_level = lev\<rparr>]) ! j =
      Some \<lparr>ly_main_pointer = [layer_base (h_next h) E j ..< layer_base (h_next h) E j + 2 ^ j],
            ly_size = of_nat (2 ^ j), ly_level = lev'\<rparr>" if "E - 1 \<le> j" "j < E" for j
  proof -
    have "j = E - 1" using that by simp
    then show ?thesis using assms(2) lb by simp
  qed
  moreover have "h_next h1 = h_next h + 2 ^ E - 2 ^ (E - 1)"
    using assms(1) two by (simp add: built_def)
  ultimately show ?thesis
    using assms lb by (auto simp: tree_part_def built_def)
qed

lemma merkle_layers_build:
  assumes "heap_wf h" "generichash_ok H" "0 < E" "E \<le> 63" "length msgs = 2 ^ E" "msgs_live h msgs"
  shows "\<exists>Ls h'. merkle_layers H (of_nat E) (of_nat (2 ^ E)) msgs h = Some (Ls, Ls, h') \<and>
           tree_built H h' msgs (h_next h) Ls E \<and> heap_wf h' \<and> heap_le h h' \<and>
           h_msgs h' = h_msgs h \<and> h_tick h' = h_tick h \<and>
           (\<forall>a < h_next h. h_points h' a = h_points h a)"
proof -
  define e where "e = E - 1"
  have E: "E = Suc e" using assms(3) by (simp add: e_def)
  have small: "(2 :: nat) ^ e < 2 ^ 63" by (rule power_strict_increasing) (use assms E in auto)
  have ue: "unat (of_nat E :: u64) = E" "unat (of_nat E - 1 :: u64) = e"
    using unat_of_nat_u64 [of E] unat_of_nat_u64 [of e] assms(4) by (simp_all add: E)
  have "\<forall>a \<in> set msgs. message_child_ok H h a"
    using assms(2,6) by (simp add: message_child_ok_def msgs_live_def)
  then obtain h1 where base: "process_s_messagesV2 H (of_nat (2 * 2 ^ e)) msgs h =
      Some (\<lparr>ly_main_pointer = [h_next h ..< h_next h + 2 ^ e], ly_size = of_nat (2 ^ e),
             ly_level = level_loop (of_nat (2 ^ e)) 0\<rparr>, h1)"
    and b: "built h (2 ^ e) (\<lambda>j. message_node H h (msgs ! (2 * j)) (msgs ! (2 * j + 1))) h1"
    using process_s_messagesV2_build [OF assms(1), of msgs H "2 ^ e"] assms(5) small E by auto
  let ?Ls = "(replicate E None)[e := Some \<lparr>ly_main_pointer = [h_next h ..< h_next h + 2 ^ e],
       ly_size = of_nat (2 ^ e), ly_level = level_loop (of_nat (2 ^ e)) 0\<rparr>]"
  have part: "tree_part H h1 msgs (h_next h) ?Ls E (E - 1)"
    using tree_part_base [of h E H msgs h1] b assms(3,5) by (simp add: e_def)
  have h1: "heap_wf h1" "heap_le h h1" "h_msgs h1 = h_msgs h" "h_tick h1 = h_tick h"
      "h_next h \<le> h_next h1" "\<forall>a < h_next h. h_points h1 a = h_points h a"
    using b by (auto simp: built_def)
  obtain Ls h' where "fill_intermediate_levels H (of_nat E) (of_nat (2 ^ e)) ?Ls ?Ls h1 = Some (1, Ls, Ls, h')"
    and "tree_built H h' msgs (h_next h) Ls E" "heap_wf h'" "heap_le h1 h'" "h_msgs h' = h_msgs h1"
    and "h_tick h' = h_tick h1" "\<forall>a < h_next h1. h_points h' a = h_points h1 a"
    using fill_intermediate_levels_build [OF part assms(2) h1(1) assms(4), of ?Ls] by (auto simp: e_def)
  then show ?thesis
    using base h1 half_of_nat(1) [OF small] heap_le_trans [OF h1(2)]
    unfolding merkle_layers_def Let_def ue
    by (simp add: E)
qed

text \<open>The nodes of the layers, in the order \<open>destroy_layers\<close> frees them.\<close>

definition layer_nodes :: "layers \<Rightarrow> addr list" where
  "layer_nodes Ls = concat (map (\<lambda>L. case L of None \<Rightarrow> [] | Some L \<Rightarrow> ly_main_pointer L) Ls)"

lemma destroy_layers_foldM:
  assumes "\<forall>L \<in> set Ls. \<exists>l. L = Some l \<and> unat (ly_size l) = length (ly_main_pointer l)"
  shows "destroy_layers Ls h = foldM free_point (layer_nodes Ls) h"
  using assms
proof (induction Ls arbitrary: h)
  case (Cons L Ls)
  then obtain l where "L = Some l" "unat (ly_size l) = length (ly_main_pointer l)" by auto
  with Cons show ?case
    by (auto simp: destroy_layers_def layer_nodes_def destoroy_a_layer_def foldM_append
        split: Option.bind_split)
qed (simp add: destroy_layers_def layer_nodes_def)

lemma layer_ranges:
  assumes "n \<le> E"
  shows "distinct (concat (map (\<lambda>j. [layer_base b E j ..< layer_base b E j + 2 ^ j]) [0 ..< n])) \<and>
    set (concat (map (\<lambda>j. [layer_base b E j ..< layer_base b E j + 2 ^ j]) [0 ..< n])) =
      {b + 2 ^ E - 2 ^ n ..< b + 2 ^ E - 1}"
  using assms
proof (induction n)
  case (Suc n)
  have "2 * 2 ^ n \<le> (2 :: nat) ^ E" using power_increasing [OF Suc.prems, of "2 :: nat"] by simp
  moreover have "1 \<le> (2 :: nat) ^ n" by simp
  ultimately have "layer_base b E n = b + 2 ^ E - 2 ^ Suc n"
      "layer_base b E n + 2 ^ n = b + 2 ^ E - 2 ^ n" "b + 2 ^ E - 2 ^ Suc n \<le> b + 2 ^ E - 2 ^ n"
      "b + 2 ^ E - 2 ^ n \<le> b + 2 ^ E - 1"
    unfolding layer_base_def power_Suc by linarith+
  then show ?case
    using Suc by (auto simp: ivl_disj_un_two(3) Un_commute)
qed simp

lemma tree_built_nodes:
  assumes t: "tree_built H h msgs b Ls E" and H: "generichash_ok H" and E: "E \<le> 63"
  shows "distinct (layer_nodes Ls)" "set (layer_nodes Ls) = {b ..< h_next h}"
    and "destroy_layers Ls h0 = foldM free_point (layer_nodes Ls) h0"
    and "a \<in> {b ..< h_next h} \<Longrightarrow> h_points h a \<noteq> None"
proof -
  have len: "length Ls = E" and nx: "h_next h = b + 2 ^ E - 1"
    and L: "\<And>j. j < E \<Longrightarrow> \<exists>lev. Ls ! j = Some \<lparr>ly_main_pointer = [layer_base b E j ..< layer_base b E j + 2 ^ j],
              ly_size = of_nat (2 ^ j), ly_level = lev\<rparr>"
    using t by (auto simp: tree_built_def tree_part_def)
  have "map (\<lambda>L. case L of None \<Rightarrow> [] | Some L \<Rightarrow> ly_main_pointer L) Ls =
      map (\<lambda>j. [layer_base b E j ..< layer_base b E j + 2 ^ j]) [0 ..< E]"
    using len L by (auto intro!: nth_equalityI split: option.split) fastforce+
  then have nodes: "layer_nodes Ls = concat (map (\<lambda>j. [layer_base b E j ..< layer_base b E j + 2 ^ j]) [0 ..< E])"
    by (simp add: layer_nodes_def)
  show "distinct (layer_nodes Ls)" and st: "set (layer_nodes Ls) = {b ..< h_next h}"
    unfolding nodes using layer_ranges [OF order.refl, of b E] nx by auto
  have "\<exists>l. Ls ! j = Some l \<and> unat (ly_size l) = length (ly_main_pointer l)" if j: "j < E" for j
  proof -
    have "(2 :: nat) ^ j < 2 ^ 63" by (rule power_strict_increasing) (use j E in auto)
    then show ?thesis using L [OF j] half_of_nat(3) [of "2 ^ j"] by auto
  qed
  then show "destroy_layers Ls h0 = foldM free_point (layer_nodes Ls) h0"
    by (intro destroy_layers_foldM) (auto simp: in_set_conv_nth len)
  show "h_points h a \<noteq> None" if a: "a \<in> {b ..< h_next h}"
  proof -
    obtain j where "j < E" "layer_base b E j \<le> a" "a < layer_base b E j + 2 ^ j"
      using a unfolding st [symmetric] nodes by auto
    then have "point_child_ok H h (layer_base b E j + (a - layer_base b E j))"
      using t H by (intro tree_part_child) (auto simp: tree_built_def)
    then show ?thesis using \<open>layer_base b E j \<le> a\<close> by (auto simp: point_child_ok_def)
  qed
qed

text \<open>Releasing a finished tree gives back exactly what building it took.\<close>

lemma free_point_msgs: "free_point a h = Some h' \<Longrightarrow> h_msgs h' = h_msgs h \<and> h_tick h' = h_tick h"
  by (auto simp: free_point_def split: if_splits)

lemma foldM_free_point_msgs:
  "foldM free_point as h = Some h' \<Longrightarrow> h_msgs h' = h_msgs h \<and> h_tick h' = h_tick h"
  by (rule foldM_invariant [where P = "\<lambda>g. h_msgs g = h_msgs h \<and> h_tick g = h_tick h" and s = h])
    (auto dest: free_point_msgs)

lemma destroy_layers_built:
  assumes t: "tree_built H h' msgs (h_next h) Ls E" and H: "generichash_ok H" and E: "E \<le> 63"
    and wf: "heap_wf h" "heap_wf h'" and old: "\<forall>a < h_next h. h_points h' a = h_points h a"
  shows "\<exists>h''. destroy_layers Ls h' = Some h'' \<and> h_points h'' = h_points h \<and> h_msgs h'' = h_msgs h' \<and>
    h_tick h'' = h_tick h' \<and> heap_wf h''"
proof -
  note nodes = tree_built_nodes [OF t H E]
  have pos: "0 < h_next h" using wf(1) by (simp add: heap_wf_def)
  have "\<forall>a \<in> set (layer_nodes Ls). a \<noteq> NULL \<and> h_points h' a \<noteq> None"
    using nodes(2,4) pos by auto
  then obtain h'' where fold: "foldM free_point (layer_nodes Ls) h' = Some h''"
    and pts: "h_points h'' = h_points h' |` (- set (layer_nodes Ls))"
    using point_region.release_all [OF nodes(1)] by blast
  have "h_points h'' a = h_points h a" for a
  proof (cases "a < h_next h")
    case True
    then show ?thesis using pts nodes(2) old by simp
  next
    case False
    then have "h_points h a = None" "a < h_next h' \<or> h_points h' a = None"
      using heap_wf_fresh(2) [OF wf(1), of a] heap_wf_fresh(2) [OF wf(2), of a] by fastforce+
    then show ?thesis using False pts nodes(2) by (auto simp: restrict_map_def)
  qed
  then show ?thesis
    using fold nodes(3) foldM_free_point_msgs [OF fold] point_region.release_all_wf [OF wf(2) fold] by auto
qed

end
