(* ===== verification/BlockProcess.thy ===== *)
theory BlockProcess
  imports MerkleTree BlockData
begin

text \<open>
  \<open>sources/client/block_process.c\<close>: the client builds the Merkle tree over its message array and
  turns the root into a block.  The properties of the tree as a whole are here: its root is the
  specification's, honest messages verify, what a changed message or a changed node does to the
  verification, and that the tree is released completely.
\<close>

section \<open>Operations\<close>

record l_msg_container =
  main_layer_pointer :: layers
  layers_for_destr :: layers
  messages_arr :: "addr list"

text \<open>\<open>1LLU << EXPONENT\<close> is undefined from 64 on.\<close>

definition calc_merkle_tree ::
  "(bytes \<Rightarrow> bytes) \<Rightarrow> u64 \<Rightarrow> addr \<Rightarrow> heap \<Rightarrow> (l_msg_container \<times> heap) option" where
  "calc_merkle_tree H EXPONENT msg_pointer h = do {
     require (EXPONENT < 64);
     let n_msg = push_bit (unat EXPONENT) (1 :: u64);
     let msg_arr = map (\<lambda>i. msg_pointer + i) [0 ..< unat n_msg];
     (L_arrays, L_arrays_p, h) \<leftarrow> merkle_layers H EXPONENT n_msg msg_arr h;
     Some (\<lparr>main_layer_pointer = L_arrays_p, layers_for_destr = L_arrays, messages_arr = msg_arr\<rparr>, h)
   }"

text \<open>The solver runs in a thread that is joined at once; joining a thread that was not created is
  undefined.\<close>

definition processing_block :: "env \<Rightarrow> l_msg_container \<Rightarrow> heap \<Rightarrow> (block_t \<times> heap) option" where
  "processing_block E L_arrays_p_cont h = do {
     p \<leftarrow> layer_point (main_layer_pointer L_arrays_p_cont) 0 0 h;
     _ \<leftarrow> DumpHex E (hp_hash p) crypto_generichash_BYTES;
     temp_hash \<leftarrow> calc_hashof_hash (env_generichash E) (hp_hash p);
     _ \<leftarrow> DumpHex E temp_hash crypto_generichash_BYTES;
     merkle_root_first \<leftarrow> memcpy (indeterminate E crypto_generichash_BYTES) (hp_hash p) crypto_generichash_BYTES;
     let pc = \<lparr>pc_merkle_root_p = merkle_root_first, pc_nonce = calloc NONCE_LEN\<rparr>;
     require (env_thrd_create E (h_tick h));
     (pc, h) \<leftarrow> solve_puzzle_fixed_diff E pc (tick h);
     (block_dummy, h) \<leftarrow> create_block_dummy E None merkle_root_first h;
     (block_dummy, h) \<leftarrow> set_nonce_to_block E block_dummy (pc_nonce pc) h;
     block_dummy \<leftarrow> set_prev_block_hash (env_generichash E) block_dummy None;
     Some (block_dummy, h)
   }"

section \<open>The tree over a message array\<close>

text \<open>\<open>2 ^ E\<close> well-formed messages stored from \<open>mp\<close> on, and their texts.\<close>

definition msg_array :: "heap \<Rightarrow> addr \<Rightarrow> nat \<Rightarrow> bool" where
  "msg_array h mp E \<longleftrightarrow> (\<forall>i < 2 ^ E. \<exists>m. h_msgs h (mp + i) = Some m \<and> msg_ok m)"

definition array_texts :: "heap \<Rightarrow> addr \<Rightarrow> nat \<Rightarrow> bytes list" where
  "array_texts h mp E = map (\<lambda>i. msg_bytes (the (h_msgs h (mp + i)))) [0 ..< 2 ^ E]"

lemma msgs_live_array:
  "msgs_live h (map (\<lambda>i. mp + i) [0 ..< 2 ^ E]) \<longleftrightarrow> msg_array h mp E"
  by (simp only: msgs_live_def msg_array_def set_map set_upt ball_simps) auto

lemma array_hashes:
  "map (msg_hash H h) (map (\<lambda>i. mp + i) [0 ..< 2 ^ E]) = map H (array_texts h mp E)"
  by (simp add: array_texts_def msg_hash_def)

lemma calc_merkle_tree_eq:
  assumes "E \<le> 63"
  shows "calc_merkle_tree H (of_nat E) mp h = do {
    (Ls, Lp, h) \<leftarrow> merkle_layers H (of_nat E) (of_nat (2 ^ E)) (map (\<lambda>i. mp + i) [0 ..< 2 ^ E]) h;
    Some (\<lparr>main_layer_pointer = Lp, layers_for_destr = Ls, messages_arr = map (\<lambda>i. mp + i) [0 ..< 2 ^ E]\<rparr>, h)
  }"
proof -
  have u: "unat (of_nat E :: u64) = E" using assms by (intro unat_of_nat_u64) simp
  have lt: "(of_nat E :: u64) < 64" using assms u by (simp add: word_less_nat_alt)
  have n: "unat (push_bit E (1 :: u64)) = 2 ^ E" by (rule unat_pow2_64) (use assms in simp)
  have p: "push_bit E (1 :: u64) = of_nat (2 ^ E)" by (simp add: push_bit_eq_mult)
  show ?thesis unfolding calc_merkle_tree_def Let_def u n using lt by (simp add: p)
qed

lemma calc_merkle_tree_build:
  assumes "heap_wf h" "generichash_ok H" "0 < E" "E \<le> 63" "msg_array h mp E"
  shows "\<exists>Ls h'. calc_merkle_tree H (of_nat E) mp h =
      Some (\<lparr>main_layer_pointer = Ls, layers_for_destr = Ls,
             messages_arr = map (\<lambda>i. mp + i) [0 ..< 2 ^ E]\<rparr>, h') \<and>
    tree_built H h' (map (\<lambda>i. mp + i) [0 ..< 2 ^ E]) (h_next h) Ls E \<and>
    heap_wf h' \<and> heap_le h h' \<and> h_msgs h' = h_msgs h \<and> h_tick h' = h_tick h \<and>
    (\<forall>a < h_next h. h_points h' a = h_points h a)"
  using merkle_layers_build [OF assms(1-4), of "map (\<lambda>i. mp + i) [0 ..< 2 ^ E]"] assms(5)
  by (fastforce simp: calc_merkle_tree_eq [OF assms(4)] msgs_live_array)

lemma tree_root_hash:
  assumes "heap_wf h" "generichash_ok H" "0 < E" "E \<le> 63" "msg_array h mp E"
    and "calc_merkle_tree H (of_nat E) mp h = Some (c, h')"
  shows "map_option hp_hash (layer_point (main_layer_pointer c) 0 0 h') =
    Some (mroot H E (map H (array_texts h mp E)))"
proof -
  let ?msgs = "map (\<lambda>i. mp + i) [0 ..< 2 ^ E]" and ?Ls = "main_layer_pointer c"
  have t: "tree_built H h' ?msgs (h_next h) ?Ls E" and m: "h_msgs h' = h_msgs h"
    using calc_merkle_tree_build [OF assms(1-5)] assms(6) by auto
  obtain p where "layer_point ?Ls 0 0 h' = Some p" "hp_hash p = hash_at h' ?Ls 0 0"
    using layer_point_hash [OF tree_built_shape [OF t assms(2)], of 0 0] assms(3) by auto
  moreover have "hash_at h' ?Ls 0 0 = mroot H E (map H (array_texts h mp E))"
    using tree_built_root [OF t] m unfolding array_hashes by (simp add: array_texts_def)
  ultimately show ?thesis by simp
qed

text \<open>
  C1.  The Merkle root is the specification's: over \<open>2 ^ E\<close> messages, \<open>calc_merkle_tree\<close> succeeds and
  the hash of the root node is the root, by halves, of the hashes of the message texts.
\<close>

theorem merkle_root_correct:
  assumes "heap_wf h" "generichash_ok H" "0 < E" "E \<le> 63" "msg_array h mp E"
  shows "\<exists>c h' p. calc_merkle_tree H (of_nat E) mp h = Some (c, h') \<and>
    layer_point (main_layer_pointer c) 0 0 h' = Some p \<and>
    hp_hash p = mroot H E (map H (array_texts h mp E))"
  using calc_merkle_tree_build [OF assms] tree_root_hash [OF assms] by fastforce

section \<open>Verification over a built tree\<close>

lemma built_tree_facts:
  assumes "heap_wf h" "generichash_ok H" "2 \<le> E" "E \<le> 63" "msg_array h mp E"
    and "calc_merkle_tree H (of_nat E) mp h = Some (c, h')"
  shows "tree_built H h' (map (\<lambda>i. mp + i) [0 ..< 2 ^ E]) (h_next h) (main_layer_pointer c) E"
    and "h_msgs h' = h_msgs h" and "heap_wf h'" and "layers_for_destr c = main_layer_pointer c"
    and "\<forall>a < h_next h. h_points h' a = h_points h a"
  using calc_merkle_tree_build [OF assms(1,2) _ assms(4,5)] assms(3,6) by auto

text \<open>The input of the hash of first-level node \<open>j\<close>.\<close>

definition leaf_input :: "(bytes \<Rightarrow> bytes) \<Rightarrow> heap \<Rightarrow> addr \<Rightarrow> nat \<Rightarrow> bytes" where
  "leaf_input H h mp j =
     H (msg_bytes (the (h_msgs h (mp + 2 * j)))) @ H (msg_bytes (the (h_msgs h (mp + 2 * j + 1))))"

lemma pair_bound:
  assumes "m < 2 ^ E" "0 < E"
  shows "2 * (m div 2) + 1 < (2 :: nat) ^ E" "m div 2 < 2 ^ (E - 1)"
proof -
  have "(2 :: nat) ^ E = 2 * 2 ^ (E - 1)" using assms(2) by (simp flip: power_Suc)
  moreover from this assms(1) show "m div 2 < 2 ^ (E - 1)" by simp
  ultimately show "2 * (m div 2) + 1 < (2 :: nat) ^ E" by linarith
qed

lemma array_nth: "i < n \<Longrightarrow> map (\<lambda>i. mp + i) [0 ..< n] ! i = mp + (i :: nat)"
  by simp

lemma leaf_ok_array:
  assumes "m < 2 ^ E" "0 < E"
  shows "leaf_ok H h (map (\<lambda>i. mp + i) [0 ..< 2 ^ E]) Ls E m \<longleftrightarrow>
    H (leaf_input H h mp (m div 2)) = hash_at h Ls (E - 1) (m div 2)"
proof -
  note b = pair_bound(1) [OF assms]
  have "2 * (m div 2) < 2 ^ E" using b by simp
  then show ?thesis
    unfolding leaf_ok_def leaf_input_def msg_hash_def array_nth [OF b] by (simp add: array_nth add.assoc)
qed

lemma built_leaf_hash:
  assumes "tree_built H h (map (\<lambda>i. mp + i) [0 ..< 2 ^ E]) b Ls E" "m < 2 ^ E"
  shows "hash_at h Ls (E - 1) (m div 2) = H (leaf_input H h mp (m div 2))"
proof -
  have E: "0 < E" using assms(1) by (auto simp: tree_built_def tree_part_def)
  note b = pair_bound [OF assms(2) E]
  have "2 * (m div 2) < 2 ^ E" using b by simp
  then show ?thesis
    using tree_built_hashes(1) [OF assms(1) b(2)] unfolding leaf_input_def msg_hash_def array_nth [OF b(1)]
    by (simp add: array_nth add.assoc)
qed

lemma built_root_ok:
  assumes "tree_built H h msgs b Ls E" "2 \<le> E"
  shows "root_ok H h Ls"
  using tree_built_hashes(2) [OF assms(1), of 0 0] assms(2) by (simp add: root_ok_def)

text \<open>The verification on any heap that still holds the messages and nodes of the tree.\<close>

lemma built_verifies:
  assumes "heap_wf h" "generichash_ok H" "2 \<le> E" "E \<le> 63" "msg_array h mp E"
    and "calc_merkle_tree H (of_nat E) mp h = Some (c, h')" "m < 2 ^ E"
    and same: "h_points h2 = h_points h'" "h_msgs h2 = h_msgs h'"
  shows "merkle_verify_message H (of_nat E) (of_nat m) (main_layer_pointer c) h2 = Some 1"
proof -
  note f = built_tree_facts [OF assms(1-6)]
  let ?msgs = "map (\<lambda>i. mp + i) [0 ..< 2 ^ E]" and ?Ls = "main_layer_pointer c"
  have "msgs_live h2 ?msgs"
    using assms(5) f(2) same unfolding msgs_live_array by (simp add: msg_array_def)
  moreover have "tree_shape h2 ?msgs ?Ls E"
    using tree_built_shape [OF f(1) assms(2)] same by (simp add: tree_shape_def)
  moreover have "leaf_ok H h2 ?msgs ?Ls E m = leaf_ok H h' ?msgs ?Ls E m" "root_ok H h2 ?Ls = root_ok H h' ?Ls"
    using same by (simp_all add: leaf_ok_def root_ok_def msg_hash_def hash_at_def point_hash_def)
  moreover have "leaf_ok H h' ?msgs ?Ls E m" "root_ok H h' ?Ls"
    using built_root_ok [OF f(1) assms(3)] built_leaf_hash [OF f(1) assms(7)] assms(3,7)
    by (simp_all add: leaf_ok_array)
  ultimately show ?thesis using merkle_verify_decides [OF _ _ assms(2-4,7)] by simp
qed

text \<open>
  C2.  Completeness of the verification: after \<open>calc_merkle_tree\<close>, every one of the \<open>2 ^ E\<close> messages
  passes \<open>merkle_verify_message\<close>.
\<close>

theorem merkle_verify_complete:
  assumes "heap_wf h" "generichash_ok H" "2 \<le> E" "E \<le> 63" "msg_array h mp E"
    and "calc_merkle_tree H (of_nat E) mp h = Some (c, h')" "m < 2 ^ E"
  shows "merkle_verify_message H (of_nat E) (of_nat m) (main_layer_pointer c) h' = Some 1"
  using built_verifies [OF assms] by simp

text \<open>A concrete array for the witnesses: message \<open>a\<close> is the one byte \<open>a\<close>, at address \<open>a\<close>.\<close>

definition demo_heap :: "nat \<Rightarrow> heap" where
  "demo_heap n = \<lparr>h_msgs = (\<lambda>a. if 1 \<le> a \<and> a \<le> n then
       Some \<lparr>sm_message = Some [of_nat a], sm_length = 1, sm_public_key = replicate 32 0\<rparr> else None),
     h_points = Map.empty, h_next = Suc n, h_tick = 0\<rparr>"

abbreviation demo_hash :: "bytes \<Rightarrow> bytes" where
  "demo_hash \<equiv> env_generichash demo_env"

lemma demo_heap_ok: "heap_wf (demo_heap n)" "msg_array (demo_heap (2 ^ E)) 1 E"
  by (auto simp: demo_heap_def heap_wf_def msg_array_def msg_ok_def)

lemma demo_tree: "\<exists>c h'. calc_merkle_tree demo_hash 3 1 (demo_heap 8) = Some (c, h')"
  using calc_merkle_tree_build [OF demo_heap_ok(1) demo_env_ok(3), of 3 8 1] demo_heap_ok(2) [of 3] by auto

theorem merkle_root_correct_witness:
  "\<exists>c h' p. calc_merkle_tree demo_hash 3 1 (demo_heap 8) = Some (c, h') \<and>
    layer_point (main_layer_pointer c) 0 0 h' = Some p \<and>
    hp_hash p = mroot demo_hash 3 (map demo_hash (array_texts (demo_heap 8) 1 3))"
  using merkle_root_correct [OF demo_heap_ok(1) demo_env_ok(3), of 3 8 1] demo_heap_ok(2) [of 3] by simp

theorem merkle_verify_complete_witness:
  "\<exists>c h'. calc_merkle_tree demo_hash 3 1 (demo_heap 8) = Some (c, h') \<and>
    merkle_verify_message demo_hash 3 5 (main_layer_pointer c) h' = Some 1"
proof -
  obtain c h' where "calc_merkle_tree demo_hash 3 1 (demo_heap 8) = Some (c, h')" using demo_tree by blast
  with merkle_verify_complete [OF demo_heap_ok(1) demo_env_ok(3), of 3 8 1 c h' 5] demo_heap_ok(2) [of 3]
  show ?thesis by auto
qed

section \<open>A changed message\<close>

lemma verify_changed_message:
  assumes "heap_wf h" "generichash_ok H" "2 \<le> E" "E \<le> 63" "msg_array h mp E"
    and "calc_merkle_tree H (of_nat E) mp h = Some (c, h')"
    and "write_msg (mp + k) new h' = Some h2" "msg_ok new" "m < 2 ^ E"
  shows "merkle_verify_message H (of_nat E) (of_nat m) (main_layer_pointer c) h2 =
    Some (if H (leaf_input H h2 mp (m div 2)) = H (leaf_input H h mp (m div 2)) then 1 else 0)"
proof -
  note f = built_tree_facts [OF assms(1-6)]
  let ?msgs = "map (\<lambda>i. mp + i) [0 ..< 2 ^ E]" and ?Ls = "main_layer_pointer c"
  have h2: "h_points h2 = h_points h'" "h_msgs h2 = (h_msgs h')(mp + k \<mapsto> new)"
    using assms(7) by (auto simp: write_msg_def split: if_splits)
  have same: "hash_at h2 Ls j i = hash_at h' Ls j i" for Ls j i
    by (simp add: hash_at_def point_hash_def h2)
  have "tree_shape h2 ?msgs ?Ls E"
    using tree_built_shape [OF f(1) assms(2)] by (simp add: tree_shape_def h2)
  moreover have "msgs_live h2 ?msgs"
    using assms(5,8) h2 f(2) unfolding msgs_live_array by (auto simp: msg_array_def)
  ultimately have "merkle_verify_message H (of_nat E) (of_nat m) ?Ls h2 =
      Some (if leaf_ok H h2 ?msgs ?Ls E m \<and> (E = 2 \<longrightarrow> root_ok H h2 ?Ls) then 1 else 0)"
    using assms(2-4,9) by (rule merkle_verify_decides)
  moreover have "root_ok H h2 ?Ls" using built_root_ok [OF f(1) assms(3)] by (simp add: root_ok_def same)
  moreover have "leaf_ok H h2 ?msgs ?Ls E m \<longleftrightarrow>
      H (leaf_input H h2 mp (m div 2)) = H (leaf_input H h mp (m div 2))"
    using built_leaf_hash [OF f(1) assms(9)] f(2) assms(3,9)
    by (simp add: leaf_ok_array same) (simp add: leaf_input_def)
  ultimately show ?thesis by simp
qed

text \<open>
  C3.  Tampering is detected: if message \<open>k\<close> of a built tree is overwritten with another text, the
  verification of message \<open>k\<close> and of its pair neighbour fails, unless the two texts, or the two inputs
  of the hash of the pair, are a collision of the hash function.
\<close>

theorem tamper_detected:
  assumes "heap_wf h" "generichash_ok H" "2 \<le> E" "E \<le> 63" "msg_array h mp E"
    and "calc_merkle_tree H (of_nat E) mp h = Some (c, h')"
    and "write_msg (mp + k) new h' = Some h2" "msg_ok new"
    and "k < 2 ^ E" "m < 2 ^ E" "m div 2 = k div 2"
    and "msg_bytes new \<noteq> msg_bytes (the (h_msgs h (mp + k)))"
  shows "merkle_verify_message H (of_nat E) (of_nat m) (main_layer_pointer c) h2 = Some 0 \<or>
    collision_between H [msg_bytes new, leaf_input H h2 mp (k div 2)]
      [msg_bytes (the (h_msgs h (mp + k))), leaf_input H h mp (k div 2)]"
proof (cases "leaf_input H h2 mp (k div 2) = leaf_input H h mp (k div 2)")
  case False
  then show ?thesis
    using verify_changed_message [OF assms(1-8,10)] assms(11) by (auto simp: collision_between_def)
next
  case True
  have h2: "h_msgs h2 = (h_msgs h)(mp + k \<mapsto> new)"
    using assms(7) built_tree_facts(2) [OF assms(1-6)] by (auto simp: write_msg_def split: if_splits)
  have "k = 2 * (k div 2) \<or> k = 2 * (k div 2) + 1" by presburger
  then have "H (msg_bytes (the (h_msgs h2 (mp + k)))) = H (msg_bytes (the (h_msgs h (mp + k))))"
  proof
    assume "k = 2 * (k div 2)"
    then have a: "mp + 2 * (k div 2) = mp + k" by simp
    show ?thesis using True assms(2) unfolding leaf_input_def a by simp
  next
    assume "k = 2 * (k div 2) + 1"
    then have a: "mp + 2 * (k div 2) + 1 = mp + k" by simp
    show ?thesis using True assms(2) unfolding leaf_input_def a by simp
  qed
  then have "H (msg_bytes new) = H (msg_bytes (the (h_msgs h (mp + k))))" by (simp add: h2)
  then show ?thesis using assms(12) by (auto simp: collision_between_def)
qed

text \<open>
  A changed message only affects its own pair: every message of another pair still verifies.
\<close>

theorem tamper_local:
  assumes "heap_wf h" "generichash_ok H" "2 \<le> E" "E \<le> 63" "msg_array h mp E"
    and "calc_merkle_tree H (of_nat E) mp h = Some (c, h')"
    and "write_msg (mp + k) new h' = Some h2" "msg_ok new" "m < 2 ^ E" "m div 2 \<noteq> k div 2"
  shows "merkle_verify_message H (of_nat E) (of_nat m) (main_layer_pointer c) h2 = Some 1"
proof -
  have "h_msgs h2 = (h_msgs h)(mp + k \<mapsto> new)"
    using assms(7) built_tree_facts(2) [OF assms(1-6)] by (auto simp: write_msg_def split: if_splits)
  moreover have "2 * (m div 2) \<noteq> k" "2 * (m div 2) + 1 \<noteq> k" using assms(10) by auto
  ultimately have "leaf_input H h2 mp (m div 2) = leaf_input H h mp (m div 2)"
    by (simp add: leaf_input_def)
  then show ?thesis using verify_changed_message [OF assms(1-9)] by simp
qed

definition demo_new :: signed_message_t where
  "demo_new = \<lparr>sm_message = Some [77], sm_length = 1, sm_public_key = replicate 32 0\<rparr>"

lemma demo_changed:
  "\<exists>c h' h2. calc_merkle_tree demo_hash 3 1 (demo_heap 8) = Some (c, h') \<and> write_msg 5 demo_new h' = Some h2"
proof -
  obtain c h' where c: "calc_merkle_tree demo_hash (of_nat 3) 1 (demo_heap 8) = Some (c, h')"
    using demo_tree by auto
  have "msg_array (demo_heap 8) 1 3" using demo_heap_ok(2) [of 3] by simp
  from built_tree_facts(2) [OF demo_heap_ok(1) demo_env_ok(3) _ _ this c]
  have "h_msgs h' 5 \<noteq> None" by (simp add: demo_heap_def)
  with c show ?thesis by (auto simp: write_msg_def)
qed

theorem tamper_detected_witness:
  "\<exists>c h' h2. calc_merkle_tree demo_hash 3 1 (demo_heap 8) = Some (c, h') \<and> write_msg 5 demo_new h' = Some h2 \<and>
    (merkle_verify_message demo_hash 3 5 (main_layer_pointer c) h2 = Some 0 \<or>
     collision_between demo_hash [[77], leaf_input demo_hash h2 1 2] [[5], leaf_input demo_hash (demo_heap 8) 1 2])"
proof -
  obtain c h' h2 where c: "calc_merkle_tree demo_hash (of_nat 3) 1 (demo_heap 8) = Some (c, h')"
    and w: "write_msg (1 + 4) demo_new h' = Some h2" using demo_changed by auto
  have a: "msg_array (demo_heap 8) 1 3" and n: "msg_ok demo_new" "msg_bytes demo_new = [77]"
    using demo_heap_ok(2) [of 3] by (simp_all add: demo_new_def msg_ok_def msg_bytes_def)
  have o: "msg_bytes (the (h_msgs (demo_heap 8) (1 + 4))) = [5]" by (simp add: demo_heap_def msg_bytes_def)
  from tamper_detected [OF demo_heap_ok(1) demo_env_ok(3) _ _ a c w n(1), of 5] n(2) o c w
  show ?thesis by auto
qed

theorem tamper_local_witness:
  "\<exists>c h' h2. calc_merkle_tree demo_hash 3 1 (demo_heap 8) = Some (c, h') \<and> write_msg 5 demo_new h' = Some h2 \<and>
    merkle_verify_message demo_hash 3 6 (main_layer_pointer c) h2 = Some 1"
proof -
  obtain c h' h2 where c: "calc_merkle_tree demo_hash (of_nat 3) 1 (demo_heap 8) = Some (c, h')"
    and w: "write_msg (1 + 4) demo_new h' = Some h2" using demo_changed by auto
  have a: "msg_array (demo_heap 8) 1 3" and n: "msg_ok demo_new"
    using demo_heap_ok(2) [of 3] by (simp_all add: demo_new_def msg_ok_def)
  from tamper_local [OF demo_heap_ok(1) demo_env_ok(3) _ _ a c w n, of 6] c w
  show ?thesis by auto
qed

section \<open>A changed node\<close>

text \<open>Overwriting the hash of one node.\<close>

definition set_node_hash :: "addr \<Rightarrow> bytes \<Rightarrow> heap \<Rightarrow> heap" where
  "set_node_hash a g h = h\<lparr>h_points := (h_points h)(a := map_option (\<lambda>p. p\<lparr>hp_hash := g\<rparr>) (h_points h a))\<rparr>"

lemma tree_shape_set_hash:
  assumes "tree_shape h msgs Ls E" "length g = 32"
  shows "tree_shape (set_node_hash a g h) msgs Ls E"
proof -
  let ?h = "set_node_hash a g h"
  have pt: "\<exists>q. h_points ?h x = Some q \<and> length (hp_hash q) = 32 \<and> hp_union q = hp_union p"
    if "h_points h x = Some p" "length (hp_hash p) = 32" for x p
    using that assms(2) by (auto simp: set_node_hash_def)
  show ?thesis
    unfolding tree_shape_def
  proof (intro conjI allI impI)
    fix k :: nat assume "k < 2 ^ (E - 1)"
    then obtain p g1 g2 where "h_points h (node_at Ls (E - 1) k) = Some p" "length (hp_hash p) = 32"
      "hp_union p = Smgs2 (msgs ! (2 * k)) g1 (msgs ! (2 * k + 1)) g2"
      using assms(1) unfolding tree_shape_def by blast
    with pt show "\<exists>p g1 g2. h_points ?h (node_at Ls (E - 1) k) = Some p \<and> length (hp_hash p) = 32 \<and>
        hp_union p = Smgs2 (msgs ! (2 * k)) g1 (msgs ! (2 * k + 1)) g2" by metis
  next
    fix j k :: nat assume "Suc j < E \<and> k < 2 ^ j"
    then obtain p where "h_points h (node_at Ls j k) = Some p" "length (hp_hash p) = 32"
      "hp_union p = Children (node_at Ls (Suc j) (2 * k)) (node_at Ls (Suc j) (2 * k + 1))"
      using assms(1) unfolding tree_shape_def by blast
    with pt show "\<exists>p. h_points ?h (node_at Ls j k) = Some p \<and> length (hp_hash p) = 32 \<and>
        hp_union p = Children (node_at Ls (Suc j) (2 * k)) (node_at Ls (Suc j) (2 * k + 1))" by metis
  qed (use assms(1) in \<open>auto simp: tree_shape_def\<close>)
qed

lemma inner_node_not_leaf:
  assumes t: "tree_built H h msgs b Ls E" and j: "Suc j < E" "n < 2 ^ j" "i < 2 ^ (E - 1)"
  shows "node_at Ls j n \<noteq> node_at Ls (E - 1) i"
proof -
  have "2 ^ Suc j \<le> (2 :: nat) ^ (E - 1)" "(2 :: nat) ^ E = 2 * 2 ^ (E - 1)"
    using j(1) by (auto intro: power_increasing simp flip: power_Suc)
  then have "layer_base b E (E - 1) + i < layer_base b E j + n"
    using j(1,3) unfolding layer_base_def by simp
  then show ?thesis
    using tree_built_node_at [OF t, of j n] tree_built_node_at [OF t, of "E - 1" i] j by simp
qed

text \<open>
  C18.  Above the first level the verification does not protect the tree: for \<open>E\<close> of at least 3 (the
  client uses 9), any node above the first level, the root included, may be overwritten with any
  32 bytes and every message still verifies.  The loop over the upper layers returns 1 on a mismatch.
\<close>

theorem forged_node_accepted:
  assumes "heap_wf h" "generichash_ok H" "3 \<le> E" "E \<le> 63" "msg_array h mp E"
    and "calc_merkle_tree H (of_nat E) mp h = Some (c, h')" "m < 2 ^ E"
    and "Suc j < E" "n < 2 ^ j" "length g = crypto_generichash_BYTES"
  shows "merkle_verify_message H (of_nat E) (of_nat m) (main_layer_pointer c)
           (set_node_hash (node_at (main_layer_pointer c) j n) g h') = Some 1"
proof -
  have E: "2 \<le> E" "0 < E" using assms(3) by simp_all
  note f = built_tree_facts [OF assms(1,2) E(1) assms(4-6)]
  let ?msgs = "map (\<lambda>i. mp + i) [0 ..< 2 ^ E]" and ?Ls = "main_layer_pointer c"
  let ?a = "node_at ?Ls j n"
  let ?h = "set_node_hash ?a g h'"
  have ms: "h_msgs ?h = h_msgs h'" by (simp add: set_node_hash_def)
  have shape: "tree_shape ?h ?msgs ?Ls E"
    using tree_built_shape [OF f(1) assms(2)] assms(10) by (intro tree_shape_set_hash) simp_all
  have live: "msgs_live ?h ?msgs"
    using assms(5) ms f(2) unfolding msgs_live_array by (simp add: msg_array_def)
  have "node_at ?Ls (E - 1) (m div 2) \<noteq> ?a"
    using inner_node_not_leaf [OF f(1) assms(8,9), of "m div 2"] pair_bound(2) [OF assms(7) E(2)] by simp
  then have "hash_at ?h ?Ls (E - 1) (m div 2) = hash_at h' ?Ls (E - 1) (m div 2)"
    by (simp add: hash_at_def point_hash_def set_node_hash_def)
  then have "leaf_ok H ?h ?msgs ?Ls E m"
    using built_leaf_hash [OF f(1) assms(7)] ms E(2) assms(7) by (simp add: leaf_ok_array leaf_input_def)
  then show ?thesis
    using merkle_verify_decides [OF shape live assms(2) E(1) assms(4,7)] assms(3) by simp
qed

theorem forged_node_accepted_witness:
  "\<exists>c h'. calc_merkle_tree demo_hash 3 1 (demo_heap 8) = Some (c, h') \<and>
    merkle_verify_message demo_hash 3 5 (main_layer_pointer c)
      (set_node_hash (node_at (main_layer_pointer c) 0 0) (replicate 32 255) h') = Some 1"
proof -
  obtain c h' where c: "calc_merkle_tree demo_hash (of_nat 3) 1 (demo_heap 8) = Some (c, h')"
    using demo_tree by auto
  have a: "msg_array (demo_heap 8) 1 3" using demo_heap_ok(2) [of 3] by simp
  from forged_node_accepted [OF demo_heap_ok(1) demo_env_ok(3) _ _ a c, of 5 0 0 "replicate 32 255"] c
  show ?thesis by auto
qed

section \<open>Binding, release, lookup\<close>

text \<open>
  C17.  The root commits to the messages: if the trees over two message arrays have the same root hash,
  then the arrays hold the same texts in the same order, or two different inputs hashed for the two
  trees, message texts or concatenated pairs of hashes, have the same hash.
\<close>

theorem merkle_root_binding:
  assumes "heap_wf h1" "heap_wf h2" "generichash_ok H" "0 < E" "E \<le> 63"
    and "msg_array h1 mp1 E" "msg_array h2 mp2 E"
    and "calc_merkle_tree H (of_nat E) mp1 h1 = Some (c1, h1')"
    and "calc_merkle_tree H (of_nat E) mp2 h2 = Some (c2, h2')"
    and "map_option hp_hash (layer_point (main_layer_pointer c1) 0 0 h1') =
         map_option hp_hash (layer_point (main_layer_pointer c2) 0 0 h2')"
  shows "array_texts h1 mp1 E = array_texts h2 mp2 E \<or>
    collision_between H
      (array_texts h1 mp1 E @ merge_inputs H E (map H (array_texts h1 mp1 E)))
      (array_texts h2 mp2 E @ merge_inputs H E (map H (array_texts h2 mp2 E)))"
proof -
  let ?t1 = "array_texts h1 mp1 E" and ?t2 = "array_texts h2 mp2 E"
  have "mroot H E (map H ?t1) = mroot H E (map H ?t2)"
    using tree_root_hash [OF assms(1,3-5,6,8)] tree_root_hash [OF assms(2,3-5,7,9)] assms(10) by simp
  then have "map H ?t1 = map H ?t2 \<or>
      collision_between H (merge_inputs H E (map H ?t1)) (merge_inputs H E (map H ?t2))"
    using assms(3) by (intro mroot_binding) (auto simp: array_texts_def)
  then show ?thesis
  proof
    assume eq: "map H ?t1 = map H ?t2"
    show ?thesis
    proof (cases "?t1 = ?t2")
      case False
      have len: "length ?t1 = length ?t2" by (simp add: array_texts_def)
      with False obtain i where i: "i < length ?t1" "?t1 ! i \<noteq> ?t2 ! i" by (auto simp: list_eq_iff_nth_eq)
      then have "H (?t1 ! i) = H (?t2 ! i)" using eq len by (metis nth_map)
      moreover have "?t1 ! i \<in> set ?t1" "?t2 ! i \<in> set ?t2" using i(1) len by (metis nth_mem)+
      ultimately show ?thesis using i(2) by (auto simp: collision_between_def)
    qed simp
  next
    assume "collision_between H (merge_inputs H E (map H ?t1)) (merge_inputs H E (map H ?t2))"
    then show ?thesis by (auto simp: collision_between_def)
  qed
qed

theorem merkle_root_binding_witness:
  "\<exists>c h'. calc_merkle_tree demo_hash 3 1 (demo_heap 8) = Some (c, h') \<and>
    (array_texts (demo_heap 8) 1 3 = array_texts (demo_heap 8) 1 3 \<or>
     collision_between demo_hash
       (array_texts (demo_heap 8) 1 3 @ merge_inputs demo_hash 3 (map demo_hash (array_texts (demo_heap 8) 1 3)))
       (array_texts (demo_heap 8) 1 3 @ merge_inputs demo_hash 3 (map demo_hash (array_texts (demo_heap 8) 1 3))))"
proof -
  obtain c h' where c: "calc_merkle_tree demo_hash (of_nat 3) 1 (demo_heap 8) = Some (c, h')"
    using demo_tree by auto
  have a: "msg_array (demo_heap 8) 1 3" using demo_heap_ok(2) [of 3] by simp
  from merkle_root_binding [OF demo_heap_ok(1) demo_heap_ok(1) demo_env_ok(3) _ _ a a c c] c
  show ?thesis by auto
qed

text \<open>
  No node leaks and none is freed twice: after \<open>calc_merkle_tree\<close>, releasing the layers with
  \<open>destoroy_a_layer\<close> one after another succeeds and leaves the hash points and messages as they were
  before the tree was built.
\<close>

theorem tree_released_completely:
  assumes "heap_wf h" "generichash_ok H" "0 < E" "E \<le> 63" "msg_array h mp E"
  shows "\<exists>c h' h''. calc_merkle_tree H (of_nat E) mp h = Some (c, h') \<and>
    destroy_layers (layers_for_destr c) h' = Some h'' \<and>
    h_points h'' = h_points h \<and> h_msgs h'' = h_msgs h"
proof -
  obtain Ls h' where "calc_merkle_tree H (of_nat E) mp h = Some (\<lparr>main_layer_pointer = Ls,
      layers_for_destr = Ls, messages_arr = map (\<lambda>i. mp + i) [0 ..< 2 ^ E]\<rparr>, h')"
    and t: "tree_built H h' (map (\<lambda>i. mp + i) [0 ..< 2 ^ E]) (h_next h) Ls E"
    and h': "heap_wf h'" "h_msgs h' = h_msgs h" "\<forall>a < h_next h. h_points h' a = h_points h a"
    using calc_merkle_tree_build [OF assms] by blast
  moreover obtain h'' where "destroy_layers Ls h' = Some h''" "h_points h'' = h_points h" "h_msgs h'' = h_msgs h'"
    using destroy_layers_built [OF t assms(2,4,1) h'(1,3)] by blast
  ultimately show ?thesis by (metis l_msg_container.select_convs(2))
qed

theorem tree_released_completely_witness:
  "\<exists>c h' h''. calc_merkle_tree demo_hash 3 1 (demo_heap 8) = Some (c, h') \<and>
    destroy_layers (layers_for_destr c) h' = Some h'' \<and> h_points h'' = Map.empty"
  using tree_released_completely [OF demo_heap_ok(1) demo_env_ok(3), of 3 8 1] demo_heap_ok(2) [of 3]
  by (fastforce simp: demo_heap_def)

text \<open>
  The messages are found again through the first level: \<open>get_s_msg_from_L0\<close> on the lowest layer
  returns the addresses of messages \<open>2 * n\<close> and \<open>2 * n + 1\<close>, and two null pointers past the end.
\<close>

theorem messages_from_first_level:
  assumes "heap_wf h" "generichash_ok H" "0 < E" "E \<le> 63" "msg_array h mp E"
    and "calc_merkle_tree H (of_nat E) mp h = Some (c, h')" "n < 2 ^ 64"
  shows "\<exists>L. main_layer_pointer c ! (E - 1) = Some L \<and>
    get_s_msg_from_L0 L (of_nat n) h' =
      Some (if n < 2 ^ (E - 1) then \<lparr>ml_msg1 = mp + 2 * n, ml_msg2 = mp + 2 * n + 1\<rparr>
            else \<lparr>ml_msg1 = NULL, ml_msg2 = NULL\<rparr>)"
proof -
  have t: "tree_built H h' (map (\<lambda>i. mp + i) [0 ..< 2 ^ E]) (h_next h) (main_layer_pointer c) E"
    using calc_merkle_tree_build [OF assms(1-5)] assms(6) by auto
  obtain lev where L: "main_layer_pointer c ! (E - 1) = Some \<lparr>ly_main_pointer =
      [layer_base (h_next h) E (E - 1) ..< layer_base (h_next h) E (E - 1) + 2 ^ (E - 1)],
      ly_size = of_nat (2 ^ (E - 1)), ly_level = lev\<rparr>"
    using t assms(3) unfolding tree_built_def tree_part_def by (metis diff_less le0 zero_less_one)
  have "(2 :: nat) ^ (E - 1) < 2 ^ 64" by (rule power_strict_increasing) (use assms(4) in simp_all)
  then have u: "unat (of_nat n :: u64) = n" "unat (of_nat (2 ^ (E - 1)) :: u64) = 2 ^ (E - 1)"
    using assms(7) by (blast intro: unat_of_nat_u64)+
  have u': "unat (of_nat (2 ^ (E - Suc 0)) :: u64) = 2 ^ (E - Suc 0)" using u(2) by (simp only: One_nat_def)
  show ?thesis
  proof (cases "n < 2 ^ (E - 1)")
    case True
    have "h_points h' (layer_base (h_next h) E (E - 1) + n) = Some (message_node H h'
        (map (\<lambda>i. mp + i) [0 ..< 2 ^ E] ! (2 * n)) (map (\<lambda>i. mp + i) [0 ..< 2 ^ E] ! (2 * n + 1)))"
      using t True by (simp add: tree_built_def tree_part_def)
    moreover have "2 * n + 1 < 2 ^ E"
      using True pair_bound(1) [of "2 * n" E] assms(3) by (cases E) auto
    ultimately show ?thesis
      using L True unfolding get_s_msg_from_L0_def word_le_nat_alt by (simp add: u u' message_node_def del: of_nat_power)
  next
    case False
    then show ?thesis
      using L unfolding get_s_msg_from_L0_def word_le_nat_alt by (simp add: u u' del: of_nat_power)
  qed
qed

theorem messages_from_first_level_witness:
  "\<exists>c h' L. calc_merkle_tree demo_hash 3 1 (demo_heap 8) = Some (c, h') \<and>
    main_layer_pointer c ! 2 = Some L \<and> get_s_msg_from_L0 L 3 h' = Some \<lparr>ml_msg1 = 7, ml_msg2 = 8\<rparr>"
proof -
  obtain c h' where c: "calc_merkle_tree demo_hash (of_nat 3) 1 (demo_heap 8) = Some (c, h')"
    using demo_tree by auto
  have a: "msg_array (demo_heap 8) 1 3" using demo_heap_ok(2) [of 3] by simp
  from messages_from_first_level [OF demo_heap_ok(1) demo_env_ok(3) _ _ a c, of 3] c
  show ?thesis by auto
qed

section \<open>From the root to a block\<close>

lemma processing_block_ok:
  assumes "env_ok E" "env_thrd_create E (h_tick h)" "\<forall>t. env_time E t < 200000000000"
    and "layer_point (main_layer_pointer c) 0 0 h = Some p" "length (hp_hash p) = crypto_generichash_BYTES"
    and "first_hit E (hp_hash p) 3 (Suc (h_tick h)) n"
  shows "\<exists>b h'. processing_block E c h = Some (b, h') \<and> block_wf b \<and>
    blk_nonce b = nonce_at E (Suc (h_tick h) + n) \<and>
    puzzle_solved (env_generichash E) (hp_hash p) 3 (blk_nonce b) \<and>
    blk_merkle_root b = env_generichash E (hp_hash p) \<and>
    blk_previous_block b = replicate 32 0 \<and> blk_difficulty b = 0 \<and>
    h_msgs h' = h_msgs h \<and> h_points h' = h_points h \<and> h_next h' = h_next h \<and> 0 \<in> set (blk_date b)"
proof -
  let ?H = "env_generichash E" and ?root = "hp_hash p"
  have H: "generichash_ok ?H" and len: "length ?root = 32" using assms(1,5) by (simp_all add: env_ok_def)
  let ?h1 = "h\<lparr>h_tick := Suc (Suc (h_tick h) + n)\<rparr>" and ?nonce = "nonce_at E (Suc (h_tick h) + n)"
  have solve: "solve_puzzle_fixed_diff E \<lparr>pc_merkle_root_p = ?root, pc_nonce = calloc 15\<rparr> (tick h) =
      Some (\<lparr>pc_merkle_root_p = ?root, pc_nonce = ?nonce\<rparr>, ?h1)"
    using solve_puzzle_fixed_diff_decides(1) [OF assms(1), of "\<lparr>pc_merkle_root_p = ?root, pc_nonce = calloc 15\<rparr>" "tick h" n]
      assms(6) len by (simp add: tick_def)
  obtain b where b: "create_block_dummy E None ?root ?h1 = Some (b, tick (tick ?h1))" "block_wf b"
      "blk_merkle_root b = ?H ?root" "blk_previous_block b = replicate 32 0" "blk_difficulty b = 0"
      "0 \<in> set (take 24 (blk_date b))"
    using create_block_dummy_eq [OF H assms(5), of ?h1 None] assms(3) by auto
  have date: "0 \<in> set (blk_date b)" using b(6) set_take_subset [of 24 "blk_date b"] by blast
  have nonce: "length ?nonce = 15" "puzzle_solved ?H ?root 3 ?nonce"
    using assms(6) by (simp_all add: first_hit_def puzzle_solved_def)
  have "DumpHex E ?root 32 = Some (dump_rows ?root)" "DumpHex E (?H ?root) 32 = Some (dump_rows (?H ?root))"
    using DumpHex_eq [of E ?root] DumpHex_eq [of E "?H ?root"] len H by simp_all
  moreover have "calc_hashof_hash ?H ?root = Some (?H ?root)" using len by (simp add: calc_hashof_hash_def)
  moreover have "memcpy (indeterminate E 32) ?root 32 = Some ?root" using len by (simp add: memcpy_full)
  ultimately show ?thesis
    using solve b(1-5) date nonce assms(2,4)
    by (auto simp: processing_block_def set_nonce_to_block_def set_prev_block_hash_def block_wf_def
        memcpy_full memset_full split_beta)
qed

text \<open>
  C16.  What the client publishes: \<open>processing_block\<close> returns when some drawn nonce solves the puzzle
  of difficulty 3 over the Merkle root.  The block holds that nonce, the hash of the root (not the root
  itself), difficulty 0 and an all-zero predecessor: blocks are not linked.
\<close>

theorem processing_block_result:
  assumes "env_ok E" "env_thrd_create E (h_tick h)" "\<forall>t. env_time E t < 200000000000"
    and "layer_point (main_layer_pointer c) 0 0 h = Some p" "length (hp_hash p) = crypto_generichash_BYTES"
    and "first_hit E (hp_hash p) 3 (Suc (h_tick h)) n"
  shows "\<exists>b h'. processing_block E c h = Some (b, h') \<and> block_wf b \<and>
    blk_nonce b = nonce_at E (Suc (h_tick h) + n) \<and>
    puzzle_solved (env_generichash E) (hp_hash p) 3 (blk_nonce b) \<and>
    blk_merkle_root b = env_generichash E (hp_hash p) \<and>
    blk_previous_block b = replicate 32 0 \<and> blk_difficulty b = 0 \<and>
    h_msgs h' = h_msgs h \<and> h_points h' = h_points h"
  using processing_block_ok [OF assms] by blast

lemma demo_env_ok2: "env_ok demo_env"
  using demo_env_ok by (simp add: env_ok_def demo_env_def)

theorem processing_block_result_witness:
  "\<exists>c h' b h''. calc_merkle_tree demo_hash 3 1 (demo_heap 8\<lparr>h_tick := 253\<rparr>) = Some (c, h') \<and>
     processing_block demo_env c h' = Some (b, h'') \<and> blk_nonce b = replicate 15 0"
proof -
  let ?h = "demo_heap 8\<lparr>h_tick := 253\<rparr>"
  have ok: "heap_wf ?h" "msg_array ?h 1 3"
    using demo_heap_ok(1) [of 8] demo_heap_ok(2) [of 3] by (simp_all add: heap_wf_def msg_array_def)
  obtain c h' where c: "calc_merkle_tree demo_hash (of_nat 3) 1 ?h = Some (c, h')" "h_tick h' = 253"
    using calc_merkle_tree_build [OF ok(1) demo_env_ok(3) _ _ ok(2)] by auto
  obtain p where p: "layer_point (main_layer_pointer c) 0 0 h' = Some p"
      "hp_hash p = mroot demo_hash 3 (map demo_hash (array_texts ?h 1 3))"
    using tree_root_hash [OF ok(1) demo_env_ok(3) _ _ ok(2) c(1)] by auto
  have len: "length (hp_hash p) = 32" using p(2) mroot_length [OF demo_env_ok(3), of 3] by simp
  have "first_hit demo_env (hp_hash p) 3 254 2"
    by (auto simp: first_hit_def puzzle_solved_def nonce_at_def demo_env_def less_2_cases_iff)
  then obtain b h'' where "processing_block demo_env c h' = Some (b, h'')" "blk_nonce b = nonce_at demo_env 256"
    using processing_block_result [OF demo_env_ok2 _ _ p(1), of 2] len c(2) by (auto simp: demo_env_def)
  then show ?thesis using c by (auto simp: nonce_at_def demo_env_def)
qed

end
