(* ===== verification/Server.thy ===== *)
theory Server
  imports DataHandlers Wire Requests BlockProcess
begin

text \<open>
  The message server: \<open>networking/setup.c\<close>, \<open>networking/connection_handlers.c\<close> and
  \<open>networking/event_loop.c\<close>.  The state record holds the process globals; a submitted io_uring entry is
  an operation with its 64-bit tag, and the ring is the list of entries submitted.  A send captures the
  bytes of the buffer at submission.  One iteration of the event loop is a function of the completion it
  waits for; the loop is a step relation in which the kernel may also write received bytes into a buffer.
  Descriptors are 32-bit words; an array access out of range is a fault.
\<close>

section \<open>State\<close>

definition MAX_CONNECTIONS :: nat where
  "MAX_CONNECTIONS = 1000"

definition BUFFER_SIZE :: nat where
  "BUFFER_SIZE = 4096"

definition N_MESSAGES :: u64 where
  "N_MESSAGES = 512"

text \<open>\<open>sizeof(IpcMessage)\<close> with 8-byte pointers.\<close>

definition sizeof_IpcMessage :: nat where
  "sizeof_IpcMessage = 96"

lemmas server_consts [simp] = MAX_CONNECTIONS_def BUFFER_SIZE_def N_MESSAGES_def sizeof_IpcMessage_def

datatype uring_op =
    is_Op_accept: Op_accept
  | is_Op_send: Op_send (op_fd: u32) (op_data: bytes)
  | is_Op_recv: Op_recv (op_fd: u32)
  | is_Op_unprepared: Op_unprepared

type_synonym sqe = "uring_op \<times> u64"

record cqe =
  cq_res :: u32
  cq_user_data :: u64

record server =
  sv_heap :: heap
  sv_CBUF :: circ_buf_t
  sv_buffers :: "bytes list"
  sv_lengths :: "u64 list"
  sv_sended_N :: "u64 list"
  sv_ring :: "sqe list"
  sv_current_fd :: u32
  sv_closed :: "u32 list"

section \<open>Setup\<close>

text \<open>The buffers come from \<open>malloc\<close>: their first contents are indeterminate.\<close>

definition setup_buffers :: "env \<Rightarrow> heap \<Rightarrow> server" where
  "setup_buffers E h = \<lparr>sv_heap = h, sv_CBUF = create_circ_buf (replicate 512 NULL),
     sv_buffers = replicate MAX_CONNECTIONS (indeterminate E BUFFER_SIZE),
     sv_lengths = replicate MAX_CONNECTIONS 0, sv_sended_N = replicate MAX_CONNECTIONS 0,
     sv_ring = [], sv_current_fd = - 1, sv_closed = []\<rparr>"

section \<open>Connection handlers\<close>

text \<open>Index of a client's buffer, and the check on its \<open>IpcMessage\<close>, which is found at
  \<open>client_fd * sizeof(IpcMessage)\<close> in an array of 1000 elements.\<close>

definition get_client_buffer :: "u32 \<Rightarrow> nat option" where
  "get_client_buffer client_fd = do {
     require (unat client_fd < MAX_CONNECTIONS);
     Some (unat client_fd)
   }"

definition get_ipc_msg_buffer :: "u32 \<Rightarrow> nat option" where
  "get_ipc_msg_buffer client_fd = do {
     require (unat client_fd * sizeof_IpcMessage < MAX_CONNECTIONS);
     Some (unat client_fd * sizeof_IpcMessage)
   }"

text \<open>The third array, of signed messages, is indexed the same way; nothing uses it.\<close>

definition sizeof_signed_message_t :: nat where
  "sizeof_signed_message_t = 8 + 8 + crypto_sign_PUBLICKEYBYTES"

definition get_signed_message_buffer :: "u32 \<Rightarrow> nat option" where
  "get_signed_message_buffer client_fd = do {
     require (unat client_fd * sizeof_signed_message_t < MAX_CONNECTIONS);
     Some (unat client_fd * sizeof_signed_message_t)
   }"

definition submit :: "uring_op \<Rightarrow> u64 \<Rightarrow> server \<Rightarrow> server" where
  "submit op data sv = sv\<lparr>sv_ring := sv_ring sv @ [(op, data)]\<rparr>"

definition request_SEND_STATUS ::
  "protobuf \<Rightarrow> env \<Rightarrow> u32 \<Rightarrow> IpcMessage__Status \<Rightarrow> server \<Rightarrow> server option" where
  "request_SEND_STATUS PB E client_fd status sv = do {
     _ \<leftarrow> get_ipc_msg_buffer client_fd;
     i \<leftarrow> get_client_buffer client_fd;
     (n, buf, h) \<leftarrow> send_ONLY_status_code PB E (sv_buffers sv ! i) status (sv_heap sv);
     let sv = sv\<lparr>sv_buffers := (sv_buffers sv)[i := buf], sv_lengths := (sv_lengths sv)[i := of_nat n],
                 sv_heap := h\<rparr>;
     Some (submit (Op_send client_fd (take n buf)) (make_request_data client_fd (flag_num READ_RESPONSE)) sv)
   }"

definition request_ASK_NEED_MSG :: "protobuf \<Rightarrow> env \<Rightarrow> u32 \<Rightarrow> server \<Rightarrow> server option" where
  "request_ASK_NEED_MSG PB E client_fd sv =
     request_SEND_STATUS PB E client_fd IPC_MESSAGE__STATUS__ASK_NEED_MSG sv"

definition calc_merkle_tree_server :: "env \<Rightarrow> addr list \<Rightarrow> heap \<Rightarrow> heap option" where
  "calc_merkle_tree_server E msg_pointer h = do {
     let EXPONENT = (9 :: u64);
     let n_msg = push_bit (unat EXPONENT) (1 :: u64);
     require (unat n_msg \<le> length msg_pointer);
     let msg_arr = take (unat n_msg) msg_pointer;
     (L_arrays, L_arrays_p, h) \<leftarrow> merkle_layers (env_generichash E) EXPONENT n_msg msg_arr h;
     root \<leftarrow> layer_point L_arrays 0 0 h;
     _ \<leftarrow> DumpHex E (hp_hash root) crypto_generichash_BYTES;
     destroy_layers L_arrays h
   }"

text \<open>The entry taken for the closing request is never prepared: it still describes whatever operation
  used it before.\<close>

definition FINISH_SENDING :: "env \<Rightarrow> u32 \<Rightarrow> server \<Rightarrow> server option" where
  "FINISH_SENDING E client_fd sv = do {
     let sv = sv\<lparr>sv_CBUF := (sv_CBUF sv)\<lparr>cb_fill_size := 0\<rparr>\<rparr>;
     require (unat client_fd < length (sv_sended_N sv));
     let sv = sv\<lparr>sv_sended_N := (sv_sended_N sv)[unat client_fd := 0]\<rparr>;
     h \<leftarrow> calc_merkle_tree_server E (cb_buffer (sv_CBUF sv)) (sv_heap sv);
     Some (submit Op_unprepared (make_request_data client_fd (flag_num FLAG_CLOSE_CONNECTION)) (sv\<lparr>sv_heap := h\<rparr>))
   }"

definition handle_response_NEED_MORE_MSG :: "protobuf \<Rightarrow> env \<Rightarrow> u32 \<Rightarrow> server \<Rightarrow> server option" where
  "handle_response_NEED_MORE_MSG PB E client_fd sv = do {
     require (unat client_fd < length (sv_sended_N sv));
     (if N_MESSAGES \<le> sv_sended_N sv ! unat client_fd
      then request_SEND_STATUS PB E client_fd IPC_MESSAGE__STATUS__ALL_BLOCK_MSG_SENDED sv
      else do {
        i \<leftarrow> get_client_buffer client_fd;
        buf \<leftarrow> memset (sv_buffers sv ! i) 0 BUFFER_SIZE;
        (a_msg_p, cb, h) \<leftarrow> GET_nth_circ_buf E (sv_CBUF sv) (sv_sended_N sv ! unat client_fd) (sv_heap sv);
        _ \<leftarrow> get_ipc_msg_buffer client_fd;
        (n, buf, h) \<leftarrow> serialize_data_v2 PB E buf a_msg_p h;
        let sv = submit (Op_send client_fd (take n buf)) (make_request_data client_fd (flag_num READ_RESPONSE))
          (sv\<lparr>sv_CBUF := cb, sv_heap := h, sv_buffers := (sv_buffers sv)[i := buf],
              sv_lengths := (sv_lengths sv)[i := of_nat n]\<rparr>);
        Some (sv\<lparr>sv_sended_N := (sv_sended_N sv)[i := sv_sended_N sv ! i + 1]\<rparr>)
      })
   }"

definition READ_STATUS_RESPONSE :: "u32 \<Rightarrow> server \<Rightarrow> server option" where
  "READ_STATUS_RESPONSE client_fd sv = do {
     i \<leftarrow> get_client_buffer client_fd;
     Some (submit (Op_recv client_fd) (make_request_data client_fd (flag_num TEST_RESPONSE))
       (sv\<lparr>sv_lengths := (sv_lengths sv)[i := 0]\<rparr>))
   }"

definition add_accept_request :: "server \<Rightarrow> server" where
  "add_accept_request sv = submit Op_accept (make_request_data 0 (flag_num FLAG_ACCEPT)) sv"

definition add_close_request :: "u32 \<Rightarrow> server \<Rightarrow> server" where
  "add_close_request client_fd sv = submit Op_unprepared (make_request_data client_fd (flag_num FLAG_READ)) sv"

definition add_write_request :: "u32 \<Rightarrow> nat \<Rightarrow> server \<Rightarrow> server option" where
  "add_write_request client_fd nbytes sv = do {
     i \<leftarrow> get_client_buffer client_fd;
     require (nbytes \<le> length (sv_buffers sv ! i));
     Some (submit (Op_send client_fd (take nbytes (sv_buffers sv ! i)))
       (make_request_data client_fd (flag_num FLAG_WRITE)) sv)
   }"

section \<open>The event loop\<close>

definition event_loop_start :: "env \<Rightarrow> server \<Rightarrow> server option" where
  "event_loop_start E sv = do {
     (_, cb, h) \<leftarrow> PUSH_msg_circ_buf E (sv_CBUF sv) (sv_heap sv);
     Some (add_accept_request (sv\<lparr>sv_CBUF := cb, sv_heap := h, sv_current_fd := - 1\<rparr>))
   }"

definition test_response :: "protobuf \<Rightarrow> env \<Rightarrow> cqe \<Rightarrow> server \<Rightarrow> server option" where
  "test_response PB E c sv = (
     let fd = request_data_client_fd (cq_user_data c) in
     if 0 < sint (cq_res c) then do {
       i \<leftarrow> get_client_buffer (ucast (cq_user_data c));
       status \<leftarrow> read_ONLY_STATUS_response PB (sv_buffers sv ! i) (unat (cq_res c));
       (if status = ipc_code IPC_MESSAGE__STATUS__NEED_MORE then
          handle_response_NEED_MORE_MSG PB E (ucast (cq_user_data c)) sv
        else if status = ipc_code IPC_MESSAGE__STATUS__ACKN_OK then request_ASK_NEED_MSG PB E fd sv
        else if status = ipc_code IPC_MESSAGE__STATUS__ENOUGH then FINISH_SENDING E fd sv
        else Some sv)
     } else Some sv)"

definition event_loop_step :: "protobuf \<Rightarrow> env \<Rightarrow> cqe \<Rightarrow> server \<Rightarrow> server option" where
  "event_loop_step PB E c sv = (
     let t = request_data_event_type (cq_user_data c);
         fd = request_data_client_fd (cq_user_data c) in
     if t = flag_num FLAG_ACCEPT then
       request_ASK_NEED_MSG PB E (cq_res c)
         ((add_accept_request sv)\<lparr>sv_current_fd := request_data_client_fd (scast (cq_res c))\<rparr>)
     else if t = flag_num READ_RESPONSE then
       (if cq_res c \<noteq> 0 then READ_STATUS_RESPONSE fd sv else Some sv)
     else if t = flag_num WAIT_ACKNOWLEDGEMENT then Some sv
     else if t = flag_num FLAG_CLOSE_CONNECTION then do {
       require (unat fd < length (sv_sended_N sv));
       Some (sv\<lparr>sv_closed := sv_closed sv @ [sv_current_fd sv],
                sv_sended_N := (sv_sended_N sv)[unat fd := 0]\<rparr>)
     }
     else if t = flag_num TEST_RESPONSE then test_response PB E c sv
     else Some sv)"

text \<open>What may happen: a tag that was submitted completes with any result, and the kernel fills the
  buffer of a pending receive.\<close>

inductive server_reach :: "protobuf \<Rightarrow> env \<Rightarrow> heap \<Rightarrow> server \<Rightarrow> bool" for PB E h0 where
  start: "event_loop_start E (setup_buffers E h0) = Some sv \<Longrightarrow> server_reach PB E h0 sv"
| receive: "server_reach PB E h0 sv \<Longrightarrow> (Op_recv fd, d) \<in> set (sv_ring sv) \<Longrightarrow> length data \<le> BUFFER_SIZE \<Longrightarrow>
    server_reach PB E h0 (sv\<lparr>sv_buffers := (sv_buffers sv)[unat fd := data @ drop (length data) (sv_buffers sv ! unat fd)]\<rparr>)"
| complete: "server_reach PB E h0 sv \<Longrightarrow> (op, d) \<in> set (sv_ring sv) \<Longrightarrow>
    event_loop_step PB E \<lparr>cq_res = r, cq_user_data = d\<rparr> sv = Some sv' \<Longrightarrow> server_reach PB E h0 sv'"

end
