(* ===== verification/ServerInv.thy ===== *)
theory ServerInv
  imports Server
begin

text \<open>
  Properties of the message server: the invariant of its event loop, in which order messages go out, for
  which descriptors it works, and what an early or late \<open>ENOUGH\<close> does.
\<close>

section \<open>The invariant\<close>

definition server_inv :: "env \<Rightarrow> server \<Rightarrow> bool" where
  "server_inv E sv \<longleftrightarrow> serving E (sv_CBUF sv) (sv_heap sv) \<and>
     length (sv_buffers sv) = MAX_CONNECTIONS \<and> (\<forall>b \<in> set (sv_buffers sv). length b = BUFFER_SIZE) \<and>
     length (sv_lengths sv) = MAX_CONNECTIONS \<and> length (sv_sended_N sv) = MAX_CONNECTIONS \<and>
     (\<forall>n \<in> set (sv_sended_N sv). n \<le> N_MESSAGES)"

definition server_ok :: "env \<Rightarrow> bool" where
  "server_ok E \<longleftrightarrow> server_env E \<and> generichash_ok (env_generichash E)"

lemma good_msg_msgs: "h_msgs h' = h_msgs h \<Longrightarrow> good_msg E h' a = good_msg E h a"
  by (simp add: good_msg_def)

lemma serving_same_msgs:
  assumes "serving E cb h" "h_msgs h' = h_msgs h" "heap_wf h'"
  shows "serving E cb h'"
  using assms good_msg_msgs [OF assms(2)] by (simp add: serving_def slots_ok_def)

lemma serving_tick [simp]: "serving E cb (tick h) = serving E cb h"
  by (simp add: serving_def slots_ok_def good_msg_def)

lemma memcpy_at_length: "memcpy_at d off s n = Some r \<Longrightarrow> length r = length d"
  by (auto simp: memcpy_at_eq_Some)

lemma ipc_pack_length: "ipc_message__pack PB m buf = Some (n, buf') \<Longrightarrow> length buf' = length buf"
  by (auto simp: ipc_message__pack_def Let_def bind_eq_Some_conv dest: memcpy_at_length)

lemma send_status_heap:
  "send_ONLY_status_code PB E buf st h = Some (n, buf', h') \<Longrightarrow> h' = tick h \<and> length buf' = length buf"
  by (auto simp: send_ONLY_status_code_def Let_def bind_eq_Some_conv split_beta split: if_splits dest!: ipc_pack_length)

lemma serialize_heap:
  "serialize_data_v2 PB E buf a h = Some (n, buf', h') \<Longrightarrow> h' = tick (tick h) \<and> length buf' = length buf"
  by (auto simp: serialize_data_v2_def get_timestamp_def Let_def bind_eq_Some_conv split_beta
      split: if_splits dest!: ipc_pack_length)

lemma submit_simps [simp]:
  "sv_heap (submit op d sv) = sv_heap sv" "sv_CBUF (submit op d sv) = sv_CBUF sv"
  "sv_buffers (submit op d sv) = sv_buffers sv" "sv_lengths (submit op d sv) = sv_lengths sv"
  "sv_sended_N (submit op d sv) = sv_sended_N sv" "sv_ring (submit op d sv) = sv_ring sv @ [(op, d)]"
  by (simp_all add: submit_def)

lemma server_inv_submit [simp]: "server_inv E (submit op d sv) = server_inv E sv"
  by (simp add: server_inv_def)

lemma request_SEND_STATUS_inv:
  assumes "server_inv E sv" "request_SEND_STATUS PB E fd st sv = Some sv'"
  shows "server_inv E sv'"
proof -
  let ?i = "unat fd"
  obtain n buf h where i: "?i < MAX_CONNECTIONS"
    and s: "send_ONLY_status_code PB E (sv_buffers sv ! ?i) st (sv_heap sv) = Some (n, buf, h)"
    and sv': "sv' = submit (Op_send fd (take n buf)) (make_request_data fd (flag_num READ_RESPONSE))
      (sv\<lparr>sv_buffers := (sv_buffers sv)[?i := buf], sv_lengths := (sv_lengths sv)[?i := of_nat n], sv_heap := h\<rparr>)"
    using assms(2) by (auto simp: request_SEND_STATUS_def get_client_buffer_def bind_eq_Some_conv Let_def split: if_splits)
  have "length (sv_buffers sv ! ?i) = BUFFER_SIZE" using assms(1) i by (simp add: server_inv_def)
  then have "h = tick (sv_heap sv)" "length buf = BUFFER_SIZE" using send_status_heap [OF s] by simp_all
  then show ?thesis
    using assms(1) unfolding sv' by (auto simp: server_inv_def dest!: set_update_subset_insert [THEN subsetD])
qed

lemma handle_NEED_MORE_inv:
  assumes E: "server_env E" and inv: "server_inv E sv"
    and st: "handle_response_NEED_MORE_MSG PB E fd sv = Some sv'"
  shows "server_inv E sv'"
proof (cases "N_MESSAGES \<le> sv_sended_N sv ! unat fd")
  case True
  then show ?thesis
    using st request_SEND_STATUS_inv [OF inv]
    by (auto simp: handle_response_NEED_MORE_MSG_def bind_eq_Some_conv split: if_splits)
next
  case False
  let ?i = "unat fd" and ?N = "sv_sended_N sv ! unat fd"
  have N: "unat ?N < CIRC_BUF_SIZE" using False by (simp add: word_less_nat_alt not_le)
  from st False obtain buf0 a cb h n buf h' where i: "?i < MAX_CONNECTIONS"
    and b: "memset (sv_buffers sv ! ?i) 0 BUFFER_SIZE = Some buf0"
    and g: "GET_nth_circ_buf E (sv_CBUF sv) ?N (sv_heap sv) = Some (a, cb, h)"
    and s: "serialize_data_v2 PB E buf0 a h = Some (n, buf, h')"
    and sv': "sv' = (submit (Op_send fd (take n buf)) (make_request_data fd (flag_num READ_RESPONSE))
          (sv\<lparr>sv_CBUF := cb, sv_heap := h', sv_buffers := (sv_buffers sv)[?i := buf],
              sv_lengths := (sv_lengths sv)[?i := of_nat n]\<rparr>))
        \<lparr>sv_sended_N := (sv_sended_N sv)[?i := ?N + 1]\<rparr>"
    by (auto simp: handle_response_NEED_MORE_MSG_def get_client_buffer_def bind_eq_Some_conv Let_def split: if_splits)
  have "serving E cb h"
    using GET_nth_ok [OF E _ N, of "sv_CBUF sv" "sv_heap sv"] inv g by (auto simp: server_inv_def)
  then have "serving E cb h'" using serialize_heap [OF s] by simp
  moreover have "length buf = BUFFER_SIZE"
    using serialize_heap [OF s] b inv i by (auto simp: memset_def server_inv_def split: if_splits)
  moreover have "unat (?N + 1) \<le> 512" using N unat_succ_512 [of ?N] by simp
  then have "?N + 1 \<le> N_MESSAGES" by (simp add: word_le_nat_alt)
  ultimately show ?thesis
    using inv unfolding sv' by (auto simp: server_inv_def dest!: set_update_subset_insert [THEN subsetD])
qed

section \<open>Finishing a client\<close>

lemma server_merkle_ok:
  assumes H: "generichash_ok (env_generichash E)" and s: "slots_ok E 512 cb h"
  shows "\<exists>h'. calc_merkle_tree_server E (cb_buffer cb) h = Some h' \<and> h_points h' = h_points h \<and>
    h_msgs h' = h_msgs h \<and> heap_wf h'"
proof -
  let ?H = "env_generichash E" and ?msgs = "cb_buffer cb"
  have wf: "heap_wf h" and len: "length ?msgs = 512" using s by (simp_all add: slots_ok_def)
  have live: "msgs_live h ?msgs"
    unfolding msgs_live_def
  proof
    fix a assume "a \<in> set ?msgs"
    then have "good_msg E h a" using s by (auto simp: slots_ok_def in_set_conv_nth)
    then show "\<exists>m. h_msgs h a = Some m \<and> msg_ok m" by (auto simp: good_msg_def)
  qed
  have n: "push_bit (unat (9 :: u64)) (1 :: u64) = 512" by (simp add: push_bit_eq_mult)
  obtain Ls h1 where m: "merkle_layers ?H 9 512 ?msgs h = Some (Ls, Ls, h1)"
    and t: "tree_built ?H h1 ?msgs (h_next h) Ls 9" and h1: "heap_wf h1" "h_msgs h1 = h_msgs h"
      "\<forall>a < h_next h. h_points h1 a = h_points h a"
    using merkle_layers_build [OF wf H, of 9 ?msgs] len live by auto
  obtain p where p: "layer_point Ls 0 0 h1 = Some p" "length (hp_hash p) = 32"
    using layer_point_hash [OF tree_built_shape [OF t H], of 0 0] by auto
  have d: "DumpHex E (hp_hash p) 32 = Some (dump_rows (hp_hash p))" using DumpHex_eq [of E "hp_hash p"] p(2) by simp
  obtain h2 where "destroy_layers Ls h1 = Some h2" "h_points h2 = h_points h" "h_msgs h2 = h_msgs h1" "heap_wf h2"
    using destroy_layers_built [OF t H _ wf h1(1,3)] by auto
  then show ?thesis
    using m p d len h1(2) unfolding calc_merkle_tree_server_def Let_def n by simp
qed

lemma server_merkle_null:
  assumes "length msgs = 512" "i < 512" "h_msgs h (msgs ! i) = None"
  shows "calc_merkle_tree_server E msgs h = None"
proof -
  have n: "push_bit (unat (9 :: u64)) (1 :: u64) = 512" "drop_bit 1 (512 :: u64) = 256" "unat (256 * 2 :: u64) = 2 * 256"
    by (simp_all add: push_bit_eq_mult drop_bit_eq_div)
  have i: "2 * (i div 2) = i \<or> 2 * (i div 2) + 1 = i" "i div 2 < 256" using assms(2) by presburger+
  have "pair_loop (create_hpoint_message (env_generichash E)) msgs (2 * 256) 0 0 beg h = None" for beg
  proof (rule ccontr)
    assume "\<not> ?thesis"
    then obtain r where "pair_loop (create_hpoint_message (env_generichash E)) msgs (2 * 256) (2 * 0) 0 beg h = Some r"
      by auto
    from pair_loop_live [OF this _ i(2)] assms(3) i(1) show False by auto
  qed
  then show ?thesis
    using assms(1)
    unfolding calc_merkle_tree_server_def merkle_layers_def process_s_messagesV2_def Let_def n by simp
qed

lemma finish_sending_cases:
  assumes "server_ok E" "server_inv E sv" "unat fd < MAX_CONNECTIONS"
  shows "if filled (sv_CBUF sv) = CIRC_BUF_SIZE
    then \<exists>sv'. FINISH_SENDING E fd sv = Some sv' \<and> server_inv E sv' \<and> sv_sended_N sv' ! unat fd = 0 \<and>
           cb_buffer (sv_CBUF sv') = cb_buffer (sv_CBUF sv) \<and> cb_fill_size (sv_CBUF sv') = 0 \<and>
           h_msgs (sv_heap sv') = h_msgs (sv_heap sv) \<and> h_points (sv_heap sv') = h_points (sv_heap sv) \<and>
           sv_ring sv' = sv_ring sv @ [(Op_unprepared, make_request_data fd (flag_num FLAG_CLOSE_CONNECTION))]
    else FINISH_SENDING E fd sv = None"
proof (cases "filled (sv_CBUF sv) = CIRC_BUF_SIZE")
  case True
  let ?cb = "sv_CBUF sv"
  have "slots_ok E 512 ?cb (sv_heap sv)" using assms(2) True by (simp add: server_inv_def serving_def)
  then obtain h' where h': "calc_merkle_tree_server E (cb_buffer ?cb) (sv_heap sv) = Some h'"
      "h_points h' = h_points (sv_heap sv)" "h_msgs h' = h_msgs (sv_heap sv)" "heap_wf h'"
    using server_merkle_ok assms(1) unfolding server_ok_def by blast
  let ?reset = "?cb\<lparr>cb_fill_size := 0\<rparr>"
  have "filled ?reset = CIRC_BUF_SIZE" by (simp add: filled_def)
  moreover have "slots_ok E 512 ?reset (sv_heap sv)"
    using \<open>slots_ok E 512 ?cb (sv_heap sv)\<close> by (auto simp: slots_ok_def)
  ultimately have "serving E ?reset (sv_heap sv)" by (simp add: serving_def)
  then have "serving E ?reset h'" using serving_same_msgs [OF _ h'(3,4)] by blast
  then show ?thesis
    using True assms(2,3) h'
    by (auto simp: FINISH_SENDING_def server_inv_def dest!: set_update_subset_insert [THEN subsetD])
next
  case False
  let ?cb = "sv_CBUF sv" and ?i = "filled (sv_CBUF sv)"
  have s: "slots_ok E ?i ?cb (sv_heap sv)" using assms(2) by (simp add: server_inv_def serving_def)
  then have "cb_buffer ?cb ! ?i = NULL" "?i < 512" "length (cb_buffer ?cb) = 512" "heap_wf (sv_heap sv)"
    using False by (auto simp: slots_ok_def)
  then have "calc_merkle_tree_server E (cb_buffer ?cb) (sv_heap sv) = None"
    using server_merkle_null [of "cb_buffer ?cb" ?i "sv_heap sv" E] heap_wf_nonnull(1) by simp
  then show ?thesis using False assms(2,3) by (simp add: FINISH_SENDING_def server_inv_def)
qed

text \<open>
  C26.  \<open>FINISH_SENDING\<close> decides on the fill state: if all 512 slots are filled it computes the Merkle root,
  leaves heap and messages as they were, resets the client's counter and goes on serving the same messages;
  if a client says \<open>ENOUGH\<close> before every slot was filled, a null message is dereferenced.
\<close>

theorem finish_sending_decides:
  assumes "server_ok E" "server_inv E sv" "unat fd < MAX_CONNECTIONS"
  shows "if filled (sv_CBUF sv) = CIRC_BUF_SIZE
    then \<exists>sv'. FINISH_SENDING E fd sv = Some sv' \<and> server_inv E sv' \<and> sv_sended_N sv' ! unat fd = 0 \<and>
           cb_buffer (sv_CBUF sv') = cb_buffer (sv_CBUF sv) \<and> cb_fill_size (sv_CBUF sv') = 0 \<and>
           h_msgs (sv_heap sv') = h_msgs (sv_heap sv) \<and> h_points (sv_heap sv') = h_points (sv_heap sv) \<and>
           sv_ring sv' = sv_ring sv @ [(Op_unprepared, make_request_data fd (flag_num FLAG_CLOSE_CONNECTION))]
    else FINISH_SENDING E fd sv = None"
  using finish_sending_cases [OF assms] .

section \<open>Every step keeps the invariant\<close>

lemma FINISH_SENDING_inv:
  assumes "server_ok E" "server_inv E sv" "FINISH_SENDING E fd sv = Some sv'"
  shows "server_inv E sv'"
proof -
  have "unat fd < MAX_CONNECTIONS"
    using assms(2,3) by (auto simp: FINISH_SENDING_def Let_def server_inv_def split: if_splits)
  from finish_sending_cases [OF assms(1,2) this] assms(3) show ?thesis by (auto split: if_splits)
qed

lemma event_loop_step_inv:
  assumes E: "server_ok E" and inv: "server_inv E sv" and st: "event_loop_step PB E c sv = Some sv'"
  shows "server_inv E sv'"
proof -
  let ?t = "request_data_event_type (cq_user_data c)"
  have E': "server_env E" using E by (simp add: server_ok_def)
  consider (accept) "?t = flag_num FLAG_ACCEPT" | (read) "?t = flag_num READ_RESPONSE"
    | (close) "?t = flag_num FLAG_CLOSE_CONNECTION" | (test) "?t = flag_num TEST_RESPONSE"
    | (other) "?t \<noteq> flag_num FLAG_ACCEPT" "?t \<noteq> flag_num READ_RESPONSE" "?t \<noteq> flag_num FLAG_CLOSE_CONNECTION"
        "?t \<noteq> flag_num TEST_RESPONSE" by blast
  then show ?thesis
  proof cases
    case accept
    let ?sv = "(add_accept_request sv)\<lparr>sv_current_fd := request_data_client_fd (scast (cq_res c))\<rparr>"
    have "server_inv E ?sv" using inv by (simp add: server_inv_def add_accept_request_def)
    then show ?thesis
      using st accept request_SEND_STATUS_inv by (auto simp: event_loop_step_def request_ASK_NEED_MSG_def)
  next
    case read
    then show ?thesis
      using st inv by (auto simp: event_loop_step_def READ_STATUS_RESPONSE_def get_client_buffer_def server_inv_def split: if_splits)
  next
    case close
    then show ?thesis
      using st inv by (auto simp: event_loop_step_def Let_def server_inv_def split: if_splits dest!: set_update_subset_insert [THEN subsetD])
  next
    case test
    then show ?thesis
      using st inv handle_NEED_MORE_inv [OF E' inv] request_SEND_STATUS_inv [OF inv] FINISH_SENDING_inv [OF E inv]
      by (auto simp: event_loop_step_def test_response_def request_ASK_NEED_MSG_def Let_def bind_eq_Some_conv split: if_splits)
  next
    case other
    then show ?thesis using st inv by (auto simp: event_loop_step_def Let_def split: if_splits)
  qed
qed

lemma event_loop_start_ok:
  assumes "server_env E" "heap_wf h"
  shows "\<exists>sv. event_loop_start E (setup_buffers E h) = Some sv \<and> server_inv E sv \<and>
    sv_ring sv = [(Op_accept, make_request_data 0 (flag_num FLAG_ACCEPT))]"
  using first_push_serving [OF assms]
  by (auto simp: event_loop_start_def setup_buffers_def add_accept_request_def server_inv_def)

lemma server_reach_inv:
  assumes "server_ok E" "heap_wf h0"
  shows "server_reach PB E h0 sv \<Longrightarrow> server_inv E sv"
proof (induction rule: server_reach.induct)
  case (start sv)
  then show ?case using event_loop_start_ok [of E h0] assms by (auto simp: server_ok_def)
next
  case (receive sv fd d data)
  then show ?case
    by (cases "unat fd < length (sv_buffers sv)")
      (auto simp: server_inv_def list_update_beyond dest!: set_update_subset_insert [THEN subsetD])
next
  case (complete sv op d r sv')
  then show ?case using event_loop_step_inv [OF assms(1)] by blast
qed

text \<open>
  C9.  The event loop keeps its invariant, whatever clients send and in whatever order completions arrive:
  the message slots in use hold distinct live messages that validate, the slots behind them are null, no
  client's counter exceeds 512, and all per-connection arrays keep their sizes.
\<close>

theorem server_invariant:
  assumes "server_ok E" "heap_wf h0" "server_reach PB E h0 sv"
  shows "server_inv E sv"
  using server_reach_inv [OF assms] .

theorem server_invariant_witness:
  "\<exists>sv. event_loop_start demo_env (setup_buffers demo_env empty_heap) = Some sv \<and> server_inv demo_env sv"
proof -
  have ok: "server_ok demo_env" using demo_server_env demo_env_ok(3) by (simp add: server_ok_def)
  obtain sv where "event_loop_start demo_env (setup_buffers demo_env empty_heap) = Some sv"
    using event_loop_start_ok [OF demo_server_env heap_wf_empty] by blast
  moreover from this have "server_reach plain_pb demo_env empty_heap sv" by (rule server_reach.start)
  ultimately show ?thesis using server_invariant [OF ok heap_wf_empty] by blast
qed

section \<open>What a client is sent\<close>

text \<open>What a send entry of the ring carries, as the receiver reads it.\<close>

definition sends :: "protobuf \<Rightarrow> uring_op \<Rightarrow> u32 \<Rightarrow> IpcMessage \<Rightarrow> bool" where
  "sends PB op fd m \<longleftrightarrow> (\<exists>data. op = Op_send fd data \<and> data \<noteq> [] \<and> length data \<le> BUFFER_SIZE \<and> ipc_packed PB data \<and>
     ipc_message__unpack PB (length data) data = Some m)"

lemma unpack_take:
  "ipc_message__unpack PB n buf = Some m \<Longrightarrow> n \<le> length buf \<Longrightarrow>
     ipc_message__unpack PB (length (take n buf)) (take n buf) = Some m"
  by (simp add: ipc_message__unpack_def min_absorb2)

lemma request_SEND_STATUS_ok:
  assumes pb: "protobuf_ok PB" and z: "0 \<in> set (indeterminate E 32)" and inv: "server_inv E sv"
    and fd: "unat fd \<le> 10"
  shows "\<exists>sv' op m. request_SEND_STATUS PB E fd st sv = Some sv' \<and>
    sv_ring sv' = sv_ring sv @ [(op, make_request_data fd (flag_num READ_RESPONSE))] \<and>
    sends PB op fd m \<and> im_status_code m = ipc_code st \<and> sv_sended_N sv' = sv_sended_N sv \<and>
    sv_CBUF sv' = sv_CBUF sv"
proof -
  have "length (sv_buffers sv ! unat fd) = SOCK_BUF" using inv fd by (simp add: server_inv_def)
  from server_send_status [OF pb z this, of st "sv_heap sv"] obtain n buf m where
    s: "send_ONLY_status_code PB E (sv_buffers sv ! unat fd) st (sv_heap sv) = Some (n, buf, tick (sv_heap sv))"
      "n \<le> 112" "length buf = SOCK_BUF" "ipc_message__unpack PB n buf = Some m" "im_status_code m = ipc_code st"
      "0 < n" "ipc_packed PB (take n buf)" by blast
  from this(3,6) have "take n buf \<noteq> []" by auto
  then have "sends PB (Op_send fd (take n buf)) fd m" using s unpack_take [OF s(4)] by (simp add: sends_def)
  then show ?thesis
    using s fd by (auto simp: request_SEND_STATUS_def get_ipc_msg_buffer_def get_client_buffer_def)
qed

lemma need_more_sends:
  assumes "protobuf_ok PB" "clock_ok E" "n < 512 \<or> 0 \<in> set (indeterminate E 32)" "server_env E" "server_inv E sv"
    and "unat fd \<le> 10" "n = sv_sended_N sv ! unat fd"
  shows "\<exists>sv' op im. handle_response_NEED_MORE_MSG PB E fd sv = Some sv' \<and> server_inv E sv' \<and>
    sv_ring sv' = sv_ring sv @ [(op, make_request_data fd (flag_num READ_RESPONSE))] \<and> sends PB op fd im \<and>
    (if n < 512
     then sv_sended_N sv' = (sv_sended_N sv)[unat fd := n + 1] \<and>
       im_status_code im = ipc_code IPC_MESSAGE__STATUS__MESSAGE_SENDED \<and>
       (\<exists>m. h_msgs (sv_heap sv') (cb_buffer (sv_CBUF sv') ! unat n) = Some m \<and> unat n < filled (sv_CBUF sv') \<and>
          validate_a_message E m (sm_public_key m) = Some 1 \<and> msg_ok m \<and> sm_length m = 164 \<and>
          im_transaction_msg im = Some (msg_bytes m) \<and> im_pubkey im = Some (sm_public_key m))
     else sv_sended_N sv' = sv_sended_N sv \<and>
       im_status_code im = ipc_code IPC_MESSAGE__STATUS__ALL_BLOCK_MSG_SENDED)"
proof (cases "n < 512")
  case False
  have len: "unat fd < length (sv_sended_N sv)" using assms(5,6) by (simp add: server_inv_def)
  obtain sv' op m where r: "request_SEND_STATUS PB E fd IPC_MESSAGE__STATUS__ALL_BLOCK_MSG_SENDED sv = Some sv'"
    "sv_ring sv' = sv_ring sv @ [(op, make_request_data fd (flag_num READ_RESPONSE))]" "sends PB op fd m"
    "im_status_code m = ipc_code IPC_MESSAGE__STATUS__ALL_BLOCK_MSG_SENDED" "sv_sended_N sv' = sv_sended_N sv"
    using request_SEND_STATUS_ok [OF assms(1) _ assms(5,6)] assms(3) False by blast
  then have "handle_response_NEED_MORE_MSG PB E fd sv = Some sv'"
    using False len assms(7) by (simp add: handle_response_NEED_MORE_MSG_def not_less)
  then show ?thesis using r False request_SEND_STATUS_inv [OF assms(5) r(1)] by auto
next
  case True
  let ?i = "unat fd"
  have inv: "?i < length (sv_sended_N sv)" "length (sv_buffers sv ! ?i) = BUFFER_SIZE"
      "serving E (sv_CBUF sv) (sv_heap sv)" using assms(5,6) by (simp_all add: server_inv_def)
  have N: "unat n < CIRC_BUF_SIZE" using True by (simp add: word_less_nat_alt)
  obtain cb h where g: "GET_nth_circ_buf E (sv_CBUF sv) n (sv_heap sv) = Some (cb_buffer cb ! unat n, cb, h)"
      "serving E cb h" "unat n < filled cb" using GET_nth_ok [OF assms(4) inv(3) N] by blast
  obtain m where m: "h_msgs h (cb_buffer cb ! unat n) = Some m" "msg_ok m" "sm_length m = 164"
      "validate_a_message E m (sm_public_key m) = Some 1"
    using serving_parts(6) [OF g(2,3)] by (auto simp: good_msg_def)
  have "length (calloc BUFFER_SIZE) = SOCK_BUF" "unat (sm_length m) \<le> 3000" using m(3) by simp_all
  from serialize_message [OF assms(1,2) m(1,2) this(2,1)] obtain k buf im where
    s: "serialize_data_v2 PB E (calloc BUFFER_SIZE) (cb_buffer cb ! unat n) h = Some (k, buf, tick (tick h))"
      "k \<le> SOCK_BUF" "length buf = SOCK_BUF" "ipc_message__unpack PB k buf = Some im"
      "im_status_code im = ipc_code IPC_MESSAGE__STATUS__MESSAGE_SENDED"
      "im_transaction_msg im = Some (msg_bytes m)" "im_pubkey im = Some (sm_public_key m)" "0 < k"
      "ipc_packed PB (take k buf)" by blast
  let ?sv = "(submit (Op_send fd (take k buf)) (make_request_data fd (flag_num READ_RESPONSE))
      (sv\<lparr>sv_CBUF := cb, sv_heap := tick (tick h), sv_buffers := (sv_buffers sv)[?i := buf],
          sv_lengths := (sv_lengths sv)[?i := of_nat k]\<rparr>))\<lparr>sv_sended_N := (sv_sended_N sv)[?i := n + 1]\<rparr>"
  have "\<not> N_MESSAGES \<le> sv_sended_N sv ! ?i" using True assms(7) by simp
  then have step: "handle_response_NEED_MORE_MSG PB E fd sv = Some ?sv"
    using inv g(1) s(1) assms(6,7)
    by (simp add: handle_response_NEED_MORE_MSG_def get_client_buffer_def get_ipc_msg_buffer_def memset_full
        calloc_def Let_def)
  from s(3,8) have "take k buf \<noteq> []" by auto
  then have "sends PB (Op_send fd (take k buf)) fd im" using s unpack_take [OF s(4)] by (simp add: sends_def)
  then show ?thesis
    using step True handle_NEED_MORE_inv [OF assms(4,5) step] m g(3) s by auto
qed

text \<open>
  Messages go out in order: when a client whose counter is \<open>n\<close> asks for more, it is sent slot \<open>n\<close> of
  the buffer, text and key of a live valid message, and its counter becomes \<open>n + 1\<close>; at 512 it is told that
  all messages were sent and the counter stays.
\<close>

theorem need_more_sends_next:
  assumes "protobuf_ok PB" "clock_ok E" "0 \<in> set (indeterminate E 32)" "server_env E" "server_inv E sv"
    and "unat fd \<le> 10" "n = sv_sended_N sv ! unat fd"
  shows "\<exists>sv' op im. handle_response_NEED_MORE_MSG PB E fd sv = Some sv' \<and> server_inv E sv' \<and>
    sv_ring sv' = sv_ring sv @ [(op, make_request_data fd (flag_num READ_RESPONSE))] \<and> sends PB op fd im \<and>
    (if n < 512
     then sv_sended_N sv' = (sv_sended_N sv)[unat fd := n + 1] \<and>
       im_status_code im = ipc_code IPC_MESSAGE__STATUS__MESSAGE_SENDED \<and>
       (\<exists>m. h_msgs (sv_heap sv') (cb_buffer (sv_CBUF sv') ! unat n) = Some m \<and> unat n < filled (sv_CBUF sv') \<and>
          validate_a_message E m (sm_public_key m) = Some 1 \<and>
          im_transaction_msg im = Some (msg_bytes m) \<and> im_pubkey im = Some (sm_public_key m))
     else sv_sended_N sv' = sv_sended_N sv \<and>
       im_status_code im = ipc_code IPC_MESSAGE__STATUS__ALL_BLOCK_MSG_SENDED)"
  using need_more_sends [of PB E n sv fd] assms by (auto split: if_splits)

text \<open>The state right after start-up, for the witnesses.\<close>

lemma demo_indeterminate: "0 \<in> set (indeterminate demo_env 32)"
  by (simp add: indeterminate_def demo_env_def)

lemma demo_server_ok: "server_ok demo_env"
  using demo_server_env demo_env_ok(3) by (simp add: server_ok_def)

lemma demo_start:
  "\<exists>sv. event_loop_start demo_env (setup_buffers demo_env empty_heap) = Some sv \<and> server_inv demo_env sv \<and>
     filled (sv_CBUF sv) = 1 \<and> sv_sended_N sv = replicate 1000 0"
  using first_push_serving [OF demo_server_env heap_wf_empty]
  by (auto simp: event_loop_start_def setup_buffers_def add_accept_request_def server_inv_def)

theorem need_more_sends_next_witness:
  "\<exists>sv sv' op im. event_loop_start demo_env (setup_buffers demo_env empty_heap) = Some sv \<and>
     handle_response_NEED_MORE_MSG plain_pb demo_env 5 sv = Some sv' \<and> sends plain_pb op 5 im \<and>
     im_status_code im = 8 \<and> sv_sended_N sv' ! 5 = 1"
proof -
  obtain sv where sv: "event_loop_start demo_env (setup_buffers demo_env empty_heap) = Some sv"
    "server_inv demo_env sv" "sv_sended_N sv = replicate 1000 0" using demo_start by blast
  from need_more_sends_next [OF plain_pb_ok demo_clock_ok demo_indeterminate demo_server_env sv(2), of 5 0] sv
  show ?thesis by fastforce
qed

theorem finish_sending_decides_witness:
  "\<exists>sv. event_loop_start demo_env (setup_buffers demo_env empty_heap) = Some sv \<and>
     FINISH_SENDING demo_env 5 sv = None"
proof -
  obtain sv where sv: "event_loop_start demo_env (setup_buffers demo_env empty_heap) = Some sv"
    "server_inv demo_env sv" "filled (sv_CBUF sv) = 1" using demo_start by blast
  from finish_sending_decides [OF demo_server_ok sv(2), of 5] sv show ?thesis by auto
qed

text \<open>
  C27.  The server survives only small descriptors: a new connection on descriptor 11 or more, or a failed
  accept (a negative result), makes it write outside the array of \<open>IpcMessage\<close>, because the array is indexed
  in bytes instead of elements; up to descriptor 10 the connection is accepted and asked whether it needs a
  message.
\<close>

theorem accept_descriptor_limit:
  assumes "protobuf_ok PB" "0 \<in> set (indeterminate E 32)" "server_inv E sv"
    and "request_data_event_type d = flag_num FLAG_ACCEPT"
  shows "if unat r \<le> 10
    then \<exists>sv' op m. event_loop_step PB E \<lparr>cq_res = r, cq_user_data = d\<rparr> sv = Some sv' \<and>
      sv_ring sv' = sv_ring sv @ [(Op_accept, make_request_data 0 (flag_num FLAG_ACCEPT)),
                                  (op, make_request_data r (flag_num READ_RESPONSE))] \<and>
      sends PB op r m \<and> im_status_code m = ipc_code IPC_MESSAGE__STATUS__ASK_NEED_MSG
    else event_loop_step PB E \<lparr>cq_res = r, cq_user_data = d\<rparr> sv = None"
proof -
  let ?sv = "(add_accept_request sv)\<lparr>sv_current_fd := request_data_client_fd (scast r)\<rparr>"
  have step: "event_loop_step PB E \<lparr>cq_res = r, cq_user_data = d\<rparr> sv =
      request_SEND_STATUS PB E r IPC_MESSAGE__STATUS__ASK_NEED_MSG ?sv"
    using assms(4) by (simp add: event_loop_step_def request_ASK_NEED_MSG_def)
  show ?thesis
  proof (cases "unat r \<le> 10")
    case True
    have "server_inv E ?sv" using assms(3) by (simp add: server_inv_def add_accept_request_def)
    from request_SEND_STATUS_ok [OF assms(1,2) this True, of IPC_MESSAGE__STATUS__ASK_NEED_MSG]
    show ?thesis using True step by (auto simp: add_accept_request_def)
  next
    case False
    then have "\<not> unat r * 96 < 1000" by simp
    then show ?thesis using False step by (simp add: request_SEND_STATUS_def get_ipc_msg_buffer_def)
  qed
qed

theorem accept_descriptor_limit_witness:
  "\<exists>sv sv'. event_loop_start demo_env (setup_buffers demo_env empty_heap) = Some sv \<and>
     event_loop_step plain_pb demo_env \<lparr>cq_res = 6, cq_user_data = 0\<rparr> sv = Some sv' \<and>
     event_loop_step plain_pb demo_env \<lparr>cq_res = 11, cq_user_data = 0\<rparr> sv = None"
proof -
  obtain sv where sv: "event_loop_start demo_env (setup_buffers demo_env empty_heap) = Some sv"
    "server_inv demo_env sv" using demo_start by blast
  have t: "request_data_event_type 0 = flag_num FLAG_ACCEPT" by (simp add: request_data_event_type_def)
  from accept_descriptor_limit [OF plain_pb_ok demo_indeterminate sv(2) t, of 6]
    accept_descriptor_limit [OF plain_pb_ok demo_indeterminate sv(2) t, of 11] sv(1)
  show ?thesis by auto
qed

text \<open>A close request that completes for one client shuts down the client accepted last.\<close>

lemma scast_fd: "request_data_client_fd (scast (fd :: u32)) = fd"
  unfolding request_data_client_fd_def mask_lo
  by (rule bit_word_eqI) (simp add: bit_scast_u32 bit_ucast_iff bit_and_iff bit_mask_iff)

lemma close_hits_last_accepted:
  assumes "request_SEND_STATUS PB E fd2 IPC_MESSAGE__STATUS__ASK_NEED_MSG
      ((add_accept_request sv)\<lparr>sv_current_fd := request_data_client_fd (scast fd2)\<rparr>) = Some sv1"
    and "unat fd1 < length (sv_sended_N sv1)" "\<not> bit fd1 31"
  shows "\<exists>sv2. event_loop_step PB E \<lparr>cq_res = r, cq_user_data = make_request_data fd1 (flag_num FLAG_CLOSE_CONNECTION)\<rparr> sv1 = Some sv2 \<and>
    sv_closed sv2 = sv_closed sv @ [fd2]"
proof -
  have "sv_current_fd sv1 = fd2" "sv_closed sv1 = sv_closed sv"
    using assms(1)
    by (auto simp: request_SEND_STATUS_def submit_def add_accept_request_def scast_fd Let_def bind_eq_Some_conv)
  then show ?thesis
    using assms(2) request_type_roundtrip [OF assms(3), of "flag_num FLAG_CLOSE_CONNECTION"]
    by (simp add: event_loop_step_def Let_def request_fd_roundtrip)
qed


end
