(* ===== verification/Client.thy ===== *)
theory Client
  imports Server
begin

text \<open>
  The client's message thread: \<open>client/setup_client.c\<close> and the sending functions of
  \<open>client/ipc_messages_client.c\<close>.  The thread collects 512 messages from the server, answers each one,
  builds and checks the Merkle tree, makes the block and hands it to the peer thread through the globals
  of \<open>client/common.c\<close>, releasing the mutex it has held since it connected.  One iteration of the loop
  is a function of the bytes received.
\<close>

section \<open>State\<close>

definition BLOCKSIZE :: nat where
  "BLOCKSIZE = 512"

definition BUFSIZEFORMESSAGE :: nat where
  "BUFSIZEFORMESSAGE = 512"

definition CLIENT_EXPONENT :: u64 where
  "CLIENT_EXPONENT = 9"

lemmas client_consts [simp] = BLOCKSIZE_def BUFSIZEFORMESSAGE_def CLIENT_EXPONENT_def

text \<open>\<open>common.c\<close>: what the threads of the client share.\<close>

record shared =
  sh_block_written_size :: u64
  sh_block_transmitted :: bool
  sh_peer_connection_accepted :: bool      \<comment> \<open>mutex held\<close>
  sh_block_created_mtx :: bool             \<comment> \<open>mutex held\<close>
  sh_flag_block_created :: int
  sh_buffer_BLOCK_DATA :: bytes
  sh_kill_thread_p2p :: bool

definition shared_init :: shared where
  "shared_init = \<lparr>sh_block_written_size = 0, sh_block_transmitted = False,
     sh_peer_connection_accepted = False, sh_block_created_mtx = False, sh_flag_block_created = 0,
     sh_buffer_BLOCK_DATA = calloc BUFFER_SIZE, sh_kill_thread_p2p = False\<rparr>"

record client =
  cl_heap :: heap
  cl_sock :: u32
  cl_msg_arr :: addr
  cl_count :: u64
  cl_block_filled :: bool
  cl_buffer :: bytes
  cl_buffer2 :: bytes
  cl_ring :: "uring_op list"
  cl_seen :: nat                           \<comment> \<open>calls of \<open>io_uring_cqe_seen\<close>\<close>
  cl_container :: "l_msg_container option"
  cl_block :: "block_t option"
  cl_ver_result :: int
  cl_shared :: shared

section \<open>Sending\<close>

text \<open>Which of the two buffers a status is written to.\<close>

definition send_STATUS ::
  "protobuf \<Rightarrow> env \<Rightarrow> bool \<Rightarrow> IpcMessage__Status \<Rightarrow> client \<Rightarrow> client option" where
  "send_STATUS PB E first status_msg st = do {
     (n, buf, h) \<leftarrow> client_send_ONLY_status_code PB E (if first then cl_buffer st else cl_buffer2 st) status_msg
                     (cl_heap st);
     let st = (if first then st\<lparr>cl_buffer := buf\<rparr> else st\<lparr>cl_buffer2 := buf\<rparr>);
     Some (st\<lparr>cl_heap := h, cl_ring := cl_ring st @ [Op_send (cl_sock st) (take n buf)]\<rparr>)
   }"

text \<open>\<open>send_need_more_msg\<close> is called with the number of bytes received in place of the socket.\<close>

definition send_need_more_msg :: "protobuf \<Rightarrow> env \<Rightarrow> u32 \<Rightarrow> client \<Rightarrow> client option" where
  "send_need_more_msg PB E sock st = do {
     (n, buf, h) \<leftarrow> client_send_ONLY_status_code PB E (cl_buffer st) IPC_MESSAGE__STATUS__NEED_MORE (cl_heap st);
     Some (st\<lparr>cl_buffer := buf, cl_heap := h, cl_ring := cl_ring st @ [Op_send sock (take n buf)]\<rparr>)
   }"

definition send_ACKN_OK :: "protobuf \<Rightarrow> env \<Rightarrow> u32 \<Rightarrow> client \<Rightarrow> client option" where
  "send_ACKN_OK PB E sock st = do {
     (n, buf, h) \<leftarrow> client_send_ONLY_status_code PB E (cl_buffer st) IPC_MESSAGE__STATUS__ACKN_OK (cl_heap st);
     Some (st\<lparr>cl_buffer := buf, cl_heap := h, cl_ring := cl_ring st @ [Op_send sock (take n buf)]\<rparr>)
   }"

section \<open>The loop\<close>

text \<open>The array of 512 empty messages with a 512-byte buffer each.\<close>

definition empty_slot :: signed_message_t where
  "empty_slot = \<lparr>sm_message = Some (calloc BUFSIZEFORMESSAGE), sm_length = 0,
     sm_public_key = calloc crypto_sign_PUBLICKEYBYTES\<rparr>"

fun alloc_msgs :: "nat \<Rightarrow> heap \<Rightarrow> heap" where
  "alloc_msgs 0 h = h"
| "alloc_msgs (Suc n) h = alloc_msgs n (snd (alloc_msg empty_slot h))"

text \<open>Connected: the mutex is taken and the buffers are set up.\<close>

definition client_start :: "u32 \<Rightarrow> shared \<Rightarrow> heap \<Rightarrow> client" where
  "client_start sock sh h = \<lparr>cl_heap = alloc_msgs BLOCKSIZE h, cl_sock = sock, cl_msg_arr = h_next h,
     cl_count = 0, cl_block_filled = False, cl_buffer = calloc BUFFER_SIZE, cl_buffer2 = calloc BUFFER_SIZE,
     cl_ring = [], cl_seen = 0, cl_container = None, cl_block = None, cl_ver_result = 0,
     cl_shared = sh\<lparr>sh_block_created_mtx := True\<rparr>\<rparr>"

text \<open>\<open>for (i = 0; i < 512; i++) { rez = verify(i); if (!rez) break; ver_result += rez; }\<close>\<close>

fun verify_all :: "(nat \<Rightarrow> int option) \<Rightarrow> nat \<Rightarrow> nat \<Rightarrow> int \<Rightarrow> int option" where
  "verify_all verify i 0 ver_result = Some ver_result"
| "verify_all verify i (Suc n) ver_result = do {
     rez \<leftarrow> verify i;
     (if rez = 0 then Some ver_result else verify_all verify (Suc i) n (ver_result + rez))
   }"

definition last_message :: "protobuf \<Rightarrow> env \<Rightarrow> nat \<Rightarrow> client \<Rightarrow> client option" where
  "last_message PB E len st = do {
     h \<leftarrow> deserialize_data_from_server PB (cl_buffer st) len (cl_msg_arr st + unat (cl_count st)) (cl_heap st);
     st \<leftarrow> send_STATUS PB E False IPC_MESSAGE__STATUS__ENOUGH (st\<lparr>cl_heap := h\<rparr>);
     (cont, h) \<leftarrow> calc_merkle_tree (env_generichash E) CLIENT_EXPONENT (cl_msg_arr st) (cl_heap st);
     (block, h) \<leftarrow> processing_block E cont h;
     ver \<leftarrow> verify_all (\<lambda>i. merkle_verify_message (env_generichash E) CLIENT_EXPONENT (of_nat i)
                                (main_layer_pointer cont) h) 0 BUFSIZEFORMESSAGE 0;
     (size, data) \<leftarrow> P2P_serialize_block_to_sock PB block (sh_buffer_BLOCK_DATA (cl_shared st));
     let sh = (cl_shared st)\<lparr>sh_flag_block_created := 1, sh_buffer_BLOCK_DATA := data,
                sh_block_written_size := of_nat size, sh_block_created_mtx := False\<rparr>;
     Some (st\<lparr>cl_heap := h, cl_container := Some cont, cl_block := Some block, cl_ver_result := ver,
              cl_shared := sh, cl_block_filled := True\<rparr>)
   }"

text \<open>
  One iteration.  \<open>received\<close> is what the kernel has written to the buffer when the completion with
  result \<open>res\<close> arrives; it is the receive's completion when \<open>res\<close> is the length of \<open>received\<close>.  The
  completion is marked as seen twice, before and after it is processed.
\<close>

definition dispatch_status :: "protobuf \<Rightarrow> env \<Rightarrow> u32 \<Rightarrow> u32 \<Rightarrow> client \<Rightarrow> client option" where
  "dispatch_status PB E FLAG_FROM_SERVER res st =
     (if FLAG_FROM_SERVER = ipc_code IPC_MESSAGE__STATUS__ASK_NEED_MSG then
        send_STATUS PB E False IPC_MESSAGE__STATUS__NEED_MORE st
      else if FLAG_FROM_SERVER = ipc_code IPC_MESSAGE__STATUS__OK then
        send_need_more_msg PB E res st
      else if FLAG_FROM_SERVER = ipc_code IPC_MESSAGE__STATUS__MESSAGE_SENDED then
        (if unat (cl_count st) < BLOCKSIZE - 1 then do {
           h \<leftarrow> deserialize_data_from_server PB (cl_buffer st) (unat res) (cl_msg_arr st + unat (cl_count st)) (cl_heap st);
           send_STATUS PB E True IPC_MESSAGE__STATUS__ACKN_OK
             (st\<lparr>cl_heap := h, cl_count := cl_count st + 1\<rparr>)
         }
         else if unat (cl_count st) = BLOCKSIZE - 1 then last_message PB E (unat res) st
         else send_STATUS PB E False IPC_MESSAGE__STATUS__ERROR st)
      else if FLAG_FROM_SERVER = ipc_code IPC_MESSAGE__STATUS__ALL_BLOCK_MSG_SENDED then do {
        st \<leftarrow> send_STATUS PB E False IPC_MESSAGE__STATUS__ALL_BLOCK_RECEIVED st;
        Some (st\<lparr>cl_block_filled := True\<rparr>)
      }
      else Some st)"

definition client_step :: "protobuf \<Rightarrow> env \<Rightarrow> bytes \<Rightarrow> u32 \<Rightarrow> client \<Rightarrow> client option" where
  "client_step PB E received res st =
     (if sh_kill_thread_p2p (cl_shared st) \<or> cl_block_filled st then Some st
      else do {
        require (length received \<le> BUFFER_SIZE);
        let st = st\<lparr>cl_ring := cl_ring st @ [Op_recv (cl_sock st)],
                    cl_buffer := received @ drop (length received) (cl_buffer st), cl_seen := Suc (cl_seen st)\<rparr>;
        FLAG_FROM_SERVER \<leftarrow> read_response_ONLY_STATUS PB (cl_buffer st) (unat (scast res :: u64));
        st \<leftarrow> dispatch_status PB E FLAG_FROM_SERVER res st;
        Some (st\<lparr>cl_seen := Suc (cl_seen st)\<rparr>)
      })"

text \<open>Receiving one frame after another.\<close>

fun client_run :: "protobuf \<Rightarrow> env \<Rightarrow> bytes list \<Rightarrow> client \<Rightarrow> client option" where
  "client_run PB E [] st = Some st"
| "client_run PB E (f # fs) st = do {
     st \<leftarrow> client_step PB E f (of_nat (length f)) st;
     client_run PB E fs st
   }"

text \<open>After the loop.  Besides the messages and the nodes of the tree, which are on the heap, the thread has
  allocated the objects below; to free one that is not allocated is a fault, and so is a free of a text or of the array of
  messages that was done before.\<close>

datatype client_object =
    O_buffer | O_buffer2 | O_buffer_transactions | O_addrinfo | O_msg_arr
  | O_container | O_layers_for_destr | O_main_layer_pointer | O_messages_arr | O_block_dummy

definition client_objects :: "client \<Rightarrow> client_object set" where
  "client_objects st = {O_buffer, O_buffer2, O_buffer_transactions, O_addrinfo, O_msg_arr} \<union>
     (if cl_container st = None then {} else {O_container, O_layers_for_destr, O_main_layer_pointer, O_messages_arr}) \<union>
     (if cl_block st = None then {} else {O_block_dummy})"

definition free_object :: "client_object \<Rightarrow> client_object set \<Rightarrow> client_object set option" where
  "free_object x live = do {
     require (x \<in> live);
     Some (live - {x})
   }"

definition free_text :: "addr \<Rightarrow> heap \<Rightarrow> heap option" where
  "free_text a h = do {
     m \<leftarrow> h_msgs h a;
     _ \<leftarrow> sm_message m;
     write_msg a (m\<lparr>sm_message := None\<rparr>) h
   }"

fun free_texts :: "addr \<Rightarrow> nat \<Rightarrow> heap \<Rightarrow> heap option" where
  "free_texts a 0 h = Some h"
| "free_texts a (Suc n) h = do {
     h \<leftarrow> free_text a h;
     free_texts (Suc a) n h
   }"

fun free_slots :: "addr \<Rightarrow> nat \<Rightarrow> heap \<Rightarrow> heap option" where
  "free_slots a 0 h = Some h"
| "free_slots a (Suc n) h = do {
     _ \<leftarrow> h_msgs h a;
     free_slots (Suc a) n (h\<lparr>h_msgs := (h_msgs h)(a := None)\<rparr>)
   }"

text \<open>The objects that are still allocated and the heap afterwards.  The container is dereferenced whether or not there
  is one; \<open>free(block_dummy)\<close> of a null pointer does nothing.\<close>

definition client_teardown :: "client \<Rightarrow> (client_object set \<times> heap) option" where
  "client_teardown st = do {
     live \<leftarrow> free_object O_buffer (client_objects st);
     live \<leftarrow> free_object O_buffer2 live;
     live \<leftarrow> free_object O_buffer_transactions live;
     live \<leftarrow> free_object O_addrinfo live;
     require (O_msg_arr \<in> live);
     h \<leftarrow> free_texts (cl_msg_arr st) BLOCKSIZE (cl_heap st);
     cont \<leftarrow> cl_container st;
     require (O_container \<in> live \<and> O_layers_for_destr \<in> live);
     h \<leftarrow> destroy_layers (take (unat CLIENT_EXPONENT) (layers_for_destr cont)) h;
     live \<leftarrow> free_object O_layers_for_destr live;
     live \<leftarrow> free_object O_main_layer_pointer live;
     live \<leftarrow> free_object O_messages_arr live;
     live \<leftarrow> free_object O_msg_arr live;
     h \<leftarrow> free_slots (cl_msg_arr st) BLOCKSIZE h;
     live \<leftarrow> free_object O_container live;
     live \<leftarrow> (case cl_block st of None \<Rightarrow> Some live | Some _ \<Rightarrow> free_object O_block_dummy live);
     Some (live, h)
   }"

section \<open>Receiving messages\<close>

text \<open>A frame that carries a message, as the codec reads it.\<close>

definition message_frame :: "protobuf \<Rightarrow> bytes \<Rightarrow> bytes \<Rightarrow> bytes \<Rightarrow> bool" where
  "message_frame PB frame t pk \<longleftrightarrow> length frame \<le> BUFFER_SIZE \<and>
     (\<exists>im. ipc_message__unpack PB (length frame) frame = Some im \<and>
        im_status_code im = ipc_code IPC_MESSAGE__STATUS__MESSAGE_SENDED \<and>
        im_transaction_msg im = Some t \<and> im_pubkey im = Some pk \<and>
        length t \<le> BUFSIZEFORMESSAGE \<and> length pk = crypto_sign_PUBLICKEYBYTES)"

text \<open>\<open>texts\<close> and \<open>keys\<close> have arrived; the other slots still have their buffers.\<close>

definition slot_ok :: "signed_message_t \<Rightarrow> bool" where
  "slot_ok m \<longleftrightarrow> (\<exists>b. sm_message m = Some b \<and> length b = 512) \<and> unat (sm_length m) \<le> 512 \<and>
     length (sm_public_key m) = 32"

definition slots_hold :: "heap \<Rightarrow> addr \<Rightarrow> (bytes \<times> bytes) list \<Rightarrow> bool" where
  "slots_hold h a got \<longleftrightarrow> (\<forall>i < BLOCKSIZE. \<exists>m. h_msgs h (a + i) = Some m \<and> slot_ok m \<and>
     (i < length got \<longrightarrow> (msg_bytes m, sm_public_key m) = got ! i))"

definition client_inv :: "(bytes \<times> bytes) list \<Rightarrow> client \<Rightarrow> bool" where
  "client_inv got st \<longleftrightarrow> heap_wf (cl_heap st) \<and> length (cl_buffer st) = BUFFER_SIZE \<and>
     length (cl_buffer2 st) = BUFFER_SIZE \<and> unat (cl_count st) = length got \<and> length got < BLOCKSIZE \<and>
     slots_hold (cl_heap st) (cl_msg_arr st) got \<and>
     \<not> cl_block_filled st \<and> \<not> sh_kill_thread_p2p (cl_shared st) \<and> sh_block_created_mtx (cl_shared st) \<and>
     length (sh_buffer_BLOCK_DATA (cl_shared st)) = BUFFER_SIZE"

lemma alloc_msgs_ok:
  "heap_wf h \<Longrightarrow> heap_wf (alloc_msgs n h) \<and> heap_le h (alloc_msgs n h) \<and>
     (\<forall>i < n. h_msgs (alloc_msgs n h) (h_next h + i) = Some empty_slot)"
proof (induction n arbitrary: h)
  case (Suc n)
  let ?h = "snd (alloc_msg empty_slot h)"
  have wf: "heap_wf ?h" "heap_le h ?h" "h_next ?h = Suc (h_next h)" "h_msgs ?h (h_next h) = Some empty_slot"
    using Suc.prems msg_region.alloc_wf msg_region.alloc_le by (simp_all add: alloc_msg_def)
  note ih = Suc.IH [OF wf(1)]
  have "h_msgs (alloc_msgs n ?h) (h_next h + i) = Some empty_slot" if "i < Suc n" for i
  proof (cases i)
    case 0
    then show ?thesis using wf(4) ih heap_le_msg by auto
  next
    case (Suc j)
    then show ?thesis using ih wf(3) that by auto
  qed
  then show ?case using ih wf(2) heap_le_trans by auto
qed simp

lemma alloc_msgs_frame:
  "h_points (alloc_msgs n h) = h_points h \<and> (\<forall>x. x < h_next h \<or> h_next h + n \<le> x \<longrightarrow> h_msgs (alloc_msgs n h) x = h_msgs h x)"
proof (induction n arbitrary: h)
  case (Suc n)
  show ?case using Suc.IH [of "snd (alloc_msg empty_slot h)"] by (auto simp: alloc_msg_def)
qed simp


lemma client_start_inv:
  assumes "heap_wf h" "length (sh_buffer_BLOCK_DATA sh) = BUFFER_SIZE" "\<not> sh_kill_thread_p2p sh"
  shows "client_inv [] (client_start sock sh h)"
  using alloc_msgs_ok [OF assms(1), of BLOCKSIZE] assms
  by (auto simp: client_inv_def slots_hold_def client_start_def slot_ok_def empty_slot_def)

lemma unpack_prefix:
  "ipc_message__unpack PB (length f) f = Some im \<Longrightarrow> ipc_message__unpack PB (length f) (f @ r) = Some im"
  by (simp add: ipc_message__unpack_def)

lemma small_res:
  assumes "n \<le> 4096"
  shows "unat (of_nat n :: u32) = n" "unat (scast (of_nat n :: u32) :: u64) = n"
proof -
  show u: "unat (of_nat n :: u32) = n" using assms by (simp add: unat_of_nat take_bit_nat_eq_self_iff)
  have "\<not> bit (of_nat n :: u32) 31" by (rule fd_nonneg) (use u assms in simp)
  then show "unat (scast (of_nat n :: u32) :: u64) = n"
    using u assms by (simp add: scast_nonneg unsigned_ucast_eq take_bit_nat_eq_self_iff)
qed

text \<open>A status is sent: the buffer it is packed in keeps its size, and the server can read it.\<close>

definition status_frame :: "protobuf \<Rightarrow> IpcMessage__Status \<Rightarrow> bytes \<Rightarrow> bool" where
  "status_frame PB s data \<longleftrightarrow> data \<noteq> [] \<and> length data \<le> BUFFER_SIZE \<and>
     ipc_packed PB data \<and> read_ONLY_STATUS_response PB data (length data) = Some (ipc_code s)"

lemma send_STATUS_ok:
  assumes "protobuf_ok PB" "clock_ok E" "length (cl_buffer st) = BUFFER_SIZE" "length (cl_buffer2 st) = BUFFER_SIZE"
  shows "\<exists>buf data. send_STATUS PB E first s st = Some ((if first then st\<lparr>cl_buffer := buf\<rparr> else st\<lparr>cl_buffer2 := buf\<rparr>)
      \<lparr>cl_heap := tick (tick (cl_heap st)), cl_ring := cl_ring st @ [Op_send (cl_sock st) data]\<rparr>) \<and>
    length buf = BUFFER_SIZE \<and> status_frame PB s data"
proof -
  let ?b = "if first then cl_buffer st else cl_buffer2 st"
  have "length ?b = SOCK_BUF" using assms(3,4) by simp
  from client_send_status [OF assms(1,2) this, of s "cl_heap st"] obtain n buf m where
    c: "client_send_ONLY_status_code PB E ?b s (cl_heap st) = Some (n, buf, tick (tick (cl_heap st)))"
      "0 < n" "n \<le> 112" "length buf = SOCK_BUF" "ipc_message__unpack PB n buf = Some m" "im_status_code m = ipc_code s"
      "ipc_packed PB (take n buf)" by blast
  then have "take n buf \<noteq> []" by auto
  then have "status_frame PB s (take n buf)"
    using c(3-7) by (simp add: status_frame_def read_ONLY_STATUS_response_def ipc_message__unpack_def)
  then show ?thesis
    using c by (intro exI [of _ buf] exI [of _ "take n buf"]) (auto simp: send_STATUS_def)
qed

lemma message_read:
  assumes "message_frame PB f t pk"
  shows "\<exists>im. ipc_message__unpack PB (length f) (f @ r) = Some im \<and>
    im_status_code im = ipc_code IPC_MESSAGE__STATUS__MESSAGE_SENDED \<and>
    im_transaction_msg im = Some t \<and> im_pubkey im = Some pk \<and> length f \<le> 4096 \<and> length t \<le> 512 \<and> length pk = 32"
  using assms unpack_prefix unfolding message_frame_def by fastforce

definition filled_slot :: "signed_message_t \<Rightarrow> bytes \<Rightarrow> bytes \<Rightarrow> signed_message_t" where
  "filled_slot r t pk = r\<lparr>sm_public_key := pk, sm_length := of_nat (length t),
     sm_message := Some (t @ drop (length t) (the (sm_message r)))\<rparr>"

lemma filled_slot_ok:
  assumes "slot_ok r" "length t \<le> 512" "length pk = 32"
  shows "slot_ok (filled_slot r t pk)" "msg_bytes (filled_slot r t pk) = t" "sm_public_key (filled_slot r t pk) = pk"
proof -
  have "unat (of_nat (length t) :: u64) = length t" using assms(2) by (intro unat_of_nat_u64) simp
  then show "slot_ok (filled_slot r t pk)" "msg_bytes (filled_slot r t pk) = t" "sm_public_key (filled_slot r t pk) = pk"
    using assms by (auto simp: slot_ok_def filled_slot_def msg_bytes_def)
qed

lemma deserialize_slot:
  assumes "message_frame PB f t pk" "h_msgs h b = Some r" "slot_ok r"
  shows "deserialize_data_from_server PB (f @ rest) (length f) b h =
    Some (h\<lparr>h_msgs := (h_msgs h)(b \<mapsto> filled_slot r t pk)\<rparr>)"
  using message_read [OF assms(1), of rest] assms(2,3) deserialize_message [of PB "length f" "f @ rest" _ t pk h b r]
  by (auto simp: slot_ok_def filled_slot_def)

text \<open>Only the slots differ.\<close>

definition slots_only :: "addr \<Rightarrow> heap \<Rightarrow> heap \<Rightarrow> bool" where
  "slots_only a h h' \<longleftrightarrow> h_points h' = h_points h \<and> h_next h' = h_next h \<and>
     (\<forall>x. x < a \<or> a + BLOCKSIZE \<le> x \<longrightarrow> h_msgs h' x = h_msgs h x)"

lemma slots_only_trans: "slots_only a h1 h2 \<Longrightarrow> slots_only a h2 h3 \<Longrightarrow> slots_only a h1 h3"
  by (simp add: slots_only_def)

lemma slots_hold_slot: "slots_hold h a got \<Longrightarrow> i < 512 \<Longrightarrow> \<exists>r. h_msgs h (a + i) = Some r \<and> slot_ok r"
  by (auto simp: slots_hold_def)

lemma slots_hold_snoc:
  assumes "slots_hold h a got" "h_msgs h (a + length got) = Some r" "slot_ok r" "length t \<le> 512" "length pk = 32"
  shows "slots_hold (h\<lparr>h_msgs := (h_msgs h)(a + length got \<mapsto> filled_slot r t pk)\<rparr>) a (got @ [(t, pk)])"
  using assms(1) filled_slot_ok [OF assms(3-5)] by (fastforce simp: slots_hold_def nth_append less_Suc_eq)


section \<open>Steps of the client\<close>

text \<open>A buffered frame: the status the client reads from it.\<close>

lemma client_reads_status:
  assumes "ipc_message__unpack PB (length f) f = Some im" "length f \<le> BUFFER_SIZE"
    and "\<not> cl_block_filled st" "\<not> sh_kill_thread_p2p (cl_shared st)"
  shows "client_step PB E f (of_nat (length f)) st = do {
    st \<leftarrow> dispatch_status PB E (im_status_code im) (of_nat (length f))
      (st\<lparr>cl_ring := cl_ring st @ [Op_recv (cl_sock st)], cl_buffer := f @ drop (length f) (cl_buffer st),
          cl_seen := Suc (cl_seen st)\<rparr>);
    Some (st\<lparr>cl_seen := Suc (cl_seen st)\<rparr>) }"
  using assms unpack_prefix [OF assms(1), of "drop (length f) (cl_buffer st)"] small_res(2) [of "length f"]
  by (simp add: client_step_def read_response_ONLY_STATUS_def)

text \<open>A message before the last is stored and acknowledged.\<close>

lemma client_step_message:
  assumes "protobuf_ok PB" "clock_ok E" "client_inv got st" "message_frame PB f t pk" "length got < BLOCKSIZE - 1"
  shows "\<exists>st' data. client_step PB E f (of_nat (length f)) st = Some st' \<and> client_inv (got @ [(t, pk)]) st' \<and>
    cl_msg_arr st' = cl_msg_arr st \<and> slots_only (cl_msg_arr st) (cl_heap st) (cl_heap st') \<and>
    cl_seen st' = cl_seen st + 2 \<and>
    cl_ring st' = cl_ring st @ [Op_recv (cl_sock st), Op_send (cl_sock st) data] \<and>
    status_frame PB IPC_MESSAGE__STATUS__ACKN_OK data"
proof -
  note inv = assms(3) [unfolded client_inv_def]
  obtain im where im: "ipc_message__unpack PB (length f) f = Some im"
      "im_status_code im = ipc_code IPC_MESSAGE__STATUS__MESSAGE_SENDED" "length f \<le> 4096" "length t \<le> 512" "length pk = 32"
    using message_read [OF assms(4), of "[]"] by auto
  obtain r where r: "h_msgs (cl_heap st) (cl_msg_arr st + length got) = Some r" "slot_ok r"
    using inv by (auto simp: slots_hold_def)
  define buf where "buf = f @ drop (length f) (cl_buffer st)"
  have buf: "length buf = 4096" using inv im(3) by (simp add: buf_def)
  define h where "h = (cl_heap st)\<lparr>h_msgs := (h_msgs (cl_heap st))(cl_msg_arr st + length got \<mapsto> filled_slot r t pk)\<rparr>"
  define st1 where "st1 = st\<lparr>cl_ring := cl_ring st @ [Op_recv (cl_sock st)], cl_buffer := buf,
    cl_seen := Suc (cl_seen st), cl_heap := h, cl_count := cl_count st + 1\<rparr>"
  have cnt: "unat (cl_count st) = length got" "unat (cl_count st + 1) = Suc (length got)"
    using inv assms(5) unat_succ_small [of "cl_count st"] by simp_all
  obtain b2 data where s: "send_STATUS PB E True IPC_MESSAGE__STATUS__ACKN_OK st1 =
      Some (st1\<lparr>cl_buffer := b2, cl_heap := tick (tick h), cl_ring := cl_ring st1 @ [Op_send (cl_sock st1) data]\<rparr>)"
      "length b2 = 4096" "status_frame PB IPC_MESSAGE__STATUS__ACKN_OK data"
    using send_STATUS_ok [OF assms(1,2), of st1 True IPC_MESSAGE__STATUS__ACKN_OK] buf inv by (auto simp: st1_def)
  define st2 where "st2 = st1\<lparr>cl_buffer := b2, cl_heap := tick (tick h),
    cl_ring := cl_ring st @ [Op_recv (cl_sock st), Op_send (cl_sock st) data], cl_seen := Suc (Suc (cl_seen st))\<rparr>"
  have step: "client_step PB E f (of_nat (length f)) st = Some st2"
    using client_reads_status [OF im(1)] im(2,3) inv cnt assms(5) small_res(1) [OF im(3)] s(1)
      deserialize_slot [OF assms(4) r, of "drop (length f) (cl_buffer st)"]
    by (simp add: dispatch_status_def buf_def [symmetric] h_def [symmetric]) (simp add: st1_def st2_def)
  have "slots_hold h (cl_msg_arr st) (got @ [(t, pk)])"
    unfolding h_def by (rule slots_hold_snoc) (use inv r im in auto)
  moreover have "heap_wf h" using inv r(1) by (auto simp: h_def heap_wf_def)
  ultimately have "client_inv (got @ [(t, pk)]) st2"
    using inv s(2) cnt assms(5) by (simp add: client_inv_def st1_def st2_def slots_hold_def tick_def heap_wf_def)
  moreover have "slots_only (cl_msg_arr st) (cl_heap st) (cl_heap st2)"
    using assms(5) by (simp add: slots_only_def st1_def st2_def h_def tick_def)
  moreover have "cl_msg_arr st2 = cl_msg_arr st" "cl_seen st2 = cl_seen st + 2"
      "cl_ring st2 = cl_ring st @ [Op_recv (cl_sock st), Op_send (cl_sock st) data]" by (simp_all add: st1_def st2_def)
  ultimately show ?thesis using step s(3) by blast
qed


section \<open>The last message\<close>

text \<open>The shared buffer holds a block ready to be sent.\<close>

definition holds_block :: "protobuf \<Rightarrow> block_t \<Rightarrow> shared \<Rightarrow> bool" where
  "holds_block PB b sh \<longleftrightarrow> length (sh_buffer_BLOCK_DATA sh) = BUFFER_SIZE \<and>
     unat (sh_block_written_size sh) \<le> BUFFER_SIZE \<and>
     block_frame PB b (take (unat (sh_block_written_size sh)) (sh_buffer_BLOCK_DATA sh))"

lemma verify_all_passes:
  "(\<forall>j. i \<le> j \<and> j < i + n \<longrightarrow> verify j = Some 1) \<Longrightarrow> verify_all verify i n r = Some (r + int n)"
  by (induction n arbitrary: i r) auto

text \<open>What mining relies on: threads start, and from every moment on the generator yields a nonce that
  solves the puzzle of difficulty 3.\<close>

definition mining_ok :: "env \<Rightarrow> bytes \<Rightarrow> bool" where
  "mining_ok E root \<longleftrightarrow> env_ok E \<and> clock_ok E \<and> (\<forall>t. env_thrd_create E t) \<and> (\<forall>t. \<exists>n. first_hit E root 3 t n)"

definition block_root :: "env \<Rightarrow> bytes list \<Rightarrow> bytes" where
  "block_root E texts = mroot (env_generichash E) 9 (map (env_generichash E) texts)"

lemma full_slots:
  assumes "slots_hold h a got" "length got = 512"
  shows "msg_array h a 9" "array_texts h a 9 = map fst got"
proof -
  have s: "\<exists>m. h_msgs h (a + i) = Some m \<and> slot_ok m \<and> msg_bytes m = fst (got ! i)" if "i < 512" for i
    using assms that unfolding slots_hold_def by (metis client_consts(1) fst_conv)
  show "msg_array h a 9" using s unfolding msg_array_def slot_ok_def msg_ok_def by fastforce
  show "array_texts h a 9 = map fst got"
    using s assms(2) by (intro nth_equalityI) (fastforce simp: array_texts_def)+
qed

text \<open>Tree, block and checks over 512 stored messages.\<close>

lemma mine_block:
  assumes "mining_ok E root" "heap_wf h" "slots_hold h a got" "length got = 512" "root = block_root E (map fst got)"
  shows "\<exists>c h1 b h2. calc_merkle_tree (env_generichash E) CLIENT_EXPONENT a h = Some (c, h1) \<and>
    processing_block E c h1 = Some (b, h2) \<and> block_wf b \<and> 0 \<in> set (blk_date b) \<and>
    blk_merkle_root b = env_generichash E root \<and> puzzle_solved (env_generichash E) root 3 (blk_nonce b) \<and>
    verify_all (\<lambda>i. merkle_verify_message (env_generichash E) CLIENT_EXPONENT (of_nat i) (main_layer_pointer c) h2)
      0 BUFSIZEFORMESSAGE 0 = Some 512 \<and> h_msgs h2 = h_msgs h \<and> h_points h2 = h_points h1 \<and> h_next h2 = h_next h1"
proof -
  let ?H = "env_generichash E"
  note ok = assms(1) [unfolded mining_ok_def clock_ok_def]
  have H: "generichash_ok ?H" using ok by (simp add: env_ok_def)
  note arr = full_slots [OF assms(3,4)]
  obtain c h1 where c: "calc_merkle_tree ?H (of_nat 9) a h = Some (c, h1)" "h_msgs h1 = h_msgs h"
    using calc_merkle_tree_build [OF assms(2) H _ _ arr(1)] by auto
  obtain p where p: "layer_point (main_layer_pointer c) 0 0 h1 = Some p" "hp_hash p = root"
    using tree_root_hash [OF assms(2) H _ _ arr(1) c(1)] assms(5) arr(2) by (auto simp: block_root_def)
  have len: "length (hp_hash p) = crypto_generichash_BYTES"
    using p(2) assms(4,5) mroot_length [OF H, of 9] by (simp add: block_root_def)
  obtain n where n: "first_hit E (hp_hash p) 3 (Suc (h_tick h1)) n" using ok p(2) by blast
  obtain b h2 where b: "processing_block E c h1 = Some (b, h2)" "block_wf b" "0 \<in> set (blk_date b)"
      "blk_merkle_root b = ?H root" "puzzle_solved ?H root 3 (blk_nonce b)"
      "h_msgs h2 = h_msgs h1" "h_points h2 = h_points h1" "h_next h2 = h_next h1"
    using processing_block_ok [OF _ _ _ p(1) len n] ok p(2) by auto
  have "verify_all (\<lambda>i. merkle_verify_message ?H (of_nat 9) (of_nat i) (main_layer_pointer c) h2) 0 512 0 = Some (0 + int 512)"
    using built_verifies [OF assms(2) H _ _ arr(1) c(1) _ b(7,6)] by (intro verify_all_passes) simp
  then show ?thesis using c b by auto
qed

end
