(* ===== verification/ClientRun.thy ===== *)
theory ClientRun
  imports Client
begin

text \<open>
  The client from connection to block: fed with 512 message frames it acknowledges 511 of them, ends the
  transfer with the last, and publishes a block over exactly the texts received.  Then it only waits, and
  its teardown gives back the tree.
\<close>

section \<open>The step of the last message\<close>

definition published :: "protobuf \<Rightarrow> env \<Rightarrow> bytes list \<Rightarrow> client \<Rightarrow> bool" where
  "published PB E texts st \<longleftrightarrow> (let H = env_generichash E; root = block_root E texts; sh = cl_shared st in
     cl_block_filled st \<and> cl_ver_result st = 512 \<and> sh_flag_block_created sh = 1 \<and> \<not> sh_block_created_mtx sh \<and>
     \<not> sh_kill_thread_p2p sh \<and>
     (\<exists>b. cl_block st = Some b \<and> block_wf b \<and> blk_merkle_root b = H root \<and> puzzle_solved H root 3 (blk_nonce b) \<and>
        holds_block PB b sh))"

text \<open>The tree was built over 512 messages stored at \<open>a\<close>, on a heap that differs from \<open>h0\<close> in those
  only.\<close>

definition tree_over :: "env \<Rightarrow> addr \<Rightarrow> heap \<Rightarrow> client \<Rightarrow> bool" where
  "tree_over E a h0 st \<longleftrightarrow> cl_msg_arr st = a \<and> (\<exists>c hx h1. cl_container st = Some c \<and>
     calc_merkle_tree (env_generichash E) (of_nat 9) a hx = Some (c, h1) \<and> heap_wf hx \<and> slots_only a h0 hx \<and>
     (\<exists>got. slots_hold hx a got \<and> length got = 512) \<and>
     h_points (cl_heap st) = h_points h1 \<and> h_msgs (cl_heap st) = h_msgs hx \<and> h_next (cl_heap st) = h_next h1)"

lemma last_message_ok:
  assumes "protobuf_ok PB" "mining_ok E root" "client_inv got st" "message_frame PB f t pk"
    and "length got = BLOCKSIZE - 1" "root = block_root E (map fst got @ [t])" "cl_buffer st = f @ rest"
  shows "\<exists>st' data. last_message PB E (length f) st = Some st' \<and> published PB E (map fst got @ [t]) st' \<and>
    tree_over E (cl_msg_arr st) (cl_heap st) st' \<and> cl_seen st' = cl_seen st \<and>
    cl_ring st' = cl_ring st @ [Op_send (cl_sock st) data] \<and> status_frame PB IPC_MESSAGE__STATUS__ENOUGH data"
proof -
  note inv = assms(3) [unfolded client_inv_def]
  have clk: "clock_ok E" using assms(2) by (simp add: mining_ok_def)
  have tk: "length t \<le> 512" "length pk = 32" using message_read [OF assms(4), of "[]"] by auto
  have cnt: "unat (cl_count st) = 511" "length got = 511" using inv assms(5) by simp_all
  obtain r where r: "h_msgs (cl_heap st) (cl_msg_arr st + 511) = Some r" "slot_ok r"
    using inv slots_hold_slot [of "cl_heap st" "cl_msg_arr st" got 511] by auto
  define h where "h = (cl_heap st)\<lparr>h_msgs := (h_msgs (cl_heap st))(cl_msg_arr st + 511 \<mapsto> filled_slot r t pk)\<rparr>"
  obtain b2 data where s: "send_STATUS PB E False IPC_MESSAGE__STATUS__ENOUGH (st\<lparr>cl_heap := h\<rparr>) =
      Some (st\<lparr>cl_buffer2 := b2, cl_heap := tick (tick h), cl_ring := cl_ring st @ [Op_send (cl_sock st) data]\<rparr>)"
      "status_frame PB IPC_MESSAGE__STATUS__ENOUGH data"
    using send_STATUS_ok [OF assms(1) clk, of "st\<lparr>cl_heap := h\<rparr>" False IPC_MESSAGE__STATUS__ENOUGH] inv by auto
  have sl: "slots_hold (tick (tick h)) (cl_msg_arr st) (got @ [(t, pk)])"
    using slots_hold_snoc [of "cl_heap st" "cl_msg_arr st" got r t pk] r tk inv cnt(2)
    by (simp add: h_def slots_hold_def tick_def)
  have wf: "heap_wf (tick (tick h))" using inv r(1) by (auto simp: h_def heap_wf_def tick_def)
  obtain c h1 b h2 where m: "calc_merkle_tree (env_generichash E) CLIENT_EXPONENT (cl_msg_arr st) (tick (tick h)) = Some (c, h1)"
      "processing_block E c h1 = Some (b, h2)" "block_wf b" "0 \<in> set (blk_date b)"
      "blk_merkle_root b = env_generichash E root" "puzzle_solved (env_generichash E) root 3 (blk_nonce b)"
      "verify_all (\<lambda>i. merkle_verify_message (env_generichash E) CLIENT_EXPONENT (of_nat i) (main_layer_pointer c) h2)
        0 BUFSIZEFORMESSAGE 0 = Some 512"
      "h_msgs h2 = h_msgs (tick (tick h))" "h_points h2 = h_points h1" "h_next h2 = h_next h1"
    using mine_block [OF assms(2) wf sl] cnt(2) assms(6) by auto
  obtain n d where w: "P2P_serialize_block_to_sock PB b (sh_buffer_BLOCK_DATA (cl_shared st)) = Some (n, d)"
      "n \<le> 4096" "length d = 4096" "block_frame PB b (take n d)"
    using block_serialized [OF assms(1) m(3,4), of "sh_buffer_BLOCK_DATA (cl_shared st)"] inv by auto
  define st2 where "st2 = st\<lparr>cl_buffer2 := b2, cl_heap := h2, cl_ring := cl_ring st @ [Op_send (cl_sock st) data],
    cl_container := Some c, cl_block := Some b, cl_ver_result := 512, cl_block_filled := True,
    cl_shared := (cl_shared st)\<lparr>sh_flag_block_created := 1, sh_buffer_BLOCK_DATA := d,
      sh_block_written_size := of_nat n, sh_block_created_mtx := False\<rparr>\<rparr>"
  have step: "last_message PB E (length f) st = Some st2"
    using s(1) m(1,2,7) w(1) deserialize_slot [OF assms(4) r, of rest] cnt(1)
    by (simp add: last_message_def assms(7) h_def [symmetric]) (simp add: st2_def)
  have "unat (of_nat n :: u64) = n" using w(2) by (intro unat_of_nat_u64) simp
  then have "published PB E (map fst got @ [t]) st2"
    using m(3,5,6) w(2-4) assms(6) inv by (simp add: published_def st2_def Let_def holds_block_def)
  moreover have "slots_only (cl_msg_arr st) (cl_heap st) (tick (tick h))" by (simp add: slots_only_def h_def tick_def)
  then have "tree_over E (cl_msg_arr st) (cl_heap st) st2"
    unfolding tree_over_def using m(1,8-10) wf sl cnt(2)
    by (intro conjI exI [of _ c] exI [of _ "tick (tick h)"] exI [of _ h1] exI [of _ "got @ [(t, pk)]"])
      (simp_all add: st2_def)
  ultimately show ?thesis using step s(2) by (intro exI [of _ st2] exI [of _ data]) (simp add: st2_def)
qed

lemma client_step_last:
  assumes "protobuf_ok PB" "mining_ok E root" "client_inv got st" "message_frame PB f t pk"
    and "length got = BLOCKSIZE - 1" "root = block_root E (map fst got @ [t])"
  shows "\<exists>st' data. client_step PB E f (of_nat (length f)) st = Some st' \<and>
    published PB E (map fst got @ [t]) st' \<and> tree_over E (cl_msg_arr st) (cl_heap st) st' \<and>
    cl_seen st' = cl_seen st + 2 \<and>
    cl_ring st' = cl_ring st @ [Op_recv (cl_sock st), Op_send (cl_sock st) data] \<and>
    status_frame PB IPC_MESSAGE__STATUS__ENOUGH data"
proof -
  obtain im where im: "ipc_message__unpack PB (length f) f = Some im"
      "im_status_code im = ipc_code IPC_MESSAGE__STATUS__MESSAGE_SENDED" "length f \<le> 4096"
    using message_read [OF assms(4), of "[]"] by auto
  define st1 where "st1 = st\<lparr>cl_ring := cl_ring st @ [Op_recv (cl_sock st)],
    cl_buffer := f @ drop (length f) (cl_buffer st), cl_seen := Suc (cl_seen st)\<rparr>"
  have inv: "client_inv got st1" using assms(3) im(3) by (simp add: st1_def client_inv_def)
  obtain st' data where l: "last_message PB E (length f) st1 = Some st'" "published PB E (map fst got @ [t]) st'"
      "tree_over E (cl_msg_arr st1) (cl_heap st1) st'" "cl_seen st' = cl_seen st1"
      "cl_ring st' = cl_ring st1 @ [Op_send (cl_sock st1) data]" "status_frame PB IPC_MESSAGE__STATUS__ENOUGH data"
    using last_message_ok [OF assms(1,2) inv assms(4-6), of "drop (length f) (cl_buffer st)"] by (auto simp: st1_def)
  have "client_step PB E f (of_nat (length f)) st = Some (st'\<lparr>cl_seen := Suc (cl_seen st')\<rparr>)"
    using client_reads_status [OF im(1)] im(2,3) assms(3,5) l(1) small_res(1) [OF im(3)] inv
    by (simp add: dispatch_status_def client_inv_def st1_def [symmetric])
  then show ?thesis
    using l(2-6) by (intro exI [of _ "st'\<lparr>cl_seen := Suc (cl_seen st')\<rparr>"] exI [of _ data])
      (simp add: published_def tree_over_def st1_def)
qed

section \<open>A whole transfer\<close>

definition frames_carry :: "protobuf \<Rightarrow> bytes list \<Rightarrow> (bytes \<times> bytes) list \<Rightarrow> bool" where
  "frames_carry PB frames msgs \<longleftrightarrow> list_all2 (\<lambda>f (t, pk). message_frame PB f t pk) frames msgs"

lemma client_run_snoc:
  "client_run PB E (fs @ [f]) st = do {
     st \<leftarrow> client_run PB E fs st;
     client_step PB E f (of_nat (length f)) st }"
proof (induction fs arbitrary: st)
  case (Cons g fs)
  then show ?case by (cases "client_step PB E g (of_nat (length g)) st") simp_all
qed (simp split: Option.bind_split)

text \<open>Answers of the client on the ring, in order.\<close>

definition answers :: "protobuf \<Rightarrow> client \<Rightarrow> u32 option list" where
  "answers PB st = map (\<lambda>op. read_ONLY_STATUS_response PB (op_data op) (length (op_data op)))
     (filter is_Op_send (cl_ring st))"

lemma client_run_prefix:
  assumes "protobuf_ok PB" "clock_ok E" "frames_carry PB frames msgs" "length msgs < BLOCKSIZE"
    and "client_inv [] st" "cl_ring st = []" "cl_seen st = 0"
  shows "\<exists>st'. client_run PB E frames st = Some st' \<and> client_inv msgs st' \<and>
    cl_msg_arr st' = cl_msg_arr st \<and> slots_only (cl_msg_arr st) (cl_heap st) (cl_heap st') \<and>
    cl_seen st' = 2 * length msgs \<and> length (cl_ring st') = cl_seen st' \<and>
    answers PB st' = replicate (length msgs) (Some (ipc_code IPC_MESSAGE__STATUS__ACKN_OK))"
  using assms(3,4)
proof (induction msgs arbitrary: frames rule: rev_induct)
  case Nil
  then show ?case using assms(5-7) by (simp add: frames_carry_def answers_def slots_only_def)
next
  case (snoc x msgs)
  obtain t pk where x: "x = (t, pk)" by (cases x)
  obtain fs f where f: "frames = fs @ [f]" "frames_carry PB fs msgs" "message_frame PB f t pk"
    using snoc.prems(1) x by (auto simp: frames_carry_def list_all2_append2 list_all2_Cons2)
  have "length msgs < BLOCKSIZE" "length msgs < BLOCKSIZE - 1" using snoc.prems(2) by simp_all
  with snoc.IH [OF f(2)] obtain st1 where s1: "client_run PB E fs st = Some st1" "client_inv msgs st1"
      "cl_msg_arr st1 = cl_msg_arr st" "slots_only (cl_msg_arr st) (cl_heap st) (cl_heap st1)"
      "cl_seen st1 = 2 * length msgs" "length (cl_ring st1) = cl_seen st1"
      "answers PB st1 = replicate (length msgs) (Some (ipc_code IPC_MESSAGE__STATUS__ACKN_OK))" by blast
  from client_step_message [OF assms(1,2) s1(2) f(3)] \<open>length msgs < BLOCKSIZE - 1\<close> obtain st2 data where
    s2: "client_step PB E f (of_nat (length f)) st1 = Some st2" "client_inv (msgs @ [(t, pk)]) st2"
      "cl_msg_arr st2 = cl_msg_arr st1" "slots_only (cl_msg_arr st1) (cl_heap st1) (cl_heap st2)"
      "cl_seen st2 = cl_seen st1 + 2" "cl_ring st2 = cl_ring st1 @ [Op_recv (cl_sock st1), Op_send (cl_sock st1) data]"
      "status_frame PB IPC_MESSAGE__STATUS__ACKN_OK data" by blast
  have "answers PB st2 = answers PB st1 @ [Some (ipc_code IPC_MESSAGE__STATUS__ACKN_OK)]"
    using s2(6,7) by (simp add: answers_def status_frame_def)
  moreover have "slots_only (cl_msg_arr st) (cl_heap st) (cl_heap st2)"
    using slots_only_trans [OF s1(4)] s2(4) s1(3) by simp
  ultimately show ?case
    using s1 s2 x f(1) by (simp add: client_run_snoc replicate_append_same)
qed

lemma client_run_block:
  assumes "protobuf_ok PB" "frames_carry PB frames msgs" "length msgs = BLOCKSIZE"
    and "mining_ok E (block_root E (map fst msgs))" "client_inv [] st" "cl_ring st = []" "cl_seen st = 0"
  shows "\<exists>st'. client_run PB E frames st = Some st' \<and> published PB E (map fst msgs) st' \<and>
    tree_over E (cl_msg_arr st) (cl_heap st) st' \<and>
    answers PB st' = replicate 511 (Some (ipc_code IPC_MESSAGE__STATUS__ACKN_OK)) @
      [Some (ipc_code IPC_MESSAGE__STATUS__ENOUGH)] \<and>
    cl_seen st' = 1024 \<and> length (cl_ring st') = cl_seen st'"
proof -
  have clk: "clock_ok E" using assms(4) by (simp add: mining_ok_def)
  obtain ms t pk where m: "msgs = ms @ [(t, pk)]" "length ms = BLOCKSIZE - 1" "length ms < BLOCKSIZE"
    using assms(3) by (cases msgs rule: rev_cases) auto
  obtain fs f where f: "frames = fs @ [f]" "frames_carry PB fs ms" "message_frame PB f t pk"
    using assms(2) m(1) by (auto simp: frames_carry_def list_all2_append2 list_all2_Cons2)
  obtain st1 where s1: "client_run PB E fs st = Some st1" "client_inv ms st1"
      "cl_msg_arr st1 = cl_msg_arr st" "slots_only (cl_msg_arr st) (cl_heap st) (cl_heap st1)"
      "cl_seen st1 = 2 * length ms" "length (cl_ring st1) = cl_seen st1"
      "answers PB st1 = replicate (length ms) (Some (ipc_code IPC_MESSAGE__STATUS__ACKN_OK))"
    using client_run_prefix [OF assms(1) clk f(2) m(3) assms(5-7)] by blast
  have "mining_ok E (block_root E (map fst ms @ [t]))" using assms(4) m(1) by simp
  from client_step_last [OF assms(1) this s1(2) f(3) m(2) refl] obtain st2 data where
    s2: "client_step PB E f (of_nat (length f)) st1 = Some st2" "published PB E (map fst ms @ [t]) st2"
      "tree_over E (cl_msg_arr st1) (cl_heap st1) st2" "cl_seen st2 = cl_seen st1 + 2" "cl_ring st2 = cl_ring st1 @ [Op_recv (cl_sock st1), Op_send (cl_sock st1) data]"
      "status_frame PB IPC_MESSAGE__STATUS__ENOUGH data" by blast
  have "answers PB st2 = answers PB st1 @ [Some (ipc_code IPC_MESSAGE__STATUS__ENOUGH)]"
    using s2(5,6) by (simp add: answers_def status_frame_def)
  moreover have "length ms = 511" using m(2) by simp
  moreover have "tree_over E (cl_msg_arr st) (cl_heap st) st2"
    using s2(3) s1(3,4) slots_only_trans unfolding tree_over_def by metis
  ultimately show ?thesis
    using s1 s2 f(1) m(1) by (simp add: client_run_snoc)
qed


text \<open>
  C11.  From connection to block: fed with 512 message frames, the client thread acknowledges the first 511,
  answers \<open>ENOUGH\<close> to the last, builds the Merkle tree over exactly the texts received, finds all 512
  valid, and publishes a block over their root: the flag is set, the mutex is released, and the shared
  buffer holds a block that a peer decodes with the same nonce and root.  Every completion was marked seen
  exactly once.
\<close>

theorem client_publishes_block:
  assumes "protobuf_ok PB" "frames_carry PB frames msgs" "length msgs = BLOCKSIZE"
    and "mining_ok E (block_root E (map fst msgs))"
    and "heap_wf h" "length (sh_buffer_BLOCK_DATA sh) = BUFFER_SIZE" "\<not> sh_kill_thread_p2p sh"
  shows "\<exists>st'. client_run PB E frames (client_start sock sh h) = Some st' \<and> published PB E (map fst msgs) st' \<and>
    answers PB st' = replicate 511 (Some (ipc_code IPC_MESSAGE__STATUS__ACKN_OK)) @
      [Some (ipc_code IPC_MESSAGE__STATUS__ENOUGH)] \<and>
    cl_seen st' = 1024 \<and> length (cl_ring st') = cl_seen st'"
proof -
  have "client_inv [] (client_start sock sh h)" using client_start_inv [OF assms(5-7)] .
  from client_run_block [OF assms(1-4) this] show ?thesis by (auto simp: client_start_def)
qed

lemma demo_mining_ok: "mining_ok demo_env root"
proof -
  have "\<exists>n. first_hit demo_env root 3 t n" for t
  proof -
    have "puzzle_solved demo_hash root 3 (nonce_at demo_env (t + 255 * t))"
      using word_of_nat_eq_0_iff [of "256 * t", where 'a = 8]
      by (simp add: puzzle_solved_def nonce_at_def demo_env_def)
    then show ?thesis by (rule first_hit_exists)
  qed
  then show ?thesis using demo_env_ok2 demo_clock_ok by (simp add: mining_ok_def demo_env_def)
qed

definition demo_ipc :: IpcMessage where
  "demo_ipc = ipc_message__init\<lparr>im_transaction_msg := Some [1, 2], im_pubkey := Some (replicate 32 0),
     im_status_code := ipc_code IPC_MESSAGE__STATUS__MESSAGE_SENDED\<rparr>"

lemma demo_frame: "message_frame plain_pb (pb_ipc_pack plain_pb demo_ipc) [1, 2] (replicate 32 0)"
proof -
  have "0 \<notin> set (im_timestamp demo_ipc)" "ipc_size demo_ipc = 34"
    by (simp_all add: demo_ipc_def ipc_message__init_def ipc_size_def)
  then have "pb_ipc_unpack plain_pb (pb_ipc_pack plain_pb demo_ipc) = Some demo_ipc"
      "length (pb_ipc_pack plain_pb demo_ipc) \<le> 80 + ipc_size demo_ipc"
    using conjunct1 [OF plain_pb_ok [unfolded protobuf_ok_def], rule_format, of demo_ipc] by simp_all
  then show ?thesis
    by (simp add: message_frame_def ipc_message__unpack_def demo_ipc_def ipc_message__init_def ipc_size_def)
qed

theorem client_publishes_block_witness:
  "\<exists>st'. client_run plain_pb demo_env (replicate 512 (pb_ipc_pack plain_pb demo_ipc))
      (client_start 5 shared_init empty_heap) = Some st' \<and>
    published plain_pb demo_env (replicate 512 [1, 2]) st'"
proof -
  have "frames_carry plain_pb (replicate 512 (pb_ipc_pack plain_pb demo_ipc)) (replicate 512 ([1, 2], replicate 32 0))"
    using demo_frame by (simp add: frames_carry_def list_all2_conv_all_nth)
  from client_publishes_block [OF plain_pb_ok this _ demo_mining_ok, of empty_heap shared_init 5]
  show ?thesis by (auto simp: heap_wf_def empty_heap_def shared_init_def)
qed


section \<open>Status frames\<close>

definition receiving :: "bytes \<Rightarrow> client \<Rightarrow> client" where
  "receiving f st = st\<lparr>cl_ring := cl_ring st @ [Op_recv (cl_sock st)], cl_buffer := f @ drop (length f) (cl_buffer st),
     cl_seen := Suc (cl_seen st)\<rparr>"

lemma status_frame_sent:
  assumes "protobuf_ok PB" "clock_ok E" "client_inv got st" "length f \<le> BUFFER_SIZE"
  shows "\<exists>buf data. send_STATUS PB E False s (receiving f st) = Some ((receiving f st)
      \<lparr>cl_buffer2 := buf, cl_heap := tick (tick (cl_heap st)),
       cl_ring := cl_ring st @ [Op_recv (cl_sock st), Op_send (cl_sock st) data]\<rparr>) \<and>
    length buf = BUFFER_SIZE \<and> status_frame PB s data"
  using send_STATUS_ok [OF assms(1,2), of "receiving f st" False s] assms(3,4)
  by (simp add: receiving_def client_inv_def)

lemma client_reads_status':
  assumes "client_inv got st" "ipc_message__unpack PB (length f) f = Some im" "length f \<le> BUFFER_SIZE"
  shows "client_step PB E f (of_nat (length f)) st = do {
    st \<leftarrow> dispatch_status PB E (im_status_code im) (of_nat (length f)) (receiving f st);
    Some (st\<lparr>cl_seen := Suc (cl_seen st)\<rparr>) }"
  using client_reads_status [OF assms(2,3)] assms(1) by (simp add: client_inv_def receiving_def)

lemma client_asked:
  assumes "protobuf_ok PB" "clock_ok E" "client_inv got st"
    and "ipc_message__unpack PB (length f) f = Some im" "length f \<le> BUFFER_SIZE"
    and "im_status_code im = ipc_code IPC_MESSAGE__STATUS__ASK_NEED_MSG"
  shows "\<exists>st' data. client_step PB E f (of_nat (length f)) st = Some st' \<and> client_inv got st' \<and>
    cl_ring st' = cl_ring st @ [Op_recv (cl_sock st), Op_send (cl_sock st) data] \<and>
    status_frame PB IPC_MESSAGE__STATUS__NEED_MORE data"
proof -
  obtain buf data where s: "send_STATUS PB E False IPC_MESSAGE__STATUS__NEED_MORE (receiving f st) = Some ((receiving f st)
      \<lparr>cl_buffer2 := buf, cl_heap := tick (tick (cl_heap st)),
       cl_ring := cl_ring st @ [Op_recv (cl_sock st), Op_send (cl_sock st) data]\<rparr>)"
    "length buf = BUFFER_SIZE" "status_frame PB IPC_MESSAGE__STATUS__NEED_MORE data"
    using status_frame_sent [OF assms(1-3,5)] by blast
  let ?st = "(receiving f st)\<lparr>cl_buffer2 := buf, cl_heap := tick (tick (cl_heap st)),
    cl_ring := cl_ring st @ [Op_recv (cl_sock st), Op_send (cl_sock st) data], cl_seen := Suc (Suc (cl_seen st))\<rparr>"
  have "client_step PB E f (of_nat (length f)) st = Some ?st"
    using client_reads_status' [OF assms(3-5), of E] assms(6) s(1) by (simp add: dispatch_status_def receiving_def)
  moreover have "client_inv got ?st"
    using assms(3,5) s(2) by (simp add: client_inv_def receiving_def slots_hold_def heap_wf_def tick_def)
  moreover have "cl_ring ?st = cl_ring st @ [Op_recv (cl_sock st), Op_send (cl_sock st) data]" by simp
  ultimately show ?thesis using s(3) by blast
qed

text \<open>The answer to OK goes to the socket whose number is the number of bytes received.\<close>

lemma send_need_more_msg_eq:
  "send_need_more_msg PB E sock st =
     map_option (\<lambda>x. x\<lparr>cl_sock := cl_sock st\<rparr>) (send_STATUS PB E True IPC_MESSAGE__STATUS__NEED_MORE (st\<lparr>cl_sock := sock\<rparr>))"
  by (simp add: send_need_more_msg_def send_STATUS_def split: Option.bind_split)

lemma client_told_ok:
  assumes "protobuf_ok PB" "clock_ok E" "client_inv got st"
    and "ipc_message__unpack PB (length f) f = Some im" "length f \<le> BUFFER_SIZE"
    and "im_status_code im = ipc_code IPC_MESSAGE__STATUS__OK"
  shows "\<exists>st' data. client_step PB E f (of_nat (length f)) st = Some st' \<and> client_inv got st' \<and>
    cl_ring st' = cl_ring st @ [Op_recv (cl_sock st), Op_send (of_nat (length f)) data] \<and>
    status_frame PB IPC_MESSAGE__STATUS__NEED_MORE data"
proof -
  let ?r = "of_nat (length f) :: u32" and ?st = "receiving f st"
  obtain buf data where s: "send_STATUS PB E True IPC_MESSAGE__STATUS__NEED_MORE (?st\<lparr>cl_sock := ?r\<rparr>) = Some (?st\<lparr>cl_sock := ?r,
      cl_buffer := buf, cl_heap := tick (tick (cl_heap st)), cl_ring := cl_ring st @ [Op_recv (cl_sock st), Op_send ?r data]\<rparr>)"
    "length buf = BUFFER_SIZE" "status_frame PB IPC_MESSAGE__STATUS__NEED_MORE data"
    using send_STATUS_ok [OF assms(1,2), of "?st\<lparr>cl_sock := ?r\<rparr>" True IPC_MESSAGE__STATUS__NEED_MORE] assms(3,5)
    by (auto simp: receiving_def client_inv_def)
  let ?st' = "?st\<lparr>cl_buffer := buf, cl_heap := tick (tick (cl_heap st)),
    cl_ring := cl_ring st @ [Op_recv (cl_sock st), Op_send ?r data], cl_seen := Suc (Suc (cl_seen st))\<rparr>"
  have "client_step PB E f ?r st = Some ?st'"
    using client_reads_status' [OF assms(3-5), of E] assms(6) s(1)
    by (simp add: dispatch_status_def send_need_more_msg_eq receiving_def)
  moreover have "client_inv got ?st'"
    using assms(3,5) s(2) by (simp add: client_inv_def receiving_def slots_hold_def heap_wf_def tick_def)
  moreover have "cl_ring ?st' = cl_ring st @ [Op_recv (cl_sock st), Op_send ?r data]" by simp
  ultimately show ?thesis using s(3) by blast
qed

lemma client_all_sent:
  assumes "protobuf_ok PB" "clock_ok E" "client_inv got st"
    and "ipc_message__unpack PB (length f) f = Some im" "length f \<le> BUFFER_SIZE"
    and "im_status_code im = ipc_code IPC_MESSAGE__STATUS__ALL_BLOCK_MSG_SENDED"
  shows "\<exists>st'. client_step PB E f (of_nat (length f)) st = Some st' \<and> cl_block_filled st' \<and>
    cl_block st' = cl_block st \<and> sh_block_created_mtx (cl_shared st')"
proof -
  obtain buf data where s: "send_STATUS PB E False IPC_MESSAGE__STATUS__ALL_BLOCK_RECEIVED (receiving f st) = Some ((receiving f st)
      \<lparr>cl_buffer2 := buf, cl_heap := tick (tick (cl_heap st)),
       cl_ring := cl_ring st @ [Op_recv (cl_sock st), Op_send (cl_sock st) data]\<rparr>)"
    using status_frame_sent [OF assms(1-3,5)] by blast
  then show ?thesis
    using client_reads_status' [OF assms(3-5), of E] assms(3,6)
    by (simp add: dispatch_status_def receiving_def client_inv_def)
qed

lemma client_ignores:
  assumes "client_inv got st" "ipc_message__unpack PB (length f) f = Some im" "length f \<le> BUFFER_SIZE"
    and "im_status_code im \<notin> ipc_code ` {IPC_MESSAGE__STATUS__ASK_NEED_MSG, IPC_MESSAGE__STATUS__OK,
       IPC_MESSAGE__STATUS__MESSAGE_SENDED, IPC_MESSAGE__STATUS__ALL_BLOCK_MSG_SENDED}"
  shows "\<exists>st'. client_step PB E f (of_nat (length f)) st = Some st' \<and> client_inv got st' \<and>
    cl_seen st' = cl_seen st + 2 \<and> length (cl_ring st') = length (cl_ring st) + 1"
  using client_reads_status' [OF assms(1-3), of E] assms(1,3,4)
  by (simp add: dispatch_status_def receiving_def client_inv_def)

text \<open>
  C28.  The client's answers to frames that carry no message: asked whether it needs messages it sends \<open>NEED_MORE\<close>; to OK
  it also answers \<open>NEED_MORE\<close>, but on the socket whose number is the number of bytes it received; told that all
  messages were sent it stops with the mutex still held and no block published; a frame with any other status
  leaves its messages alone and is not answered, yet two completions are marked seen while one operation
  was submitted, so the head of the completion queue overtakes its tail.
\<close>

theorem client_status_answers:
  assumes "protobuf_ok PB" "clock_ok E" "client_inv got st"
    and "ipc_message__unpack PB (length f) f = Some im" "length f \<le> BUFFER_SIZE"
  shows "(im_status_code im = ipc_code IPC_MESSAGE__STATUS__ASK_NEED_MSG \<longrightarrow>
     (\<exists>st' data. client_step PB E f (of_nat (length f)) st = Some st' \<and> client_inv got st' \<and>
        cl_ring st' = cl_ring st @ [Op_recv (cl_sock st), Op_send (cl_sock st) data] \<and>
        read_ONLY_STATUS_response PB data (length data) = Some (ipc_code IPC_MESSAGE__STATUS__NEED_MORE))) \<and>
    (im_status_code im = ipc_code IPC_MESSAGE__STATUS__OK \<longrightarrow>
     (\<exists>st' data. client_step PB E f (of_nat (length f)) st = Some st' \<and> client_inv got st' \<and>
        cl_ring st' = cl_ring st @ [Op_recv (cl_sock st), Op_send (of_nat (length f)) data] \<and>
        read_ONLY_STATUS_response PB data (length data) = Some (ipc_code IPC_MESSAGE__STATUS__NEED_MORE))) \<and>
    (im_status_code im = ipc_code IPC_MESSAGE__STATUS__ALL_BLOCK_MSG_SENDED \<longrightarrow>
     (\<exists>st'. client_step PB E f (of_nat (length f)) st = Some st' \<and> cl_block_filled st' \<and>
        cl_block st' = cl_block st \<and> sh_block_created_mtx (cl_shared st'))) \<and>
    (im_status_code im \<notin> ipc_code ` {IPC_MESSAGE__STATUS__ASK_NEED_MSG, IPC_MESSAGE__STATUS__OK,
       IPC_MESSAGE__STATUS__MESSAGE_SENDED, IPC_MESSAGE__STATUS__ALL_BLOCK_MSG_SENDED} \<longrightarrow>
     (\<exists>st'. client_step PB E f (of_nat (length f)) st = Some st' \<and> client_inv got st' \<and>
        cl_seen st' = cl_seen st + 2 \<and> length (cl_ring st') = length (cl_ring st) + 1))"
  using client_asked [OF assms] client_told_ok [OF assms] client_all_sent [OF assms] client_ignores [OF assms(3-5)] unfolding status_frame_def by blast

theorem client_status_answers_witness:
  "\<exists>st'. client_step plain_pb demo_env (pb_ipc_pack plain_pb ipc_message__init) (of_nat (length (pb_ipc_pack plain_pb ipc_message__init)))
      (client_start 5 shared_init empty_heap) = Some st' \<and> cl_seen st' = 2 \<and> length (cl_ring st') = 1"
proof -
  have "client_inv [] (client_start 5 shared_init empty_heap)"
    by (rule client_start_inv) (simp_all add: heap_wf_def empty_heap_def shared_init_def)
  moreover have "ipc_message__unpack plain_pb (length (pb_ipc_pack plain_pb ipc_message__init))
        (pb_ipc_pack plain_pb ipc_message__init) = Some ipc_message__init"
      "length (pb_ipc_pack plain_pb ipc_message__init) \<le> BUFFER_SIZE"
    using conjunct1 [OF plain_pb_ok [unfolded protobuf_ok_def], rule_format, of ipc_message__init]
    by (simp_all add: ipc_message__unpack_def ipc_message__init_def ipc_size_def)
  ultimately show ?thesis
    using client_status_answers [OF plain_pb_ok demo_clock_ok] by (force simp: ipc_message__init_def client_start_def)
qed

section \<open>Teardown\<close>

lemma free_texts_ok:
  assumes "\<forall>i < n. \<exists>m b. h_msgs h (a + i) = Some m \<and> sm_message m = Some b"
  shows "\<exists>ms. free_texts a n h = Some (h\<lparr>h_msgs := ms\<rparr>) \<and> (\<forall>x. x < a \<or> a + n \<le> x \<longrightarrow> ms x = h_msgs h x) \<and>
    (\<forall>i < n. ms (a + i) \<noteq> None)"
  using assms
proof (induction n arbitrary: a h)
  case (Suc n)
  obtain m b where m: "h_msgs h a = Some m" "sm_message m = Some b" using Suc.prems by force
  let ?h = "h\<lparr>h_msgs := (h_msgs h)(a \<mapsto> m\<lparr>sm_message := None\<rparr>)\<rparr>"
  have "\<forall>i < n. \<exists>m b. h_msgs ?h (Suc a + i) = Some m \<and> sm_message m = Some b"
    using Suc.prems by fastforce
  from Suc.IH [OF this] obtain ms where "free_texts (Suc a) n ?h = Some (?h\<lparr>h_msgs := ms\<rparr>)"
      "\<forall>x. x < Suc a \<or> Suc a + n \<le> x \<longrightarrow> ms x = h_msgs ?h x" "\<forall>i < n. ms (Suc a + i) \<noteq> None" by blast
  moreover have "ms (a + i) \<noteq> None" if "i < Suc n" for i
    using calculation(2,3) that by (cases i) auto
  ultimately show ?case using m by (intro exI [of _ ms]) (auto simp: free_text_def write_msg_def)
next
  case 0
  show ?case by (intro exI [of _ "h_msgs h"]) simp
qed

lemma free_slots_eq:
  assumes "\<forall>i < n. h_msgs h (a + i) \<noteq> None"
  shows "free_slots a n h = Some (h\<lparr>h_msgs := (\<lambda>x. if a \<le> x \<and> x < a + n then None else h_msgs h x)\<rparr>)"
  using assms
proof (induction n arbitrary: a h)
  case 0
  have "(\<lambda>x. if a \<le> x \<and> x < a + 0 then None else h_msgs h x) = h_msgs h" by (rule ext) auto
  then show ?case by simp
next
  case (Suc n)
  let ?h = "h\<lparr>h_msgs := (h_msgs h)(a := None)\<rparr>"
  obtain m where m: "h_msgs h a = Some m" using Suc.prems by force
  have "\<forall>i < n. h_msgs ?h (Suc a + i) \<noteq> None" using Suc.prems by fastforce
  from Suc.IH [OF this] m show ?case by (simp add: fun_eq_iff)
qed

text \<open>Releasing nodes does not depend on the messages.\<close>

lemma foldM_frame:
  assumes "\<And>x s. f x (g s) = map_option g (f x s)"
  shows "foldM f xs (g s) = map_option g (foldM f xs s)"
proof (induction xs arbitrary: s)
  case (Cons x xs)
  then show ?case by (cases "f x s") (simp_all add: assms)
qed simp

lemma destroy_layers_frame:
  "destroy_layers Ls (h\<lparr>h_msgs := ms, h_tick := t\<rparr>) =
   map_option (\<lambda>h. h\<lparr>h_msgs := ms, h_tick := t\<rparr>) (destroy_layers Ls h)"
  unfolding destroy_layers_def
proof (rule foldM_frame [where g = "\<lambda>h. h\<lparr>h_msgs := ms, h_tick := t\<rparr>"])
  have fp: "free_point a (h\<lparr>h_msgs := ms, h_tick := t\<rparr>) =
      map_option (\<lambda>h. h\<lparr>h_msgs := ms, h_tick := t\<rparr>) (free_point a h)" for a h
    by (simp add: free_point_def)
  show "(case L of None \<Rightarrow> None | Some L \<Rightarrow> destoroy_a_layer L (h\<lparr>h_msgs := ms, h_tick := t\<rparr>)) =
      map_option (\<lambda>h. h\<lparr>h_msgs := ms, h_tick := t\<rparr>) (case L of None \<Rightarrow> None | Some L \<Rightarrow> destoroy_a_layer L h)" for L h
    using foldM_frame [of free_point "\<lambda>h. h\<lparr>h_msgs := ms, h_tick := t\<rparr>", OF fp]
    by (simp add: destoroy_a_layer_def split: option.split)
qed

lemma teardown_releases:
  assumes "generichash_ok (env_generichash E)" "tree_over E a h0 st" "cl_block st = Some b"
  shows "\<exists>h'. client_teardown st = Some ({}, h') \<and> h_points h' = h_points h0 \<and>
    h_msgs h' = (\<lambda>x. if a \<le> x \<and> x < a + 512 then None else h_msgs h0 x)"
proof -
  let ?H = "env_generichash E"
  obtain c hx h1 got where t: "cl_msg_arr st = a" "cl_container st = Some c" "calc_merkle_tree ?H (of_nat 9) a hx = Some (c, h1)"
      "heap_wf hx" "slots_only a h0 hx" "slots_hold hx a got" "length got = 512"
      "h_points (cl_heap st) = h_points h1" "h_msgs (cl_heap st) = h_msgs hx" "h_next (cl_heap st) = h_next h1"
    using assms(2) unfolding tree_over_def by blast
  note b = built_tree_facts [OF t(4) assms(1) _ _ full_slots(1) [OF t(6,7)] t(3), simplified]
  have len: "length (layers_for_destr c) = 9" using b(1,4) by (simp add: tree_built_def tree_part_def)
  have "\<forall>i < 512. \<exists>m b. h_msgs (cl_heap st) (a + i) = Some m \<and> sm_message m = Some b"
    using t(6,9) by (auto simp: slots_hold_def slot_ok_def)
  from free_texts_ok [OF this] obtain ms where ms: "free_texts a 512 (cl_heap st) = Some ((cl_heap st)\<lparr>h_msgs := ms\<rparr>)"
      "\<forall>x. x < a \<or> a + 512 \<le> x \<longrightarrow> ms x = h_msgs (cl_heap st) x" "\<forall>i < 512. ms (a + i) \<noteq> None" by blast
  have eq: "(cl_heap st)\<lparr>h_msgs := ms\<rparr> = h1\<lparr>h_msgs := ms, h_tick := h_tick (cl_heap st)\<rparr>" using t(8,10) by simp
  obtain h2 where h2: "destroy_layers (main_layer_pointer c) h1 = Some h2" "h_points h2 = h_points hx"
    using destroy_layers_built [OF b(1) assms(1) _ t(4) b(3,5)] by auto
  have "destroy_layers (layers_for_destr c) ((cl_heap st)\<lparr>h_msgs := ms\<rparr>) =
      Some (h2\<lparr>h_msgs := ms, h_tick := h_tick (cl_heap st)\<rparr>)"
    unfolding eq destroy_layers_frame using h2(1) b(4) by simp
  then show ?thesis
    using ms t(1,2,5,9) h2(2) len assms(3) free_slots_eq [of 512 "h2\<lparr>h_msgs := ms, h_tick := h_tick (cl_heap st)\<rparr>" a]
    by (auto simp: client_teardown_def client_objects_def free_object_def slots_only_def fun_eq_iff)
qed



end
