(* ===== verification/StutterSim.thy ===== *)
theory StutterSim
  imports Main
begin

text \<open>
  Simulation of a transition system by an abstract one, as used for the conversations of the program: a
  concrete step is an abstract step or leaves the abstract state where it is.  The second locale adds what
  is needed for progress: a measure that every step lowers, and a step in every state short of the goal.
\<close>

locale stutter_simulation =
  fixes astep :: "'a \<Rightarrow> 'a \<Rightarrow> bool" and cstep :: "'c \<Rightarrow> 'c \<Rightarrow> bool" and rel :: "'a \<Rightarrow> 'c \<Rightarrow> bool"
  assumes sim: "rel a c \<Longrightarrow> cstep c c' \<Longrightarrow> rel a c' \<or> (\<exists>a'. astep a a' \<and> rel a' c')"
begin

lemma run:
  assumes "cstep\<^sup>*\<^sup>* c c'" "rel a c"
  shows "\<exists>a'. astep\<^sup>*\<^sup>* a a' \<and> rel a' c'"
  using assms(1)
proof (induction rule: rtranclp_induct)
  case base
  then show ?case using assms(2) by blast
next
  case (step c1 c2)
  then obtain a1 where "astep\<^sup>*\<^sup>* a a1" "rel a1 c1" by blast
  then show ?case using sim [OF _ step.hyps(2)] rtranclp.rtrancl_into_rtrancl [of astep a a1] by blast
qed

end

locale progress =
  fixes cstep :: "'c \<Rightarrow> 'c \<Rightarrow> bool" and goal :: "'c \<Rightarrow> bool" and at_rank :: "nat \<Rightarrow> 'c \<Rightarrow> bool"
  assumes lowers: "at_rank n c \<Longrightarrow> cstep c c' \<Longrightarrow> \<exists>m < n. at_rank m c'"
    and moves: "at_rank n c \<Longrightarrow> \<not> goal c \<Longrightarrow> \<exists>c'. cstep c c'"
begin

lemma run_bounded:
  assumes "(cstep ^^ k) c c'" "at_rank n c"
  shows "\<exists>m. at_rank m c' \<and> m + k \<le> n"
  using assms(1)
proof (induction k arbitrary: c')
  case 0
  then show ?case using assms(2) by auto
next
  case (Suc k)
  then obtain c1 where c1: "(cstep ^^ k) c c1" "cstep c1 c'" by auto
  then obtain m where "at_rank m c1" "m + k \<le> n" using Suc.IH by blast
  then show ?case using lowers [OF _ c1(2)] by fastforce
qed

lemma maximal_run_reaches:
  assumes "cstep\<^sup>*\<^sup>* c c'" "at_rank n c" "\<nexists>c''. cstep c' c''"
  shows "goal c'"
proof -
  obtain k where "(cstep ^^ k) c c'" using assms(1) rtranclp_imp_relpowp by metis
  then show ?thesis using run_bounded [OF _ assms(2)] moves assms(3) by blast
qed

lemma goal_within:
  assumes "at_rank n c"
  shows "\<exists>k \<le> n. \<exists>c'. (cstep ^^ k) c c' \<and> goal c'"
  using assms
proof (induction n arbitrary: c rule: less_induct)
  case (less n)
  show ?case
  proof (cases "goal c")
    case True
    then show ?thesis by (intro exI [of _ 0]) simp
  next
    case False
    then obtain c1 where c1: "cstep c c1" using moves [OF less.prems] by blast
    then obtain m where m: "m < n" "at_rank m c1" using lowers [OF less.prems] by blast
    then obtain k c' where "k \<le> m" "(cstep ^^ k) c1 c'" "goal c'" using less.IH by blast
    then show ?thesis using c1 m(1) relpowp_Suc_I2 [of cstep c c1 k c'] by (intro exI [of _ "Suc k"]) auto
  qed
qed

end

text \<open>Own steps interleaved with steps of others, which neither help nor hinder, or break what the own steps
  work on for good.  \<open>interleaved n c c'\<close> is a run with \<open>n\<close> own steps.\<close>

inductive interleaved :: "('c \<Rightarrow> 'c \<Rightarrow> bool) \<Rightarrow> ('c \<Rightarrow> 'c \<Rightarrow> bool) \<Rightarrow> nat \<Rightarrow> 'c \<Rightarrow> 'c \<Rightarrow> bool"
  for own others where
  none: "interleaved own others 0 c c"
| own: "interleaved own others n c c1 \<Longrightarrow> own c1 c2 \<Longrightarrow> interleaved own others (Suc n) c c2"
| others: "interleaved own others n c c1 \<Longrightarrow> others c1 c2 \<Longrightarrow> interleaved own others n c c2"

locale interleaved_progress =
  fixes own others :: "'c \<Rightarrow> 'c \<Rightarrow> bool" and goal broken :: "'c \<Rightarrow> bool" and at_rank :: "nat \<Rightarrow> 'c \<Rightarrow> bool"
  assumes own_lowers: "at_rank n c \<Longrightarrow> own c c' \<Longrightarrow> \<exists>m < n. at_rank m c'"
    and others_keep: "at_rank n c \<Longrightarrow> others c c' \<Longrightarrow> at_rank n c' \<or> broken c'"
    and broken_stays: "broken c \<Longrightarrow> own c c' \<or> others c c' \<Longrightarrow> broken c'"
    and own_moves: "at_rank n c \<Longrightarrow> \<not> goal c \<Longrightarrow> \<exists>c'. own c c'"
begin

lemma interleaved_bounded:
  assumes "interleaved own others k c c'" "at_rank n c"
  shows "broken c' \<or> (\<exists>m. at_rank m c' \<and> m + k \<le> n)"
  using assms
proof (induction rule: interleaved.induct)
  case (none c)
  then show ?case by auto
next
  case (others k c c1 c2)
  then show ?case using others_keep broken_stays by blast
next
  case (own k c c1 c2)
  then show ?case
  proof (cases "broken c1")
    case False
    then obtain m where "at_rank m c1" "m + k \<le> n" using own by blast
    then show ?thesis using own_lowers [OF _ own.hyps(2)] by fastforce
  qed (use own.hyps(2) broken_stays in blast)
qed

lemma never_stuck:
  assumes "interleaved own others k c c'" "at_rank n c"
  shows "broken c' \<or> k \<le> n \<and> (goal c' \<or> (\<exists>c''. own c' c''))"
  using interleaved_bounded [OF assms] own_moves by fastforce

lemma extends_to_maximal:
  assumes "interleaved own others j c0 c" "at_rank n c"
  shows "\<exists>k c'. interleaved own others k c0 c' \<and> (\<nexists>c''. own c' c'')"
  using assms
proof (induction n arbitrary: c j rule: less_induct)
  case (less n)
  show ?case
  proof (cases "\<exists>c1. own c c1")
    case True
    then obtain c1 where c1: "own c c1" by blast
    then obtain m where "m < n" "at_rank m c1" using own_lowers less.prems(2) by blast
    then show ?thesis using less.IH interleaved.own [OF less.prems(1) c1] by blast
  qed (use less.prems(1) in blast)
qed

end

text \<open>Left alone, the own steps make progress in the sense above.\<close>

sublocale interleaved_progress \<subseteq> alone: progress own goal at_rank
  by unfold_locales (use own_lowers own_moves in blast)+


end
