(* ===== verification/Session.thy ===== *)
theory Session
  imports ServerInv ClientRun StutterSim "HOL-Library.Product_Lexorder"
begin

text \<open>
  A client and the message server together: one connection, whose frames are delivered in order and one
  at a time, while completions of other connections are processed in between.  The relation \<open>session_rel\<close>
  says, for every phase of the transfer, what the server, the client and the wire look like; the transfer is
  an abstract automaton over a message number and a phase.  Other connections can disturb a session only through a client that
  has finished: the entry \<open>FINISH_SENDING\<close> submits unprepared may repeat any older operation, and its
  completion closes the descriptor accepted last.  Both are steps here, and they leave the session marked as disturbed.
\<close>

section \<open>What a server step may touch\<close>

text \<open>The message in a slot, as it goes over the wire.\<close>

definition slot_data :: "server \<Rightarrow> nat \<Rightarrow> bytes \<times> bytes" where
  "slot_data sv i = (let m = the (h_msgs (sv_heap sv) (cb_buffer (sv_CBUF sv) ! i)) in (msg_bytes m, sm_public_key m))"

definition slot_list :: "server \<Rightarrow> nat \<Rightarrow> (bytes \<times> bytes) list" where
  "slot_list sv k = map (slot_data sv) [0 ..< k]"

definition slots_kept :: "server \<Rightarrow> server \<Rightarrow> bool" where
  "slots_kept sv sv' \<longleftrightarrow> filled (sv_CBUF sv) \<le> filled (sv_CBUF sv') \<and>
     (\<forall>i < filled (sv_CBUF sv). slot_data sv' i = slot_data sv i)"

definition concerns :: "u32 \<Rightarrow> sqe \<Rightarrow> bool" where
  "concerns fd e \<longleftrightarrow> (is_Op_send (fst e) \<or> is_Op_recv (fst e)) \<and> op_fd (fst e) = fd"

text \<open>The entries submitted for one descriptor; the last one is pending.\<close>

definition ops_of :: "u32 \<Rightarrow> server \<Rightarrow> sqe list" where
  "ops_of fd sv = filter (concerns fd) (sv_ring sv)"

definition local_step :: "u32 \<Rightarrow> server \<Rightarrow> server \<Rightarrow> bool" where
  "local_step fd sv sv' \<longleftrightarrow> slots_kept sv sv' \<and>
     (\<forall>i. i \<noteq> unat fd \<longrightarrow> sv_buffers sv' ! i = sv_buffers sv ! i \<and> sv_sended_N sv' ! i = sv_sended_N sv ! i) \<and>
     (\<forall>fd'. fd' \<noteq> fd \<longrightarrow> ops_of fd' sv' = ops_of fd' sv)"

lemma slot_list_kept:
  "slots_kept sv sv' \<Longrightarrow> k \<le> filled (sv_CBUF sv) \<Longrightarrow> slot_list sv' k = slot_list sv k"
  by (simp add: slot_list_def slots_kept_def)

lemma slot_list_Suc: "slot_list sv (Suc k) = slot_list sv k @ [slot_data sv k]"
  by (simp add: slot_list_def)

lemma length_slot_list [simp]: "length (slot_list sv k) = k"
  by (simp add: slot_list_def)

lemma slots_kept_same:
  assumes "sv_CBUF sv' = sv_CBUF sv" "h_msgs (sv_heap sv') = h_msgs (sv_heap sv)"
  shows "slots_kept sv sv'"
  using assms by (simp add: slots_kept_def slot_data_def)

lemma slots_kept_le:
  assumes "serving E (sv_CBUF sv) (sv_heap sv)" "cbuf_le (sv_CBUF sv) (sv_heap sv) (sv_CBUF sv') h"
    and "h_msgs (sv_heap sv') = h_msgs h"
  shows "slots_kept sv sv'"
proof -
  have "slot_data sv' i = slot_data sv i" if i: "i < filled (sv_CBUF sv)" for i
  proof -
    obtain m where "h_msgs (sv_heap sv) (cb_buffer (sv_CBUF sv) ! i) = Some m"
      using serving_parts(6) [OF assms(1) i] by (auto simp: good_msg_def)
    then show ?thesis
      using assms(2,3) i heap_le_msg [of "sv_heap sv" h] by (simp add: slot_data_def cbuf_le_def)
  qed
  then show ?thesis using assms(2) by (simp add: slots_kept_def cbuf_le_def)
qed

lemma ops_of_submit:
  "ops_of fd (submit op d sv) = ops_of fd sv @ (if concerns fd (op, d) then [(op, d)] else [])"
  by (simp add: ops_of_def)

lemma ops_of_cong: "sv_ring sv' = sv_ring sv \<Longrightarrow> ops_of fd sv' = ops_of fd sv"
  by (simp add: ops_of_def)

lemma concerns_simps [simp]:
  "concerns fd (Op_send fd' data, d) = (fd' = fd)" "concerns fd (Op_recv fd', d) = (fd' = fd)"
  "\<not> concerns fd (Op_accept, d)" "\<not> concerns fd (Op_unprepared, d)"
  by (simp_all add: concerns_def)

lemma request_SEND_STATUS_local:
  assumes "request_SEND_STATUS PB E fd st sv = Some sv'"
  shows "local_step fd sv sv'"
proof -
  let ?i = "unat fd"
  obtain n buf h where s: "send_ONLY_status_code PB E (sv_buffers sv ! ?i) st (sv_heap sv) = Some (n, buf, h)"
    and sv': "sv' = submit (Op_send fd (take n buf)) (make_request_data fd (flag_num READ_RESPONSE))
      (sv\<lparr>sv_buffers := (sv_buffers sv)[?i := buf], sv_lengths := (sv_lengths sv)[?i := of_nat n], sv_heap := h\<rparr>)"
    using assms by (auto simp: request_SEND_STATUS_def get_client_buffer_def bind_eq_Some_conv Let_def split: if_splits)
  have "slots_kept sv sv'" using send_status_heap [OF s] unfolding sv' by (intro slots_kept_same) simp_all
  then show ?thesis unfolding sv' local_step_def by (simp add: ops_of_submit ops_of_def)
qed

lemma READ_STATUS_RESPONSE_local:
  "READ_STATUS_RESPONSE fd sv = Some sv' \<Longrightarrow> local_step fd sv sv'"
  by (auto simp: READ_STATUS_RESPONSE_def get_client_buffer_def local_step_def ops_of_def
      intro!: slots_kept_same split: if_splits)

lemma handle_NEED_MORE_local:
  assumes E: "server_env E" and inv: "server_inv E sv"
    and st: "handle_response_NEED_MORE_MSG PB E fd sv = Some sv'"
  shows "local_step fd sv sv'"
proof (cases "N_MESSAGES \<le> sv_sended_N sv ! unat fd")
  case True
  then show ?thesis
    using st request_SEND_STATUS_local
    by (auto simp: handle_response_NEED_MORE_MSG_def bind_eq_Some_conv split: if_splits)
next
  case False
  let ?i = "unat fd" and ?N = "sv_sended_N sv ! unat fd"
  have N: "unat ?N < CIRC_BUF_SIZE" using False by (simp add: word_less_nat_alt not_le)
  from st False obtain buf0 a cb h n buf h' where
      g: "GET_nth_circ_buf E (sv_CBUF sv) ?N (sv_heap sv) = Some (a, cb, h)"
    and s: "serialize_data_v2 PB E buf0 a h = Some (n, buf, h')"
    and sv': "sv' = (submit (Op_send fd (take n buf)) (make_request_data fd (flag_num READ_RESPONSE))
          (sv\<lparr>sv_CBUF := cb, sv_heap := h', sv_buffers := (sv_buffers sv)[?i := buf],
              sv_lengths := (sv_lengths sv)[?i := of_nat n]\<rparr>))
        \<lparr>sv_sended_N := (sv_sended_N sv)[?i := ?N + 1]\<rparr>"
    by (auto simp: handle_response_NEED_MORE_MSG_def get_client_buffer_def bind_eq_Some_conv Let_def split: if_splits)
  have sv: "serving E (sv_CBUF sv) (sv_heap sv)" using inv by (simp add: server_inv_def)
  have "cbuf_le (sv_CBUF sv) (sv_heap sv) cb h" using GET_nth_ok [OF E sv N] g by auto
  then have "slots_kept sv sv'"
    using serialize_heap [OF s] unfolding sv' by (intro slots_kept_le [OF sv]) simp_all
  then show ?thesis unfolding sv' local_step_def by (simp add: ops_of_def)
qed

lemma FINISH_SENDING_local:
  assumes "server_ok E" "server_inv E sv" "FINISH_SENDING E fd sv = Some sv'"
  shows "local_step fd sv sv' \<and> sv_buffers sv' = sv_buffers sv \<and> ops_of fd sv' = ops_of fd sv"
proof -
  have fd: "unat fd < MAX_CONNECTIONS"
    using assms(2,3) by (auto simp: FINISH_SENDING_def Let_def server_inv_def split: if_splits)
  from finish_sending_cases [OF assms(1,2) this] assms(3)
  have "filled (sv_CBUF sv) = CIRC_BUF_SIZE" "cb_buffer (sv_CBUF sv') = cb_buffer (sv_CBUF sv)"
    "cb_fill_size (sv_CBUF sv') = 0" "h_msgs (sv_heap sv') = h_msgs (sv_heap sv)"
    "sv_ring sv' = sv_ring sv @ [(Op_unprepared, make_request_data fd (flag_num FLAG_CLOSE_CONNECTION))]"
    by (auto split: if_splits)
  moreover have "sv_buffers sv' = sv_buffers sv" "sv_sended_N sv' = (sv_sended_N sv)[unat fd := 0]"
    using assms(3) by (auto simp: FINISH_SENDING_def Let_def bind_eq_Some_conv split: if_splits)
  ultimately show ?thesis by (simp add: local_step_def slots_kept_def slot_data_def ops_of_def filled_def)
qed

text \<open>The connection a completion belongs to.\<close>

definition party :: "cqe \<Rightarrow> u32" where
  "party c = (if request_data_event_type (cq_user_data c) = flag_num FLAG_ACCEPT then cq_res c
     else request_data_client_fd (cq_user_data c))"

lemma ucast_is_fd: "(ucast (d :: u64) :: u32) = request_data_client_fd d"
  unfolding request_data_client_fd_def mask_lo
  by (rule bit_word_eqI) (simp add: bit_ucast_iff bit_and_iff bit_mask_iff)

lemma event_loop_step_local:
  assumes E: "server_ok E" and inv: "server_inv E sv" and st: "event_loop_step PB E c sv = Some sv'"
  shows "local_step (party c) sv sv'"
proof -
  let ?t = "request_data_event_type (cq_user_data c)" and ?fd = "request_data_client_fd (cq_user_data c)"
  have E': "server_env E" using E by (simp add: server_ok_def)
  consider (accept) "?t = flag_num FLAG_ACCEPT" | (read) "?t = flag_num READ_RESPONSE"
    | (close) "?t = flag_num FLAG_CLOSE_CONNECTION" | (test) "?t = flag_num TEST_RESPONSE"
    | (other) "?t \<noteq> flag_num FLAG_ACCEPT" "?t \<noteq> flag_num READ_RESPONSE" "?t \<noteq> flag_num FLAG_CLOSE_CONNECTION"
        "?t \<noteq> flag_num TEST_RESPONSE" by blast
  then show ?thesis
  proof cases
    case accept
    let ?sv = "(add_accept_request sv)\<lparr>sv_current_fd := request_data_client_fd (scast (cq_res c))\<rparr>"
    have "local_step (cq_res c) ?sv sv'"
      using st accept request_SEND_STATUS_local by (auto simp: event_loop_step_def request_ASK_NEED_MSG_def)
    then show ?thesis
      using accept by (simp add: party_def local_step_def slots_kept_def slot_data_def add_accept_request_def ops_of_def)
  next
    case read
    then have "READ_STATUS_RESPONSE ?fd sv = Some sv' \<or> sv' = sv" "party c = ?fd"
      using st by (auto simp: event_loop_step_def party_def split: if_splits)
    then show ?thesis using READ_STATUS_RESPONSE_local by (auto simp: local_step_def slots_kept_def)
  next
    case close
    then show ?thesis
      using st by (auto simp: event_loop_step_def Let_def party_def local_step_def ops_of_def intro!: slots_kept_same split: if_splits)
  next
    case test
    then have p: "party c = ?fd" by (simp add: party_def)
    from test st have "handle_response_NEED_MORE_MSG PB E ?fd sv = Some sv' \<or>
        request_ASK_NEED_MSG PB E ?fd sv = Some sv' \<or> FINISH_SENDING E ?fd sv = Some sv' \<or> sv' = sv"
      by (auto simp: event_loop_step_def test_response_def ucast_is_fd Let_def bind_eq_Some_conv split: if_splits)
    then show ?thesis
      using handle_NEED_MORE_local [OF E' inv] request_SEND_STATUS_local FINISH_SENDING_local [OF E inv] p
      by (auto simp: request_ASK_NEED_MSG_def local_step_def slots_kept_def)
  next
    case other
    then show ?thesis using st by (auto simp: event_loop_step_def Let_def local_step_def slots_kept_def split: if_splits)
  qed
qed


section \<open>A session\<close>

record session =
  ss_srv :: server
  ss_cl :: client
  ss_to_cl :: "bytes list"
  ss_to_srv :: "bytes list"
  ss_disturbed :: bool

text \<open>The kernel fills the buffer of a pending receive.\<close>

definition sv_store :: "u32 \<Rightarrow> bytes \<Rightarrow> server \<Rightarrow> server" where
  "sv_store fd f sv = sv\<lparr>sv_buffers := (sv_buffers sv)[unat fd := f @ drop (length f) (sv_buffers sv ! unat fd)]\<rparr>"

text \<open>Steps of the connection itself: the pending send completes and its bytes are under way; a frame
  arrives at the client, which does one iteration; the client's answer completes the pending receive.\<close>

inductive own_at :: "protobuf \<Rightarrow> env \<Rightarrow> env \<Rightarrow> u32 \<Rightarrow> session \<Rightarrow> session \<Rightarrow> bool" for PB E E' fd where
  sent: "ops_of fd (ss_srv s) \<noteq> [] \<Longrightarrow> last (ops_of fd (ss_srv s)) = (Op_send fd f, d) \<Longrightarrow>
    event_loop_step PB E \<lparr>cq_res = of_nat (length f), cq_user_data = d\<rparr> (ss_srv s) = Some sv' \<Longrightarrow>
    own_at PB E E' fd s (s\<lparr>ss_srv := sv', ss_to_cl := ss_to_cl s @ [f]\<rparr>)"
| client: "ss_to_cl s = f # fs \<Longrightarrow> client_step PB E' f (of_nat (length f)) (ss_cl s) = Some cl' \<Longrightarrow>
    own_at PB E E' fd s (s\<lparr>ss_cl := cl', ss_to_cl := fs,
      ss_to_srv := ss_to_srv s @ map op_data (filter is_Op_send (drop (length (cl_ring (ss_cl s))) (cl_ring cl')))\<rparr>)"
| received: "ops_of fd (ss_srv s) \<noteq> [] \<Longrightarrow> last (ops_of fd (ss_srv s)) = (Op_recv fd, d) \<Longrightarrow>
    ss_to_srv s = f # fs \<Longrightarrow> length f \<le> BUFFER_SIZE \<Longrightarrow>
    event_loop_step PB E \<lparr>cq_res = of_nat (length f), cq_user_data = d\<rparr> (sv_store fd f (ss_srv s)) = Some sv' \<Longrightarrow>
    own_at PB E E' fd s (s\<lparr>ss_srv := sv', ss_to_srv := fs\<rparr>)"

text \<open>What uninitialised objects of the server show is left open, anew at every step.\<close>

abbreviation left_over :: "env \<Rightarrow> bytes \<Rightarrow> env" where
  "left_over E left \<equiv> E\<lparr>env_stack := left\<rparr>"

definition own_step :: "protobuf \<Rightarrow> env \<Rightarrow> env \<Rightarrow> u32 \<Rightarrow> session \<Rightarrow> session \<Rightarrow> bool" where
  "own_step PB E E' fd s s' \<longleftrightarrow> (\<exists>left. own_at PB (left_over E left) E' fd s s')"

text \<open>Steps of all other connections, in whatever state they are, and of the kernel.  A completed close request shuts
  down the descriptor accepted last, whosever it is, and resets the counter of the descriptor in its tag: if either is that of this
  session, it is disturbed.  The unprepared entry of a close request may be any older operation: a repeated send of this
  connection adds bytes to its stream, a repeated receive takes some away and stores them.\<close>

inductive other_step :: "protobuf \<Rightarrow> env \<Rightarrow> u32 \<Rightarrow> session \<Rightarrow> session \<Rightarrow> bool" for PB E fd where
  completed: "party c \<noteq> fd \<Longrightarrow>
    (request_data_event_type (cq_user_data c) = flag_num FLAG_CLOSE_CONNECTION \<Longrightarrow> sv_current_fd (ss_srv s) \<noteq> fd) \<Longrightarrow>
    event_loop_step PB (left_over E left) c (ss_srv s) = Some sv' \<Longrightarrow> other_step PB E fd s (s\<lparr>ss_srv := sv'\<rparr>)"
| stored: "fd' \<noteq> fd \<Longrightarrow> length f \<le> BUFFER_SIZE \<Longrightarrow> other_step PB E fd s (s\<lparr>ss_srv := sv_store fd' f (ss_srv s)\<rparr>)"
| closed: "request_data_event_type (cq_user_data c) = flag_num FLAG_CLOSE_CONNECTION \<Longrightarrow>
    (Op_unprepared, cq_user_data c) \<in> set (sv_ring (ss_srv s)) \<Longrightarrow> sv_current_fd (ss_srv s) = fd \<or> party c = fd \<Longrightarrow>
    event_loop_step PB (left_over E left) c (ss_srv s) = Some sv' \<Longrightarrow>
    other_step PB E fd s (s\<lparr>ss_srv := sv', ss_disturbed := True\<rparr>)"
| stale: "(Op_unprepared, d) \<in> set (sv_ring (ss_srv s)) \<Longrightarrow> length buf = BUFFER_SIZE \<Longrightarrow>
    other_step PB E fd s (s\<lparr>ss_srv := (ss_srv s)\<lparr>sv_buffers := (sv_buffers (ss_srv s))[unat fd := buf]\<rparr>,
      ss_to_cl := to_cl, ss_to_srv := to_srv, ss_disturbed := True\<rparr>)"

text \<open>Some client has finished: an unprepared entry was submitted.\<close>

definition someone_finished :: "server \<Rightarrow> bool" where
  "someone_finished sv \<longleftrightarrow> (\<exists>d. (Op_unprepared, d) \<in> set (sv_ring sv))"

definition disturbed :: "session \<Rightarrow> bool" where
  "disturbed s \<longleftrightarrow> ss_disturbed s \<and> someone_finished (ss_srv s)"

section \<open>The transfer as an automaton\<close>

datatype phase = Asking | Asked | Wanted | Serving | Served | Acknowledged | Enough | Finished

inductive transfer :: "nat \<times> phase \<Rightarrow> nat \<times> phase \<Rightarrow> bool" where
  "transfer (k, Asking) (k, Asked)"
| "transfer (k, Asked) (k, Wanted)"
| "transfer (k, Wanted) (k, Serving)"
| "transfer (k, Serving) (k, Served)"
| "k < 511 \<Longrightarrow> transfer (k, Served) (k, Acknowledged)"
| "k < 511 \<Longrightarrow> transfer (k, Acknowledged) (Suc k, Asking)"
| "transfer (511, Served) (511, Enough)"
| "transfer (511, Enough) (511, Finished)"

primrec phase_rank :: "phase \<Rightarrow> nat" where
  "phase_rank Asking = 6"
| "phase_rank Asked = 5"
| "phase_rank Wanted = 4"
| "phase_rank Serving = 3"
| "phase_rank Served = 2"
| "phase_rank Acknowledged = 1"
| "phase_rank Enough = 1"
| "phase_rank Finished = 0"

fun transfer_rank :: "nat \<times> phase \<Rightarrow> nat" where
  "transfer_rank (k, p) = (511 - k) * 6 + phase_rank p"

lemma transfer_lowers: "transfer a b \<Longrightarrow> Suc (transfer_rank b) = transfer_rank a"
  by (induction rule: transfer.induct) auto

text \<open>The phases in the order of the protocol; message numbers and phases are compared lexicographically.  A step leads
  forward.\<close>

primrec phase_index :: "phase \<Rightarrow> nat" where
  "phase_index Asking = 0"
| "phase_index Asked = 1"
| "phase_index Wanted = 2"
| "phase_index Serving = 3"
| "phase_index Served = 4"
| "phase_index Acknowledged = 5"
| "phase_index Enough = 6"
| "phase_index Finished = 7"

lemma phase_index_inj: "phase_index p = phase_index q \<Longrightarrow> p = q"
  by (cases p; cases q) simp_all

instantiation phase :: linorder
begin

definition less_eq_phase :: "phase \<Rightarrow> phase \<Rightarrow> bool" where
  "p \<le> q \<longleftrightarrow> phase_index p \<le> phase_index q"

definition less_phase :: "phase \<Rightarrow> phase \<Rightarrow> bool" where
  "p < q \<longleftrightarrow> phase_index p < phase_index q"

instance
  by standard (auto simp: less_eq_phase_def less_phase_def intro: phase_index_inj)

end

lemma transfer_forward: "transfer a b \<Longrightarrow> a < b"
  by (induction rule: transfer.induct) (simp_all add: less_phase_def)

lemma transfer_run_forward: "transfer\<^sup>*\<^sup>* a b \<Longrightarrow> a \<le> b"
  by (induction rule: rtranclp_induct) (blast intro: order_trans less_imp_le transfer_forward)+

inductive_cases own_atE: "own_at PB E E' fd s s'"

text \<open>What the server has pending for the connection and what is on the wire.\<close>

definition asks :: "protobuf \<Rightarrow> bytes \<Rightarrow> bool" where
  "asks PB f \<longleftrightarrow> f \<noteq> [] \<and> length f \<le> BUFFER_SIZE \<and> ipc_packed PB f \<and>
     (\<exists>im. ipc_message__unpack PB (length f) f = Some im \<and> im_status_code im = ipc_code IPC_MESSAGE__STATUS__ASK_NEED_MSG)"

definition brings :: "protobuf \<Rightarrow> bytes \<times> bytes \<Rightarrow> bytes \<Rightarrow> bool" where
  "brings PB m f \<longleftrightarrow> f \<noteq> [] \<and> ipc_packed PB f \<and> message_frame PB f (fst m) (snd m)"

abbreviation will_send :: "u32 \<Rightarrow> bytes \<Rightarrow> sqe" where
  "will_send fd f \<equiv> (Op_send fd f, make_request_data fd (flag_num READ_RESPONSE))"

abbreviation will_recv :: "u32 \<Rightarrow> sqe" where
  "will_recv fd \<equiv> (Op_recv fd, make_request_data fd (flag_num TEST_RESPONSE))"

primrec wire_shape :: "protobuf \<Rightarrow> u32 \<Rightarrow> bytes \<times> bytes \<Rightarrow> phase \<Rightarrow> sqe \<Rightarrow> bytes list \<Rightarrow> bytes list \<Rightarrow> bool" where
  "wire_shape PB fd m Asking e to_cl to_srv \<longleftrightarrow> (\<exists>f. asks PB f \<and> e = will_send fd f) \<and> to_cl = [] \<and> to_srv = []"
| "wire_shape PB fd m Asked e to_cl to_srv \<longleftrightarrow> e = will_recv fd \<and> (\<exists>f. asks PB f \<and> to_cl = [f]) \<and> to_srv = []"
| "wire_shape PB fd m Wanted e to_cl to_srv \<longleftrightarrow> e = will_recv fd \<and> to_cl = [] \<and>
     (\<exists>f. status_frame PB IPC_MESSAGE__STATUS__NEED_MORE f \<and> to_srv = [f])"
| "wire_shape PB fd m Serving e to_cl to_srv \<longleftrightarrow> (\<exists>f. brings PB m f \<and> e = will_send fd f) \<and> to_cl = [] \<and> to_srv = []"
| "wire_shape PB fd m Served e to_cl to_srv \<longleftrightarrow> e = will_recv fd \<and> (\<exists>f. brings PB m f \<and> to_cl = [f]) \<and> to_srv = []"
| "wire_shape PB fd m Acknowledged e to_cl to_srv \<longleftrightarrow> e = will_recv fd \<and> to_cl = [] \<and>
     (\<exists>f. status_frame PB IPC_MESSAGE__STATUS__ACKN_OK f \<and> to_srv = [f])"
| "wire_shape PB fd m Enough e to_cl to_srv \<longleftrightarrow> e = will_recv fd \<and> to_cl = [] \<and>
     (\<exists>f. status_frame PB IPC_MESSAGE__STATUS__ENOUGH f \<and> to_srv = [f])"
| "wire_shape PB fd m Finished e to_cl to_srv \<longleftrightarrow> e = will_recv fd \<and> to_cl = [] \<and> to_srv = []"

text \<open>How many messages the server has counted and the client has stored.\<close>

primrec counted :: "nat \<Rightarrow> phase \<Rightarrow> nat" where
  "counted k Asking = k"
| "counted k Asked = k"
| "counted k Wanted = k"
| "counted k Serving = Suc k"
| "counted k Served = Suc k"
| "counted k Acknowledged = Suc k"
| "counted k Enough = Suc k"
| "counted k Finished = 0"

primrec held :: "nat \<Rightarrow> phase \<Rightarrow> nat" where
  "held k Asking = k"
| "held k Asked = k"
| "held k Wanted = k"
| "held k Serving = k"
| "held k Served = k"
| "held k Acknowledged = Suc k"
| "held k Enough = Suc k"
| "held k Finished = Suc k"

lemma held_mono: "(k, p) \<le> (l, q) \<Longrightarrow> held k p \<le> held l q"
  by (cases p; cases q) (auto simp: less_eq_phase_def)

definition owns :: "protobuf \<Rightarrow> env \<Rightarrow> phase \<Rightarrow> (bytes \<times> bytes) list \<Rightarrow> client \<Rightarrow> bool" where
  "owns PB E' p got cl \<longleftrightarrow>
     (if p \<in> {Enough, Finished} then published PB E' (map fst got) cl else client_inv got cl)"

text \<open>The slots the server must have filled by then.\<close>

definition stock :: "nat \<Rightarrow> phase \<Rightarrow> nat" where
  "stock k p = (if p \<in> {Asking, Asked, Wanted} then k else Suc k)"

definition session_rel :: "protobuf \<Rightarrow> env \<Rightarrow> env \<Rightarrow> u32 \<Rightarrow> nat \<times> phase \<Rightarrow> session \<Rightarrow> bool" where
  "session_rel PB E E' fd a s \<longleftrightarrow> (case a of (k, p) \<Rightarrow> let sv = ss_srv s in
     \<not> ss_disturbed s \<and> server_inv E sv \<and> k < 512 \<and> (p = Acknowledged \<longrightarrow> k < 511) \<and> (p \<in> {Enough, Finished} \<longrightarrow> k = 511) \<and>
     stock k p \<le> filled (sv_CBUF sv) \<and> unat (sv_sended_N sv ! unat fd) = counted k p \<and>
     ops_of fd sv \<noteq> [] \<and> wire_shape PB fd (slot_data sv k) p (last (ops_of fd sv)) (ss_to_cl s) (ss_to_srv s) \<and>
     owns PB E' p (slot_list sv (held k p)) (ss_cl s))"

text \<open>What a session relies on: both machines' environments, the codec, and a descriptor the server can
  handle.\<close>

definition session_ok :: "protobuf \<Rightarrow> env \<Rightarrow> env \<Rightarrow> u32 \<Rightarrow> bool" where
  "session_ok PB E E' fd \<longleftrightarrow> protobuf_ok PB \<and> clock_ok E \<and> clock_ok E' \<and> server_ok E \<and>
     unat fd \<le> 10 \<and> (\<forall>root. mining_ok E' root)"

text \<open>Neither depends on what uninitialised objects show.\<close>

lemma server_inv_left_over [simp]: "server_inv (left_over E left) sv = server_inv E sv"
  by (simp add: server_inv_def serving_def slots_ok_def good_msg_def validate_a_message_def)

lemma session_left_over [simp]:
  "session_ok PB (left_over E left) E' fd = session_ok PB E E' fd"
  "session_rel PB (left_over E left) E' fd = session_rel PB E E' fd" "server_ok (left_over E left) = server_ok E"
  by (simp_all add: session_ok_def session_rel_def clock_ok_def server_ok_def server_env_def sign_ok_def random_ok_def fun_eq_iff)

lemma held_stock: "held k p \<le> stock k p"
  by (cases p) (simp_all add: stock_def)

lemma wire_shape_cong:
  "stock k p \<le> k \<Longrightarrow> wire_shape PB fd m p e tc ts = wire_shape PB fd m' p e tc ts"
  by (cases p) (simp_all add: stock_def)

section \<open>Other connections do not disturb\<close>

lemma unat_neq: "(a :: u32) \<noteq> b \<Longrightarrow> unat a \<noteq> unat b"
  by (simp add: word_unat_eq_iff)

lemma session_rel_local:
  assumes "session_rel PB E E' fd a s" "local_step fd' (ss_srv s) sv'" "fd' \<noteq> fd" "server_inv E sv'"
  shows "session_rel PB E E' fd a (s\<lparr>ss_srv := sv'\<rparr>)"
proof -
  obtain k p where a: "a = (k, p)" by (cases a)
  note rel = assms(1) [unfolded session_rel_def a Let_def split_beta fst_conv snd_conv]
  have l: "slots_kept (ss_srv s) sv'" "sv_sended_N sv' ! unat fd = sv_sended_N (ss_srv s) ! unat fd"
      "ops_of fd sv' = ops_of fd (ss_srv s)"
    using assms(2,3) unat_neq [of fd fd'] by (auto simp: local_step_def)
  have "slot_list sv' (held k p) = slot_list (ss_srv s) (held k p)"
    using slot_list_kept [OF l(1)] held_stock [of k p] rel by simp
  moreover have "wire_shape PB fd (slot_data sv' k) p e tc ts = wire_shape PB fd (slot_data (ss_srv s) k) p e tc ts" for e tc ts
  proof (cases "k < filled (sv_CBUF (ss_srv s))")
    case True
    then show ?thesis using l(1) by (simp add: slots_kept_def)
  next
    case False
    then show ?thesis using rel by (intro wire_shape_cong [of k]) linarith
  qed
  moreover have "filled (sv_CBUF (ss_srv s)) \<le> filled (sv_CBUF sv')" using l(1) by (simp add: slots_kept_def)
  ultimately show ?thesis
    using rel l(2,3) assms(4) by (simp add: session_rel_def a Let_def)
qed

lemma sv_store_inv: "server_inv E sv \<Longrightarrow> length f \<le> BUFFER_SIZE \<Longrightarrow> server_inv E (sv_store fd f sv)"
  by (cases "unat fd < length (sv_buffers sv)")
    (auto simp: server_inv_def sv_store_def list_update_beyond dest!: set_update_subset_insert [THEN subsetD])

lemma sv_store_local: "local_step fd sv (sv_store fd f sv)"
  by (auto simp: local_step_def sv_store_def ops_of_def intro!: slots_kept_same)

text \<open>Entries are never taken back.\<close>

lemma event_loop_step_ring:
  assumes "event_loop_step PB E c sv = Some sv'"
  shows "set (sv_ring sv) \<subseteq> set (sv_ring sv')"
proof -
  define grows :: "server \<Rightarrow> server \<Rightarrow> bool" where "grows x y \<longleftrightarrow> set (sv_ring x) \<subseteq> set (sv_ring y)" for x y
  have same: "grows x x" for x by (simp add: grows_def)
  have status: "grows x y" if "request_SEND_STATUS PB E fd st x = Some y" for fd st x y
    using that by (auto simp: grows_def request_SEND_STATUS_def bind_eq_Some_conv Let_def)
  have more: "grows x y" if "handle_response_NEED_MORE_MSG PB E fd x = Some y" for fd x y
    using that status by (auto simp: handle_response_NEED_MORE_MSG_def bind_eq_Some_conv Let_def grows_def split: if_splits)
  have finish: "grows x y" if "FINISH_SENDING E fd x = Some y" for fd x y
    using that by (auto simp: grows_def FINISH_SENDING_def bind_eq_Some_conv Let_def split: if_splits)
  have test: "grows x y" if "test_response PB E c x = Some y" for x y
    using that status more finish same
    by (auto simp: test_response_def request_ASK_NEED_MSG_def bind_eq_Some_conv Let_def split: if_splits)
  have read: "grows x y" if "READ_STATUS_RESPONSE fd x = Some y" for fd x y
    using that by (auto simp: grows_def READ_STATUS_RESPONSE_def bind_eq_Some_conv Let_def)
  have close: "grows x (x\<lparr>sv_closed := cs, sv_sended_N := ns\<rparr>)" for x cs ns by (simp add: grows_def)
  have accept: "grows sv y" if "request_SEND_STATUS PB E fd st ((add_accept_request sv)\<lparr>sv_current_fd := n\<rparr>) = Some y" for fd st n y
    using status [OF that] by (simp add: grows_def add_accept_request_def)
  have "grows sv sv'"
    using assms accept read test close same
    by (auto simp: event_loop_step_def request_ASK_NEED_MSG_def Let_def split: if_splits)
  then show ?thesis by (simp add: grows_def)
qed

lemma someone_finished_stays: "event_loop_step PB E c sv = Some sv' \<Longrightarrow> someone_finished sv \<Longrightarrow> someone_finished sv'"
  using event_loop_step_ring by (fastforce simp: someone_finished_def)

lemma someone_finished_store [simp]: "someone_finished (sv_store fd f sv) = someone_finished sv"
  by (simp add: someone_finished_def sv_store_def)

lemma disturbed_stays:
  assumes "disturbed s" "own_step PB E E' fd s s' \<or> other_step PB E fd s s'"
  shows "disturbed s'"
proof -
  have "disturbed s'" if "own_at PB E1 E' fd s s'" for E1
    using that
  proof cases
    case (sent f d sv')
    then show ?thesis using assms(1) someone_finished_stays [OF sent(4)] by (simp add: disturbed_def)
  next
    case (received d f fs sv')
    then show ?thesis using assms(1) someone_finished_stays [OF received(6)] by (simp add: disturbed_def)
  qed (use assms(1) in \<open>simp add: disturbed_def\<close>)
  moreover have "disturbed s'" if "other_step PB E fd s s'"
    using that
  proof cases
    case (completed c left sv')
    then show ?thesis using assms(1) someone_finished_stays [OF completed(4)] by (simp add: disturbed_def)
  next
    case (closed c left sv')
    then show ?thesis using assms(1) someone_finished_stays [OF closed(5)] by (simp add: disturbed_def)
  qed (use assms(1) in \<open>simp_all add: disturbed_def someone_finished_def sv_store_def\<close>)
  ultimately show ?thesis using assms(2) by (auto simp: own_step_def)
qed

lemma other_step_keeps:
  assumes "session_ok PB E E' fd" "session_rel PB E E' fd a s" "other_step PB E fd s s'"
  shows "session_rel PB E E' fd a s' \<or> disturbed s'"
proof -
  have inv: "server_ok (left_over E left)" "server_inv (left_over E left) (ss_srv s)" for left
    using assms(1,2) by (auto simp: session_ok_def session_rel_def Let_def split: prod.splits)
  from assms(3) show ?thesis
  proof cases
    case (completed c left sv')
    then show ?thesis
      using session_rel_local [OF assms(2) event_loop_step_local [OF inv completed(4)]] event_loop_step_inv [OF inv completed(4)]
      by simp
  next
    case (stored fd' f)
    then show ?thesis
      using session_rel_local [OF assms(2) sv_store_local] sv_store_inv [OF inv(2) stored(3)] by simp
  next
    case (closed c left sv')
    then have "someone_finished (ss_srv s)" by (auto simp: someone_finished_def)
    then show ?thesis using closed someone_finished_stays by (simp add: disturbed_def)
  qed (auto simp: disturbed_def someone_finished_def)
qed

section \<open>Every phase leads to the next\<close>

lemma fd_tag:
  assumes "unat fd \<le> 10"
  shows "request_data_event_type (make_request_data fd (flag_num st)) = flag_num st"
  using fd_nonneg [of fd] assms by (intro request_type_roundtrip) simp

lemma step_sent:
  assumes "server_inv E sv" "unat fd \<le> 10" "f \<noteq> []" "length f \<le> BUFFER_SIZE"
  shows "\<exists>sv'. event_loop_step PB E \<lparr>cq_res = of_nat (length f), cq_user_data = make_request_data fd (flag_num READ_RESPONSE)\<rparr> sv = Some sv' \<and>
    server_inv E sv' \<and> sv_CBUF sv' = sv_CBUF sv \<and> sv_heap sv' = sv_heap sv \<and> sv_sended_N sv' = sv_sended_N sv \<and>
    ops_of fd sv' = ops_of fd sv @ [will_recv fd]"
proof -
  have "(of_nat (length f) :: u32) \<noteq> 0" using small_res(1) [of "length f"] assms(3,4) by (auto simp: unat_eq_0)
  then have "event_loop_step PB E \<lparr>cq_res = of_nat (length f), cq_user_data = make_request_data fd (flag_num READ_RESPONSE)\<rparr> sv =
      READ_STATUS_RESPONSE fd sv"
    by (simp add: event_loop_step_def Let_def fd_tag [OF assms(2)] request_fd_roundtrip server_flags.num_inject del: flag_num.simps)
  then show ?thesis
    using assms(1,2) by (simp add: READ_STATUS_RESPONSE_def get_client_buffer_def server_inv_def ops_of_def)
qed

lemma slot_data_cong: "sv_CBUF sv' = sv_CBUF sv \<Longrightarrow> h_msgs (sv_heap sv') = h_msgs (sv_heap sv) \<Longrightarrow> slot_data sv' = slot_data sv"
  by (intro ext) (simp add: slot_data_def)

lemma slot_list_cong: "sv_CBUF sv' = sv_CBUF sv \<Longrightarrow> h_msgs (sv_heap sv') = h_msgs (sv_heap sv) \<Longrightarrow> slot_list sv' = slot_list sv"
  using slot_data_cong [of sv' sv] by (intro ext) (simp add: slot_list_def)

text \<open>The server reads the status of a frame and calls its handler.\<close>

lemma step_received:
  assumes "server_inv E sv" "unat fd \<le> 10" "status_frame PB st f"
  shows "event_loop_step PB E \<lparr>cq_res = of_nat (length f), cq_user_data = make_request_data fd (flag_num TEST_RESPONSE)\<rparr> (sv_store fd f sv) =
    (if st = IPC_MESSAGE__STATUS__NEED_MORE then handle_response_NEED_MORE_MSG PB E fd (sv_store fd f sv)
     else if st = IPC_MESSAGE__STATUS__ACKN_OK then request_ASK_NEED_MSG PB E fd (sv_store fd f sv)
     else if st = IPC_MESSAGE__STATUS__ENOUGH then FINISH_SENDING E fd (sv_store fd f sv)
     else Some (sv_store fd f sv))"
proof -
  have len: "0 < length f" "length f \<le> 4096" using assms(3) by (simp_all add: status_frame_def)
  have res: "0 < sint (of_nat (length f) :: u32)" "unat (of_nat (length f) :: u32) = length f"
    using len small_res(1) [OF len(2)] by (simp_all add: signed_of_nat signed_take_bit_int_eq_self)
  have "sv_buffers (sv_store fd f sv) ! unat fd = f @ drop (length f) (sv_buffers sv ! unat fd)"
    using assms(1,2) by (simp add: sv_store_def server_inv_def)
  then have "read_ONLY_STATUS_response PB (sv_buffers (sv_store fd f sv) ! unat fd) (length f) = Some (ipc_code st)"
    using assms(3) unpack_prefix [of PB f] by (auto simp: status_frame_def read_ONLY_STATUS_response_def bind_eq_Some_conv)
  moreover have "event_loop_step PB E c sv' = test_response PB E c sv'"
    if "cq_user_data c = make_request_data fd (flag_num TEST_RESPONSE)" for c sv'
    using that by (simp add: event_loop_step_def Let_def fd_tag [OF assms(2)] server_flags.num_inject del: flag_num.simps)
  ultimately show ?thesis
    using assms(2) res
    by (simp add: test_response_def ucast_request request_fd_roundtrip get_client_buffer_def Let_def del: ipc_code.simps)
qed


lemma own_sent:
  assumes "server_inv E (ss_srv s)" "unat fd \<le> 10" "ops_of fd (ss_srv s) \<noteq> []"
    and "last (ops_of fd (ss_srv s)) = will_send fd f" "f \<noteq> []" "length f \<le> BUFFER_SIZE"
  shows "\<exists>sv'. own_at PB E E' fd s (s\<lparr>ss_srv := sv', ss_to_cl := ss_to_cl s @ [f]\<rparr>) \<and> server_inv E sv' \<and>
    sv_CBUF sv' = sv_CBUF (ss_srv s) \<and> slot_data sv' = slot_data (ss_srv s) \<and> slot_list sv' = slot_list (ss_srv s) \<and>
    sv_sended_N sv' = sv_sended_N (ss_srv s) \<and> ops_of fd sv' = ops_of fd (ss_srv s) @ [will_recv fd]"
  using step_sent [OF assms(1,2,5,6), of PB] own_at.sent [OF assms(3,4)] slot_data_cong slot_list_cong by metis

lemma own_client:
  assumes "ss_to_cl s = [f]" "client_step PB E' f (of_nat (length f)) (ss_cl s) = Some cl'"
    and "cl_ring cl' = cl_ring (ss_cl s) @ [Op_recv x, Op_send y data]"
  shows "own_at PB E E' fd s (s\<lparr>ss_cl := cl', ss_to_cl := [], ss_to_srv := ss_to_srv s @ [data]\<rparr>)"
  using own_at.client [OF assms(1,2)] assms(3) by simp

lemma own_received:
  assumes "ops_of fd (ss_srv s) \<noteq> []" "last (ops_of fd (ss_srv s)) = will_recv fd" "ss_to_srv s = [f]"
    and "length f \<le> BUFFER_SIZE"
    and "event_loop_step PB E \<lparr>cq_res = of_nat (length f), cq_user_data = make_request_data fd (flag_num TEST_RESPONSE)\<rparr>
      (sv_store fd f (ss_srv s)) = Some sv'"
  shows "own_at PB E E' fd s (s\<lparr>ss_srv := sv', ss_to_srv := []\<rparr>)"
  using own_at.received [OF assms] .

lemmas rel_defs = session_rel_def Let_def owns_def stock_def

lemma advance_Asking:
  assumes "session_ok PB E E' fd" "session_rel PB E E' fd (k, Asking) s"
  shows "\<exists>s'. own_at PB E E' fd s s' \<and> session_rel PB E E' fd (k, Asked) s'"
proof -
  obtain f where f: "asks PB f" "last (ops_of fd (ss_srv s)) = will_send fd f" "ops_of fd (ss_srv s) \<noteq> []"
      "server_inv E (ss_srv s)" "ss_to_cl s = []"
    using assms(2) by (auto simp: rel_defs)
  have fd: "unat fd \<le> 10" "f \<noteq> []" "length f \<le> BUFFER_SIZE" using assms(1) f(1) by (simp_all add: session_ok_def asks_def)
  from own_sent [OF f(4) fd(1) f(3,2) fd(2,3), of PB E'] obtain sv' where
    "own_at PB E E' fd s (s\<lparr>ss_srv := sv', ss_to_cl := [f]\<rparr>)" "server_inv E sv'" "sv_CBUF sv' = sv_CBUF (ss_srv s)"
    "slot_data sv' = slot_data (ss_srv s)" "slot_list sv' = slot_list (ss_srv s)"
    "sv_sended_N sv' = sv_sended_N (ss_srv s)" "ops_of fd sv' = ops_of fd (ss_srv s) @ [will_recv fd]"
    using f(5) by auto
  moreover from this have "session_rel PB E E' fd (k, Asked) (s\<lparr>ss_srv := sv', ss_to_cl := [f]\<rparr>)"
    using assms(2) f(1) by (auto simp: rel_defs)
  ultimately show ?thesis by blast
qed

lemma advance_Serving:
  assumes "session_ok PB E E' fd" "session_rel PB E E' fd (k, Serving) s"
  shows "\<exists>s'. own_at PB E E' fd s s' \<and> session_rel PB E E' fd (k, Served) s'"
proof -
  obtain f where f: "brings PB (slot_data (ss_srv s) k) f" "last (ops_of fd (ss_srv s)) = will_send fd f"
      "ops_of fd (ss_srv s) \<noteq> []" "server_inv E (ss_srv s)" "ss_to_cl s = []"
    using assms(2) by (auto simp: rel_defs)
  have fd: "unat fd \<le> 10" "f \<noteq> []" "length f \<le> BUFFER_SIZE"
    using assms(1) f(1) by (simp_all add: session_ok_def brings_def message_frame_def)
  from own_sent [OF f(4) fd(1) f(3,2) fd(2,3), of PB E'] obtain sv' where
    "own_at PB E E' fd s (s\<lparr>ss_srv := sv', ss_to_cl := [f]\<rparr>)" "server_inv E sv'" "sv_CBUF sv' = sv_CBUF (ss_srv s)"
    "slot_data sv' = slot_data (ss_srv s)" "slot_list sv' = slot_list (ss_srv s)"
    "sv_sended_N sv' = sv_sended_N (ss_srv s)" "ops_of fd sv' = ops_of fd (ss_srv s) @ [will_recv fd]"
    using f(5) by auto
  moreover from this have "session_rel PB E E' fd (k, Served) (s\<lparr>ss_srv := sv', ss_to_cl := [f]\<rparr>)"
    using assms(2) f(1) by (auto simp: rel_defs)
  ultimately show ?thesis by blast
qed

lemma advance_Asked:
  assumes "session_ok PB E E' fd" "session_rel PB E E' fd (k, Asked) s"
  shows "\<exists>s'. own_at PB E E' fd s s' \<and> session_rel PB E E' fd (k, Wanted) s'"
proof -
  obtain f im where f: "ss_to_cl s = [f]" "ipc_message__unpack PB (length f) f = Some im" "length f \<le> BUFFER_SIZE"
      "im_status_code im = ipc_code IPC_MESSAGE__STATUS__ASK_NEED_MSG"
    using assms(2) by (auto simp: rel_defs asks_def)
  have "client_inv (slot_list (ss_srv s) k) (ss_cl s)" using assms(2) by (simp add: rel_defs)
  with client_asked [OF _ _ this f(2-4)] assms(1) obtain cl' data where
    c: "client_step PB E' f (of_nat (length f)) (ss_cl s) = Some cl'" "client_inv (slot_list (ss_srv s) k) cl'"
      "cl_ring cl' = cl_ring (ss_cl s) @ [Op_recv (cl_sock (ss_cl s)), Op_send (cl_sock (ss_cl s)) data]"
      "status_frame PB IPC_MESSAGE__STATUS__NEED_MORE data"
    unfolding session_ok_def by blast
  have "session_rel PB E E' fd (k, Wanted) (s\<lparr>ss_cl := cl', ss_to_cl := [], ss_to_srv := ss_to_srv s @ [data]\<rparr>)"
    using assms(2) c(2,4) by (auto simp: rel_defs)
  then show ?thesis using own_client [OF f(1) c(1,3)] by blast
qed


lemma advance_Served:
  assumes "session_ok PB E E' fd" "session_rel PB E E' fd (k, Served) s"
  shows "\<exists>s'. own_at PB E E' fd s s' \<and> session_rel PB E E' fd (if k < 511 then (k, Acknowledged) else (511, Enough)) s'"
proof -
  let ?got = "slot_list (ss_srv s) k"
  obtain t pk where m: "slot_data (ss_srv s) k = (t, pk)" by (cases "slot_data (ss_srv s) k")
  obtain f where f: "ss_to_cl s = [f]" "message_frame PB f t pk" using assms(2) m by (auto simp: rel_defs brings_def)
  have ok: "protobuf_ok PB" "clock_ok E'" "\<And>root. mining_ok E' root" using assms(1) by (simp_all add: session_ok_def)
  have inv: "client_inv ?got (ss_cl s)" "k < 512" using assms(2) by (simp_all add: rel_defs)
  have got: "slot_list (ss_srv s) (Suc k) = ?got @ [(t, pk)]" using m by (simp add: slot_list_Suc)
  show ?thesis
  proof (cases "k < 511")
    case True
    with client_step_message [OF ok(1,2) inv(1) f(2)] obtain cl' data where
      c: "client_step PB E' f (of_nat (length f)) (ss_cl s) = Some cl'" "client_inv (?got @ [(t, pk)]) cl'"
        "cl_ring cl' = cl_ring (ss_cl s) @ [Op_recv (cl_sock (ss_cl s)), Op_send (cl_sock (ss_cl s)) data]"
        "status_frame PB IPC_MESSAGE__STATUS__ACKN_OK data" by auto
    have "session_rel PB E E' fd (k, Acknowledged) (s\<lparr>ss_cl := cl', ss_to_cl := [], ss_to_srv := ss_to_srv s @ [data]\<rparr>)"
      using assms(2) c(2,4) True got by (auto simp: rel_defs)
    then show ?thesis using own_client [OF f(1) c(1,3)] True by auto
  next
    case False
    then have k: "k = 511" using inv(2) by simp
    then have len: "length ?got = BLOCKSIZE - 1" by simp
    from client_step_last [OF ok(1,3) inv(1) f(2) len refl] obtain cl' data where
      c: "client_step PB E' f (of_nat (length f)) (ss_cl s) = Some cl'" "published PB E' (map fst ?got @ [t]) cl'"
        "cl_ring cl' = cl_ring (ss_cl s) @ [Op_recv (cl_sock (ss_cl s)), Op_send (cl_sock (ss_cl s)) data]"
        "status_frame PB IPC_MESSAGE__STATUS__ENOUGH data" by blast
    have "session_rel PB E E' fd (511, Enough) (s\<lparr>ss_cl := cl', ss_to_cl := [], ss_to_srv := ss_to_srv s @ [data]\<rparr>)"
      using assms(2) c(2,4) got by (auto simp: rel_defs k)
    then show ?thesis using own_client [OF f(1) c(1,3)] False by auto
  qed
qed

text \<open>A stored frame changes nothing the relation speaks about.\<close>

lemma sv_store_same [simp]:
  "sv_CBUF (sv_store fd f sv) = sv_CBUF sv" "sv_heap (sv_store fd f sv) = sv_heap sv"
  "sv_sended_N (sv_store fd f sv) = sv_sended_N sv" "ops_of fd' (sv_store fd f sv) = ops_of fd' sv"
  "slot_data (sv_store fd f sv) = slot_data sv" "slot_list (sv_store fd f sv) = slot_list sv"
  by (simp_all add: sv_store_def ops_of_def slot_data_def slot_list_def fun_eq_iff)

lemma slots_kept_store [simp]: "slots_kept (sv_store fd f sv) sv' = slots_kept sv sv'"
  by (simp add: slots_kept_def)

lemma sends_message:
  assumes "sends PB op fd im" "im_status_code im = ipc_code IPC_MESSAGE__STATUS__MESSAGE_SENDED"
    and "im_transaction_msg im = Some (msg_bytes m)" "im_pubkey im = Some (sm_public_key m)" "msg_ok m" "sm_length m = 164"
  shows "\<exists>f. op = Op_send fd f \<and> brings PB (msg_bytes m, sm_public_key m) f"
  using assms by (auto simp: sends_def brings_def message_frame_def msg_bytes_def msg_ok_def)

lemma advance_Wanted:
  assumes "session_ok PB E E' fd" "session_rel PB E E' fd (k, Wanted) s"
  shows "\<exists>s'. own_at PB E E' fd s s' \<and> session_rel PB E E' fd (k, Serving) s'"
proof -
  obtain f where f: "status_frame PB IPC_MESSAGE__STATUS__NEED_MORE f" "ss_to_srv s = [f]"
      "last (ops_of fd (ss_srv s)) = will_recv fd" "ops_of fd (ss_srv s) \<noteq> []" "server_inv E (ss_srv s)"
    using assms(2) by (auto simp: rel_defs)
  have ok: "protobuf_ok PB" "clock_ok E" "server_env E" "unat fd \<le> 10"
    using assms(1) by (auto simp: session_ok_def server_ok_def)
  let ?sv = "sv_store fd f (ss_srv s)" and ?n = "sv_sended_N (ss_srv s) ! unat fd"
  have n: "unat ?n = k" "k < 512" "k \<le> filled (sv_CBUF (ss_srv s))" using assms(2) by (simp_all add: rel_defs)
  then have n512: "?n < 512" by (simp add: word_less_nat_alt)
  have inv: "server_inv E ?sv" using sv_store_inv [OF f(5)] f(1) by (simp add: status_frame_def)
  from need_more_sends [OF ok(1,2) _ ok(3) inv ok(4) refl] n512 n(1) obtain sv' op im m where
    h: "handle_response_NEED_MORE_MSG PB E fd ?sv = Some sv'" "server_inv E sv'"
      "sv_ring sv' = sv_ring ?sv @ [(op, make_request_data fd (flag_num READ_RESPONSE))]" "sends PB op fd im"
      "sv_sended_N sv' = (sv_sended_N (ss_srv s))[unat fd := ?n + 1]"
      "im_status_code im = ipc_code IPC_MESSAGE__STATUS__MESSAGE_SENDED"
      "h_msgs (sv_heap sv') (cb_buffer (sv_CBUF sv') ! k) = Some m" "k < filled (sv_CBUF sv')"
      "im_transaction_msg im = Some (msg_bytes m)" "im_pubkey im = Some (sm_public_key m)" "msg_ok m" "sm_length m = 164"
    by auto
  obtain g where g: "op = Op_send fd g" "brings PB (slot_data sv' k) g"
    using sends_message [OF h(4,6,9-12)] h(7) by (auto simp: slot_data_def)
  have kept: "slots_kept (ss_srv s) sv'"
    using handle_NEED_MORE_local [OF ok(3) inv h(1)] by (simp add: local_step_def)
  have own: "own_at PB E E' fd s (s\<lparr>ss_srv := sv', ss_to_srv := []\<rparr>)"
    using step_received [OF f(5) ok(4) f(1)] h(1) f(1) by (intro own_received [OF f(4,3,2)]) (simp_all add: status_frame_def)
  have "unat (?n + 1) = Suc k" using unat_succ_512 [of ?n] n by simp
  moreover have "unat fd < length (sv_sended_N (ss_srv s))" using f(5) ok(4) by (simp add: server_inv_def)
  ultimately have "unat (sv_sended_N sv' ! unat fd) = Suc k" using h(5) by simp
  moreover have "ops_of fd sv' = ops_of fd (ss_srv s) @ [will_send fd g]"
    using h(3) g(1) sv_store_same(4) [of fd fd f "ss_srv s"] by (simp add: ops_of_def)
  moreover have "slot_list sv' k = slot_list (ss_srv s) k" using slot_list_kept [OF kept n(3)] .
  ultimately have "session_rel PB E E' fd (k, Serving) (s\<lparr>ss_srv := sv', ss_to_srv := []\<rparr>)"
    using assms(2) h(2,8) g(2) by (auto simp: rel_defs)
  then show ?thesis using own by blast
qed


lemma advance_Acknowledged:
  assumes "session_ok PB E E' fd" "session_rel PB E E' fd (k, Acknowledged) s" "0 \<in> set (indeterminate E 32)"
  shows "\<exists>s'. own_at PB E E' fd s s' \<and> session_rel PB E E' fd (Suc k, Asking) s'"
proof -
  obtain f where f: "status_frame PB IPC_MESSAGE__STATUS__ACKN_OK f" "ss_to_srv s = [f]"
      "last (ops_of fd (ss_srv s)) = will_recv fd" "ops_of fd (ss_srv s) \<noteq> []" "server_inv E (ss_srv s)"
    using assms(2) by (auto simp: rel_defs)
  have ok: "protobuf_ok PB" "0 \<in> set (indeterminate E 32)" "unat fd \<le> 10" using assms(1,3) by (auto simp: session_ok_def)
  let ?sv = "sv_store fd f (ss_srv s)"
  have inv: "server_inv E ?sv" using sv_store_inv [OF f(5)] f(1) by (simp add: status_frame_def)
  from request_SEND_STATUS_ok [OF ok(1,2) inv ok(3), of IPC_MESSAGE__STATUS__ASK_NEED_MSG] obtain sv' op im where
    h: "request_SEND_STATUS PB E fd IPC_MESSAGE__STATUS__ASK_NEED_MSG ?sv = Some sv'"
      "sv_ring sv' = sv_ring ?sv @ [(op, make_request_data fd (flag_num READ_RESPONSE))]" "sends PB op fd im"
      "im_status_code im = ipc_code IPC_MESSAGE__STATUS__ASK_NEED_MSG" "sv_sended_N sv' = sv_sended_N (ss_srv s)"
      "sv_CBUF sv' = sv_CBUF (ss_srv s)" by auto
  obtain g where g: "op = Op_send fd g" "asks PB g" using h(3,4) by (auto simp: sends_def asks_def)
  have kept: "slots_kept (ss_srv s) sv'" using request_SEND_STATUS_local [OF h(1)] by (simp add: local_step_def)
  have own: "own_at PB E E' fd s (s\<lparr>ss_srv := sv', ss_to_srv := []\<rparr>)"
    using step_received [OF f(5) ok(3) f(1)] h(1)
      f(1) by (intro own_received [OF f(4,3,2)]) (simp_all add: request_ASK_NEED_MSG_def status_frame_def)
  have "Suc k \<le> filled (sv_CBUF (ss_srv s))" using assms(2) by (simp add: rel_defs)
  from slot_list_kept [OF kept this] have "slot_list sv' (Suc k) = slot_list (ss_srv s) (Suc k)" .
  moreover have "ops_of fd sv' = ops_of fd (ss_srv s) @ [will_send fd g]"
    using h(2) g(1) sv_store_same(4) [of fd fd f "ss_srv s"] by (simp add: ops_of_def)
  ultimately have "session_rel PB E E' fd (Suc k, Asking) (s\<lparr>ss_srv := sv', ss_to_srv := []\<rparr>)"
    using assms(2) request_SEND_STATUS_inv [OF inv h(1)] h(5,6) g(2) by (auto simp: rel_defs)
  then show ?thesis using own by blast
qed

lemma advance_Enough:
  assumes "session_ok PB E E' fd" "session_rel PB E E' fd (k, Enough) s"
  shows "\<exists>s'. own_at PB E E' fd s s' \<and> session_rel PB E E' fd (k, Finished) s'"
proof -
  obtain f where f: "status_frame PB IPC_MESSAGE__STATUS__ENOUGH f" "ss_to_srv s = [f]"
      "last (ops_of fd (ss_srv s)) = will_recv fd" "ops_of fd (ss_srv s) \<noteq> []" "server_inv E (ss_srv s)"
    using assms(2) by (auto simp: rel_defs)
  have ok: "server_ok E" "unat fd \<le> 10" "unat fd < MAX_CONNECTIONS" using assms(1) by (auto simp: session_ok_def)
  let ?sv = "sv_store fd f (ss_srv s)"
  have inv: "server_inv E ?sv" using sv_store_inv [OF f(5)] f(1) by (simp add: status_frame_def)
  have full: "filled (sv_CBUF (ss_srv s)) = CIRC_BUF_SIZE" "k = 511"
    using assms(2) serving_parts(4) [of E "sv_CBUF (ss_srv s)"] by (auto simp: rel_defs server_inv_def intro!: antisym)
  from finish_sending_cases [OF ok(1) inv ok(3)] full(1) obtain sv' where
    h: "FINISH_SENDING E fd ?sv = Some sv'" "server_inv E sv'" "sv_sended_N sv' ! unat fd = 0" "cb_fill_size (sv_CBUF sv') = 0"
    by auto
  note l = FINISH_SENDING_local [OF ok(1) inv h(1)]
  have own: "own_at PB E E' fd s (s\<lparr>ss_srv := sv', ss_to_srv := []\<rparr>)"
    using step_received [OF f(5) ok(2) f(1)] h(1) f(1) by (intro own_received [OF f(4,3,2)]) (simp_all add: status_frame_def)
  have "slots_kept (ss_srv s) sv'" using l by (simp add: local_step_def)
  then have "slot_list sv' 512 = slot_list (ss_srv s) 512" using slot_list_kept full(1) by simp
  then have "session_rel PB E E' fd (k, Finished) (s\<lparr>ss_srv := sv', ss_to_srv := []\<rparr>)"
    using assms(2) h(2-4) l full by (auto simp: rel_defs filled_def)
  then show ?thesis using own by blast
qed

section \<open>The transfer is followed, and ends\<close>

lemma wire_exclusive:
  assumes "wire_shape PB fd m p e tc ts"
  shows "is_Op_send (fst e) \<Longrightarrow> tc = [] \<and> ts = []" "tc = [] \<or> ts = []" "p = Finished \<Longrightarrow> is_Op_recv (fst e) \<and> tc = [] \<and> ts = []"
  using assms by (cases p; auto)+

lemma own_at_unique:
  assumes "session_rel PB E E' fd a s" "own_at PB E E' fd s s1" "own_at PB E E' fd s s2"
  shows "s1 = s2"
proof -
  obtain k p where a: "a = (k, p)" by (cases a)
  have w: "wire_shape PB fd (slot_data (ss_srv s) k) p (last (ops_of fd (ss_srv s))) (ss_to_cl s) (ss_to_srv s)"
    using assms(1) by (simp add: session_rel_def Let_def a)
  from assms(2,3) show ?thesis using wire_exclusive [OF w] by (elim own_atE) auto
qed

lemma advance:
  assumes "session_ok PB E E' fd" "session_rel PB E E' fd a s" "snd a \<noteq> Finished"
    and "0 \<in> set (indeterminate E 32) \<or> snd a \<noteq> Acknowledged"
  shows "\<exists>s' b. own_at PB E E' fd s s' \<and> transfer a b \<and> session_rel PB E E' fd b s'"
proof -
  obtain k p where a: "a = (k, p)" by (cases a)
  have k: "p = Acknowledged \<Longrightarrow> k < 511" "p = Enough \<Longrightarrow> k = 511" "k < 512" using assms(2) a by (auto simp: session_rel_def Let_def)
  note rel = assms(2) [unfolded a]
  show ?thesis
  proof (cases p)
    case Served
    then have "transfer a (if k < 511 then (k, Acknowledged) else (511, Enough))"
      using k(3) a transfer.intros(5,7) by (cases "k < 511"; cases "k = 511") auto
    then show ?thesis using advance_Served [OF assms(1) rel [unfolded Served]] by blast
  qed (use assms(3,4) rel k a advance_Asking [OF assms(1)] advance_Asked [OF assms(1)] advance_Wanted [OF assms(1)]
      advance_Serving [OF assms(1)] advance_Acknowledged [OF assms(1)] advance_Enough [OF assms(1)]
      in \<open>(metis transfer.intros snd_conv)+\<close>)
qed


text \<open>A status goes out only if the left-over bytes of its date have a terminator.\<close>

lemma status_needs_terminator: "request_SEND_STATUS PB E fd st sv = Some sv' \<Longrightarrow> 0 \<in> set (indeterminate E 32)"
proof -
  assume st: "request_SEND_STATUS PB E fd st sv = Some sv'"
  have "send_ONLY_status_code PB E buf st h = None" if "0 \<notin> set (indeterminate E 32)" for buf h
    using that by (simp add: send_ONLY_status_code_def split: prod.splits)
  then show ?thesis using st by (fastforce simp: request_SEND_STATUS_def bind_eq_Some_conv)
qed

lemma asking_needs_terminator:
  assumes "session_ok PB E E' fd" "session_rel PB E E' fd (k, Acknowledged) s" "own_at PB E E' fd s s'"
  shows "0 \<in> set (indeterminate E 32)"
proof -
  obtain f where f: "status_frame PB IPC_MESSAGE__STATUS__ACKN_OK f" "ss_to_srv s = [f]" "ss_to_cl s = []"
      "last (ops_of fd (ss_srv s)) = will_recv fd" "server_inv E (ss_srv s)"
    using assms(2) by (auto simp: rel_defs)
  have "unat fd \<le> 10" using assms(1) by (simp add: session_ok_def)
  from assms(3) step_received [OF f(5) this f(1)] f(2-4) show ?thesis
    by (elim own_atE) (auto simp: request_ASK_NEED_MSG_def dest: status_needs_terminator)
qed

lemma own_at_sim:
  assumes "session_ok PB E E' fd" "session_rel PB E E' fd a s" "own_at PB E E' fd s s'"
  shows "\<exists>b. transfer a b \<and> session_rel PB E E' fd b s'"
proof (cases "snd a = Finished")
  case True
  then obtain k where a: "a = (k, Finished)" by (cases a) simp
  have "last (ops_of fd (ss_srv s)) = will_recv fd" "ss_to_cl s = []" "ss_to_srv s = []"
    using assms(2) by (simp_all add: session_rel_def Let_def a)
  then show ?thesis using assms(3) by (elim own_atE) auto
next
  case False
  have "0 \<in> set (indeterminate E 32) \<or> snd a \<noteq> Acknowledged"
    using asking_needs_terminator [OF assms(1) _ assms(3)] assms(2) by (cases a) auto
  from advance [OF assms(1,2) False this] own_at_unique [OF assms(2,3)] show ?thesis by blast
qed

lemma own_step_sim:
  assumes "session_ok PB E E' fd" "session_rel PB E E' fd a s" "own_step PB E E' fd s s'"
  shows "\<exists>b. transfer a b \<and> session_rel PB E E' fd b s'"
proof -
  obtain left where "own_at PB (left_over E left) E' fd s s'" using assms(3) by (auto simp: own_step_def)
  from own_at_sim [OF _ _ this, of a] assms(1,2) show ?thesis by simp
qed

interpretation session_sim: stutter_simulation transfer
  "\<lambda>s s'. session_ok PB E E' fd \<and> (own_step PB E E' fd s s' \<or> other_step PB E fd s s')"
  "\<lambda>a s. session_rel PB E E' fd a s \<or> disturbed s"
  for PB E E' fd
  by unfold_locales (meson own_step_sim other_step_keeps disturbed_stays)

definition session_at :: "protobuf \<Rightarrow> env \<Rightarrow> env \<Rightarrow> u32 \<Rightarrow> nat \<Rightarrow> session \<Rightarrow> bool" where
  "session_at PB E E' fd n s \<longleftrightarrow> session_ok PB E E' fd \<and> (\<exists>a. session_rel PB E E' fd a s \<and> transfer_rank a = n)"

text \<open>The goal: the client has published a block over the server's 512 messages, and the server has
  finished with the client and goes on serving the same messages.\<close>

definition session_done :: "protobuf \<Rightarrow> env \<Rightarrow> env \<Rightarrow> u32 \<Rightarrow> session \<Rightarrow> bool" where
  "session_done PB E E' fd s \<longleftrightarrow> published PB E' (map fst (slot_list (ss_srv s) 512)) (ss_cl s) \<and>
     server_inv E (ss_srv s) \<and> filled (sv_CBUF (ss_srv s)) = CIRC_BUF_SIZE \<and> sv_sended_N (ss_srv s) ! unat fd = 0 \<and>
     ss_to_cl s = [] \<and> ss_to_srv s = []"

lemma session_rel_done:
  assumes "session_rel PB E E' fd (k, Finished) s"
  shows "session_done PB E E' fd s"
proof -
  have "serving E (sv_CBUF (ss_srv s)) (sv_heap (ss_srv s))"
    using assms by (simp add: session_rel_def Let_def server_inv_def)
  then have "filled (sv_CBUF (ss_srv s)) \<le> 512" by (rule serving_parts(4))
  moreover have "k = 511" using assms by (simp add: rel_defs)
  then have "Suc k = 512" by simp
  ultimately show ?thesis using assms by (simp add: rel_defs session_done_def unat_eq_0)
qed

text \<open>A session that is not over can move, whatever uninitialised objects show, if only there is a terminator in it.\<close>

lemma session_moves:
  assumes "session_at PB E E' fd n s" "\<not> session_done PB E E' fd s" "0 \<in> set (indeterminate (left_over E left) 32)"
  shows "\<exists>s'. own_at PB (left_over E left) E' fd s s'"
proof -
  obtain a where a: "session_ok PB E E' fd" "session_rel PB E E' fd a s" using assms(1) by (auto simp: session_at_def)
  then have "snd a \<noteq> Finished" using session_rel_done assms(2) by (cases a) auto
  then show ?thesis using advance [of PB "left_over E left" E' fd a s] a assms(3) by auto
qed

lemma zero_left_over: "0 \<in> set (indeterminate (left_over E []) 32)"
  by (simp add: indeterminate_def)

interpretation session_progress: interleaved_progress "own_step PB E E' fd" "other_step PB E fd"
  "session_done PB E E' fd" disturbed "session_at PB E E' fd" for PB E E' fd
proof unfold_locales
  fix n s s' assume s: "session_at PB E E' fd n s" "own_step PB E E' fd s s'"
  then obtain a where a: "session_ok PB E E' fd" "session_rel PB E E' fd a s" "transfer_rank a = n"
    by (auto simp: session_at_def)
  then obtain b where "transfer a b" "session_rel PB E E' fd b s'" using own_step_sim s(2) by blast
  moreover from this have "transfer_rank b < n" using transfer_lowers a(3) by fastforce
  ultimately show "\<exists>m < n. session_at PB E E' fd m s'" using a(1) unfolding session_at_def by blast
next
  fix n s s' assume "session_at PB E E' fd n s" "other_step PB E fd s s'"
  then show "session_at PB E E' fd n s' \<or> disturbed s'" using other_step_keeps unfolding session_at_def by blast
next
  fix s s' assume "disturbed s" "own_step PB E E' fd s s' \<or> other_step PB E fd s s'"
  then show "disturbed s'" by (rule disturbed_stays)
next
  fix n s assume s: "session_at PB E E' fd n s" "\<not> session_done PB E E' fd s"
  then show "\<exists>s'. own_step PB E E' fd s s'"
    using session_moves zero_left_over unfolding own_step_def by blast
qed

section \<open>From accept to block\<close>

text \<open>The moment the server has accepted the connection and the client has set up its buffers.\<close>

definition session_start :: "server \<Rightarrow> client \<Rightarrow> session" where
  "session_start sv cl = \<lparr>ss_srv = sv, ss_cl = cl, ss_to_cl = [], ss_to_srv = [], ss_disturbed = False\<rparr>"

abbreviation accepted :: "protobuf \<Rightarrow> env \<Rightarrow> u32 \<Rightarrow> server \<Rightarrow> server option" where
  "accepted PB E fd sv \<equiv>
     event_loop_step PB E \<lparr>cq_res = fd, cq_user_data = make_request_data 0 (flag_num FLAG_ACCEPT)\<rparr> sv"

lemma accepted_eq:
  "accepted PB E fd sv = request_SEND_STATUS PB E fd IPC_MESSAGE__STATUS__ASK_NEED_MSG
    ((add_accept_request sv)\<lparr>sv_current_fd := request_data_client_fd (scast fd)\<rparr>)"
proof -
  have "request_data_event_type (make_request_data 0 (flag_num FLAG_ACCEPT)) = flag_num FLAG_ACCEPT" by (rule fd_tag) simp
  then show ?thesis by (simp add: event_loop_step_def request_ASK_NEED_MSG_def)
qed

lemma accept_asks:
  assumes "session_ok PB E E' fd" "server_inv E sv" "0 \<in> set (indeterminate E 32)"
  shows "\<exists>sv' g. accepted PB E fd sv = Some sv' \<and> server_inv E sv' \<and> asks PB g \<and>
    ops_of fd sv' = ops_of fd sv @ [will_send fd g] \<and> sv_sended_N sv' = sv_sended_N sv"
proof -
  let ?sv = "(add_accept_request sv)\<lparr>sv_current_fd := request_data_client_fd (scast fd)\<rparr>"
  have ok: "protobuf_ok PB" "unat fd \<le> 10" using assms(1) by (auto simp: session_ok_def)
  have inv: "server_inv E ?sv" using assms(2) by (simp add: server_inv_def add_accept_request_def)
  have st: "accepted PB E fd sv = request_SEND_STATUS PB E fd IPC_MESSAGE__STATUS__ASK_NEED_MSG ?sv" by (rule accepted_eq)
  from request_SEND_STATUS_ok [OF ok(1) assms(3) inv ok(2), of IPC_MESSAGE__STATUS__ASK_NEED_MSG] obtain sv' op im where
    h: "request_SEND_STATUS PB E fd IPC_MESSAGE__STATUS__ASK_NEED_MSG ?sv = Some sv'"
      "sv_ring sv' = sv_ring ?sv @ [(op, make_request_data fd (flag_num READ_RESPONSE))]" "sends PB op fd im"
      "im_status_code im = ipc_code IPC_MESSAGE__STATUS__ASK_NEED_MSG" "sv_sended_N sv' = sv_sended_N ?sv" by blast
  obtain g where g: "op = Op_send fd g" "asks PB g" using h(3,4) by (auto simp: sends_def asks_def)
  have "ops_of fd sv' = ops_of fd sv @ [will_send fd g]" using h(2) g(1) by (simp add: ops_of_def add_accept_request_def)
  then show ?thesis
    using st h(1,5) g(2) request_SEND_STATUS_inv [OF inv h(1)] by (simp add: add_accept_request_def)
qed

lemma session_start_rel:
  assumes "session_ok PB E E' fd" "server_inv E sv" "sv_sended_N sv ! unat fd = 0" "accepted PB E fd sv = Some sv'"
    and "heap_wf h" "length (sh_buffer_BLOCK_DATA sh) = BUFFER_SIZE" "\<not> sh_kill_thread_p2p sh"
  shows "session_rel PB E E' fd (0, Asking) (session_start sv' (client_start sock sh h))"
proof -
  have "0 \<in> set (indeterminate E 32)" using assms(4) status_needs_terminator unfolding accepted_eq by blast
  from accept_asks [OF assms(1,2) this] assms(3,4) client_start_inv [OF assms(5-7), of sock] show ?thesis
    by (auto simp: rel_defs session_start_def slot_list_def)
qed

lemma session_start_at:
  assumes "session_ok PB E E' fd" "server_inv E sv" "sv_sended_N sv ! unat fd = 0" "accepted PB E fd sv = Some sv'"
    and "heap_wf h" "length (sh_buffer_BLOCK_DATA sh) = BUFFER_SIZE" "\<not> sh_kill_thread_p2p sh"
  shows "session_at PB E E' fd 3072 (session_start sv' (client_start sock sh h))"
proof -
  have "session_at PB E E' fd (transfer_rank (0, Asking)) (session_start sv' (client_start sock sh h))"
    using session_start_rel [OF assms] assms(1) unfolding session_at_def by blast
  then show ?thesis by simp
qed


section \<open>Two clients\<close>

text \<open>The server goes on: completions and stored frames of any connection.\<close>

inductive server_event :: "protobuf \<Rightarrow> env \<Rightarrow> server \<Rightarrow> server \<Rightarrow> bool" for PB E where
  completed: "event_loop_step PB (left_over E left) c sv = Some sv' \<Longrightarrow> server_event PB E sv sv'"
| stored: "length f \<le> BUFFER_SIZE \<Longrightarrow> server_event PB E sv (sv_store fd f sv)"

lemma server_run_keeps:
  assumes "(server_event PB E)\<^sup>*\<^sup>* sv sv'" "server_ok E" "server_inv E sv"
  shows "server_inv E sv' \<and> slots_kept sv sv'"
  using assms(1)
proof (induction rule: rtranclp_induct)
  case base
  then show ?case using assms(3) by (simp add: slots_kept_def)
next
  case (step sv1 sv2)
  have ok: "server_ok (left_over E left)" for left using assms(2) by simp
  have "server_inv E sv2 \<and> slots_kept sv1 sv2"
    using step.hyps(2)
  proof cases
    case (completed left c)
    then show ?thesis
      using step.IH event_loop_step_inv [OF ok _ completed] event_loop_step_local [OF ok _ completed] by (simp add: local_step_def)
  next
    case (stored f fd)
    then show ?thesis using step.IH sv_store_inv [of E sv1 f fd] sv_store_local [of fd sv1 f] by (simp add: local_step_def)
  qed
  then show ?case using step.IH by (auto simp: slots_kept_def)
qed

text \<open>A moment in the session of some client: it started with accept, and its steps were interleaved with all others.\<close>

definition in_session :: "protobuf \<Rightarrow> env \<Rightarrow> env \<Rightarrow> u32 \<Rightarrow> session \<Rightarrow> bool" where
  "in_session PB E E' fd s \<longleftrightarrow> session_ok PB E E' fd \<and> (\<exists>sv sv' sock sh h n. server_inv E sv \<and> sv_sended_N sv ! unat fd = 0 \<and>
     accepted PB E fd sv = Some sv' \<and> heap_wf h \<and> length (sh_buffer_BLOCK_DATA sh) = BUFFER_SIZE \<and> \<not> sh_kill_thread_p2p sh \<and>
     interleaved (own_step PB E E' fd) (other_step PB E fd) n (session_start sv' (client_start sock sh h)) s)"

lemma in_session_at:
  assumes "in_session PB E E' fd s" "\<not> ss_disturbed s"
  shows "\<exists>n. session_at PB E E' fd n s"
  using assms session_progress.interleaved_bounded [OF _ session_start_at] unfolding in_session_def disturbed_def by blast

text \<open>A client that has its block made it over what the server holds.\<close>

lemma block_of_session:
  assumes "in_session PB E E' fd s" "\<not> ss_disturbed s" "cl_block_filled (ss_cl s)"
  shows "published PB E' (map fst (slot_list (ss_srv s) 512)) (ss_cl s) \<and> filled (sv_CBUF (ss_srv s)) = CIRC_BUF_SIZE \<and>
    server_inv E (ss_srv s) \<and> server_ok E"
proof -
  obtain k p where r: "session_ok PB E E' fd" "session_rel PB E E' fd (k, p) s"
    using in_session_at [OF assms(1,2)] by (auto simp: session_at_def)
  have p: "p \<in> {Enough, Finished}" using r(2) assms(3) by (auto simp: session_rel_def owns_def client_inv_def Let_def split: if_splits)
  then have k: "k = 511" "held k p = 512" using r(2) by (auto simp: session_rel_def Let_def)
  have "server_inv E (ss_srv s)" "512 \<le> filled (sv_CBUF (ss_srv s))" using r(2) p k(1) by (auto simp: session_rel_def stock_def Let_def)
  moreover from this(1) have "filled (sv_CBUF (ss_srv s)) \<le> 512"
    using serving_parts(4) [of E "sv_CBUF (ss_srv s)" "sv_heap (ss_srv s)"] by (simp add: server_inv_def)
  ultimately show ?thesis using r p k by (simp add: session_rel_def owns_def Let_def session_ok_def)
qed

text \<open>
  C7.  All clients mine on the same messages: take two moments of one server, the second later than the first, at which two
  clients, each in a session that started with accept and was not disturbed by a finished client, have made their
  blocks.  If both machines compute the same hash, the blocks have the same Merkle root, and it is the hash of the root
  over the 512 messages in the buffer of the server.
\<close>

theorem clients_agree_on_root:
  assumes "in_session PB E E1 fd1 s1" "\<not> ss_disturbed s1" "cl_block_filled (ss_cl s1)"
    and "in_session PB E E2 fd2 s2" "\<not> ss_disturbed s2" "cl_block_filled (ss_cl s2)"
    and "(server_event PB E)\<^sup>*\<^sup>* (ss_srv s1) (ss_srv s2)" "env_generichash E1 = env_generichash E2"
  shows "\<exists>b1 b2. cl_block (ss_cl s1) = Some b1 \<and> cl_block (ss_cl s2) = Some b2 \<and>
    blk_merkle_root b1 = blk_merkle_root b2 \<and>
    blk_merkle_root b2 = env_generichash E2 (block_root E2 (map fst (slot_list (ss_srv s2) 512)))"
proof -
  note b = block_of_session [OF assms(1-3)] block_of_session [OF assms(4-6)]
  have "slot_list (ss_srv s2) 512 = slot_list (ss_srv s1) 512"
    using server_run_keeps [OF assms(7)] slot_list_kept b(1) by simp
  then show ?thesis using b assms(8) by (auto simp: published_def Let_def block_root_def)
qed

section \<open>Witnesses\<close>

lemma own_step_server_run: "own_step PB E E' fd s s' \<Longrightarrow> (server_event PB E)\<^sup>*\<^sup>* (ss_srv s) (ss_srv s')"
proof -
  assume "own_step PB E E' fd s s'"
  then obtain left where "own_at PB (left_over E left) E' fd s s'" by (auto simp: own_step_def)
  then show ?thesis
  proof cases
    case (received d f fs sv')
    then show ?thesis
      using server_event.stored [of f PB E "ss_srv s" fd] server_event.completed [of PB left E _ "sv_store fd f (ss_srv s)" sv']
      by (simp add: converse_rtranclp_into_rtranclp r_into_rtranclp)
  qed (auto intro: server_event.completed)
qed

lemma own_run_server_run: "(own_step PB E E' fd ^^ k) s s' \<Longrightarrow> (server_event PB E)\<^sup>*\<^sup>* (ss_srv s) (ss_srv s')"
proof (induction k arbitrary: s')
  case (Suc k)
  then obtain s1 where "(own_step PB E E' fd ^^ k) s s1" "own_step PB E E' fd s1 s'" by auto
  then show ?case using Suc.IH own_step_server_run rtranclp_trans by metis
qed simp

lemma own_run_interleaved: "(own ^^ k) s s' \<Longrightarrow> interleaved own others k s s'"
proof (induction k arbitrary: s')
  case (Suc k)
  then obtain s1 where "(own ^^ k) s s1" "own s1 s'" by auto
  then show ?case using Suc.IH interleaved.own by metis
qed (simp add: interleaved.none)

lemma own_run_undisturbed: "(own_step PB E E' fd ^^ k) s s' \<Longrightarrow> ss_disturbed s' = ss_disturbed s"
proof (induction k arbitrary: s')
  case (Suc k)
  then obtain s1 where s1: "(own_step PB E E' fd ^^ k) s s1" "own_step PB E E' fd s1 s'" by auto
  then have "ss_disturbed s' = ss_disturbed s1" by (auto simp: own_step_def elim: own_atE)
  then show ?case using Suc.IH s1(1) by simp
qed simp

lemma demo_session_ok: "session_ok plain_pb demo_env demo_env 5"
  using plain_pb_ok demo_clock_ok demo_server_ok demo_mining_ok by (simp add: session_ok_def)

lemma demo_client: "heap_wf empty_heap" "length (sh_buffer_BLOCK_DATA shared_init) = BUFFER_SIZE" "\<not> sh_kill_thread_p2p shared_init"
  by (simp_all add: heap_wf_empty shared_init_def)

lemma demo_accepted:
  "\<exists>sv sv'. event_loop_start demo_env (setup_buffers demo_env empty_heap) = Some sv \<and> server_inv demo_env sv \<and>
     sv_sended_N sv ! unat (5 :: u32) = 0 \<and> accepted plain_pb demo_env 5 sv = Some sv'"
  using demo_start accept_asks [OF demo_session_ok _ demo_indeterminate] by fastforce


lemma whole_session:
  assumes "session_ok PB E E' fd" "0 \<in> set (indeterminate E 32)" "server_inv E sv" "sv_sended_N sv ! unat fd = 0"
  shows "\<exists>s. in_session PB E E' fd s \<and> \<not> ss_disturbed s \<and> session_done PB E E' fd s \<and> (server_event PB E)\<^sup>*\<^sup>* sv (ss_srv s)"
proof -
  obtain sv' where sv': "accepted PB E fd sv = Some sv'" using accept_asks [OF assms(1,3,2)] by blast
  let ?s = "session_start sv' (client_start 6 shared_init empty_heap)"
  from session_progress.alone.goal_within [OF session_start_at [OF assms(1,3,4) sv' demo_client]] obtain k s where
    s: "(own_step PB E E' fd ^^ k) ?s s" "session_done PB E E' fd s" by blast
  have "(server_event PB E)\<^sup>*\<^sup>* sv' (ss_srv s)" using own_run_server_run [OF s(1)] by (simp add: session_start_def)
  moreover have "server_event PB E sv sv'" using server_event.completed [of PB "env_stack E" E _ sv sv'] sv' by simp
  moreover have "\<not> ss_disturbed s" using own_run_undisturbed [OF s(1)] by (simp add: session_start_def)
  moreover have "in_session PB E E' fd s"
    using own_run_interleaved [OF s(1)] assms sv' demo_client unfolding in_session_def by blast
  ultimately show ?thesis using s(2) by (meson converse_rtranclp_into_rtranclp)
qed

lemmas demo_session = whole_session [OF demo_session_ok demo_indeterminate]

theorem clients_agree_on_root_witness:
  "\<exists>s1 s2. in_session plain_pb demo_env demo_env 5 s1 \<and> in_session plain_pb demo_env demo_env 5 s2 \<and>
     (server_event plain_pb demo_env)\<^sup>*\<^sup>* (ss_srv s1) (ss_srv s2) \<and>
     (\<exists>b1 b2. cl_block (ss_cl s1) = Some b1 \<and> cl_block (ss_cl s2) = Some b2 \<and> blk_merkle_root b1 = blk_merkle_root b2)"
proof -
  have filled: "cl_block_filled (ss_cl s)" if "session_done plain_pb demo_env demo_env 5 s" for s
    using that by (simp add: session_done_def published_def Let_def)
  obtain sv where "server_inv demo_env sv" "sv_sended_N sv ! unat (5 :: u32) = 0" using demo_accepted by blast
  then obtain s1 where s1: "in_session plain_pb demo_env demo_env 5 s1" "\<not> ss_disturbed s1" "session_done plain_pb demo_env demo_env 5 s1"
    using demo_session by blast
  then obtain s2 where s2: "in_session plain_pb demo_env demo_env 5 s2" "\<not> ss_disturbed s2" "session_done plain_pb demo_env demo_env 5 s2"
      "(server_event plain_pb demo_env)\<^sup>*\<^sup>* (ss_srv s1) (ss_srv s2)"
    using demo_session [of "ss_srv s1"] by (auto simp: session_done_def)
  from clients_agree_on_root [OF s1(1,2) filled [OF s1(3)] s2(1,2) filled [OF s2(3)] s2(4) refl] s1 s2 show ?thesis by blast
qed

end
