(* ===== verification/P2P.thy ===== *)
theory P2P
  imports Client
begin

text \<open>
  The two peer threads of a client: the serving one (\<open>client/p2p_setup.c\<close>, \<open>client/dhandlers_p2p.c\<close>,
  \<open>client/p2p_event_loop.c\<close>) hands the node's block to a neighbour that asks for it, the asking one
  (\<open>client/p2p_listen.c\<close>) fetches the block of a neighbour.  The ring is the list of operations
  submitted and not completed; a completion removes its entry and is then processed by one iteration of
  the thread's loop.  A received block is kept in the state together with what was printed of it.
\<close>

section \<open>The serving thread\<close>

definition P2P_MAX_CONNECTIONS :: nat where
  "P2P_MAX_CONNECTIONS = 100"

lemmas p2p_consts [simp] = P2P_MAX_CONNECTIONS_def

record p2p_server =
  ps_heap :: heap
  ps_buffers :: "bytes list"
  ps_lengths :: "u64 list"
  ps_ring :: "sqe list"
  ps_current_fd :: u32
  ps_block_ready :: bool
  ps_done :: bool

definition p2p_setup_buffers :: "env \<Rightarrow> heap \<Rightarrow> p2p_server" where
  "p2p_setup_buffers E h = \<lparr>ps_heap = h,
     ps_buffers = replicate P2P_MAX_CONNECTIONS (indeterminate E BUFFER_SIZE),
     ps_lengths = replicate P2P_MAX_CONNECTIONS 0,
     ps_ring = [], ps_current_fd = - 1, ps_block_ready = False, ps_done = False\<rparr>"

text \<open>Index of a connection's buffer; beyond the allocation it is a fault.\<close>

definition p2p_get_client_buffer :: "u32 \<Rightarrow> nat option" where
  "p2p_get_client_buffer client_fd = do {
     require (unat client_fd < P2P_MAX_CONNECTIONS);
     Some (unat client_fd)
   }"

definition p2p_submit :: "uring_op \<Rightarrow> u64 \<Rightarrow> p2p_server \<Rightarrow> p2p_server" where
  "p2p_submit op data ps = ps\<lparr>ps_ring := ps_ring ps @ [(op, data)]\<rparr>"

definition p2p_add_accept_request :: "p2p_server \<Rightarrow> p2p_server" where
  "p2p_add_accept_request ps = p2p_submit Op_accept (make_request_data 0 (p2p_num P2P_FLAG_ACCEPT)) ps"

definition P2Pser_send_STATUS ::
  "protobuf \<Rightarrow> env \<Rightarrow> u32 \<Rightarrow> P2pIpcMessage__Status \<Rightarrow> STATE_P2P \<Rightarrow> p2p_server \<Rightarrow> p2p_server option" where
  "P2Pser_send_STATUS PB E client_fd STATUS STATE ps = do {
     i \<leftarrow> p2p_get_client_buffer client_fd;
     (n, buf, h) \<leftarrow> P2P_send_status PB E STATUS (ps_buffers ps ! i) (ps_heap ps);
     let ps = ps\<lparr>ps_buffers := (ps_buffers ps)[i := buf], ps_lengths := (ps_lengths ps)[i := of_nat n], ps_heap := h\<rparr>;
     Some (p2p_submit (Op_send client_fd (take n buf)) (make_request_data client_fd (p2p_num STATE)) ps)
   }"

definition P2P_send_PING :: "protobuf \<Rightarrow> env \<Rightarrow> u32 \<Rightarrow> p2p_server \<Rightarrow> p2p_server option" where
  "P2P_send_PING PB E client_fd ps = do {
     i \<leftarrow> p2p_get_client_buffer client_fd;
     (n, buf, h) \<leftarrow> P2P_send_status PB E P2P__IPC_MESSAGE__STATUS__PING (ps_buffers ps ! i) (ps_heap ps);
     let ps = ps\<lparr>ps_buffers := (ps_buffers ps)[i := buf], ps_lengths := (ps_lengths ps)[i := of_nat n], ps_heap := h\<rparr>;
     Some (p2p_submit (Op_send client_fd (take n buf)) (make_request_data client_fd (p2p_num FLAG_WAIT_PONG)) ps)
   }"

text \<open>The whole shared buffer is copied; as many bytes are sent as the block took.\<close>

definition P2Pser_send_block :: "shared \<Rightarrow> u32 \<Rightarrow> p2p_server \<Rightarrow> p2p_server option" where
  "P2Pser_send_block sh client_fd ps = do {
     i \<leftarrow> p2p_get_client_buffer client_fd;
     let ps = ps\<lparr>ps_lengths := (ps_lengths ps)[i := sh_block_written_size sh]\<rparr>;
     buf \<leftarrow> memcpy (ps_buffers ps ! i) (sh_buffer_BLOCK_DATA sh) BUFFER_SIZE;
     let ps = ps\<lparr>ps_buffers := (ps_buffers ps)[i := buf]\<rparr>;
     require (unat (sh_block_written_size sh) \<le> length buf);
     Some (p2p_submit (Op_send client_fd (take (unat (sh_block_written_size sh)) buf))
       (make_request_data client_fd (p2p_num FLAG_BLOCK_SENDED)) ps)
   }"

definition P2P_read_status_response :: "u32 \<Rightarrow> p2p_server \<Rightarrow> p2p_server option" where
  "P2P_read_status_response client_fd ps = do {
     i \<leftarrow> p2p_get_client_buffer client_fd;
     Some (p2p_submit (Op_recv client_fd) (make_request_data client_fd (p2p_num FLAG_TEST_RESPONSE))
       (ps\<lparr>ps_lengths := (ps_lengths ps)[i := 0]\<rparr>))
   }"

definition event_loop_p2p_start :: "p2p_server \<Rightarrow> p2p_server" where
  "event_loop_p2p_start ps =
     p2p_add_accept_request ((p2p_add_accept_request (ps\<lparr>ps_current_fd := - 1\<rparr>))\<lparr>ps_block_ready := False\<rparr>)"

definition p2p_test_response :: "protobuf \<Rightarrow> env \<Rightarrow> shared \<Rightarrow> cqe \<Rightarrow> p2p_server \<Rightarrow> p2p_server option" where
  "p2p_test_response PB E sh c ps = (
     let fd = request_data_client_fd (cq_user_data c) in
     if 0 < sint (cq_res c) then do {
       i \<leftarrow> p2p_get_client_buffer (ucast (cq_user_data c));
       msg_status \<leftarrow> P2P_deserialize_STATUS PB (ps_buffers ps ! i) (unat (cq_res c));
       (if msg_status = p2p_code P2P__IPC_MESSAGE__STATUS__PONG then
          P2Pser_send_STATUS PB E fd P2P__IPC_MESSAGE__STATUS__OK FLAG_READ_RESPONSE ps
        else if msg_status = p2p_code P2P__IPC_MESSAGE__STATUS__ASK_IF_BLOCK_READY then
          (if ps_block_ready ps then P2Pser_send_block sh fd ps
           else P2Pser_send_STATUS PB E fd P2P__IPC_MESSAGE__STATUS__BLOCK_NOT_READY FLAG_READ_RESPONSE ps)
        else Some ps)
     } else Some ps)"

text \<open>One iteration.  Whether the block is ready is whether \<open>mtx_trylock\<close> gets the mutex, which is given
  back at once.\<close>

definition event_loop_p2p_step :: "protobuf \<Rightarrow> env \<Rightarrow> shared \<Rightarrow> cqe \<Rightarrow> p2p_server \<Rightarrow> p2p_server option" where
  "event_loop_p2p_step PB E sh c ps = (
     let ps = ps\<lparr>ps_block_ready := \<not> sh_block_created_mtx sh\<rparr>;
         t = request_data_event_type (cq_user_data c);
         fd = request_data_client_fd (cq_user_data c) in
     if sh_kill_thread_p2p sh then Some (ps\<lparr>ps_done := True\<rparr>)
     else if t = p2p_num P2P_FLAG_ACCEPT then
       (let ps = p2p_add_accept_request ps;
            ps = ps\<lparr>ps_current_fd := request_data_client_fd (scast (cq_res c))\<rparr>
        in P2P_send_PING PB E (ps_current_fd ps) ps)
     else if t = p2p_num FLAG_WAIT_PONG then P2P_read_status_response fd ps
     else if t = p2p_num FLAG_TEST_RESPONSE then p2p_test_response PB E sh c ps
     else if t = p2p_num FLAG_READ_RESPONSE then P2P_read_status_response fd ps
     else if t = p2p_num FLAG_BLOCK_SENDED then
       P2Pser_send_STATUS PB E fd P2P__IPC_MESSAGE__STATUS__FINISH FLAG_WAIT_PONG ps
     else Some ps)"

section \<open>The asking thread\<close>

record p2p_listener =
  pl_heap :: heap
  pl_sock :: u32
  pl_buffer :: bytes
  pl_buffer_send :: bytes
  pl_ring :: "sqe list"
  pl_cycle :: u64
  pl_flag_ready_count :: bool
  pl_received :: "(block_t \<times> string) list"

definition cl_p2p_send_STATUS ::
  "protobuf \<Rightarrow> env \<Rightarrow> P2pIpcMessage__Status \<Rightarrow> cl_p2p_state \<Rightarrow> p2p_listener \<Rightarrow> p2p_listener option" where
  "cl_p2p_send_STATUS PB E STATUS STATE_MACHINE pl = do {
     (n, buf, h) \<leftarrow> P2P_send_status PB E STATUS (pl_buffer_send pl) (pl_heap pl);
     Some (pl\<lparr>pl_buffer_send := buf, pl_heap := h,
       pl_ring := pl_ring pl @ [(Op_send (pl_sock pl) (take n buf), make_request_data (pl_sock pl) (cl_num STATE_MACHINE))]\<rparr>)
   }"

definition cl_P2P_read_status_response :: "cl_p2p_state \<Rightarrow> p2p_listener \<Rightarrow> p2p_listener" where
  "cl_P2P_read_status_response STATE_MACHINE pl =
     pl\<lparr>pl_ring := pl_ring pl @ [(Op_recv (pl_sock pl), make_request_data (pl_sock pl) (cl_num STATE_MACHINE))]\<rparr>"

text \<open>\<open>while (1) { done = connect(...); if (!done) break; sleep(2); }\<close>: \<open>conn t\<close> is whether the attempt made
  at time \<open>t\<close> succeeds.\<close>

partial_function (option) connect_loop :: "(nat \<Rightarrow> bool) \<Rightarrow> nat \<Rightarrow> nat option" where
  "connect_loop conn t = (if conn t then Some t else connect_loop conn (Suc (Suc t)))"

text \<open>Connected.  The first queue entry taken is overwritten by the second without being prepared; in a
  fresh ring it is all zeroes, a no-op with tag 0.\<close>

definition setup_p2p_listening :: "u32 \<Rightarrow> heap \<Rightarrow> p2p_listener" where
  "setup_p2p_listening s h = \<lparr>pl_heap = h, pl_sock = s, pl_buffer = calloc BUFFER_SIZE,
     pl_buffer_send = calloc BUFFER_SIZE,
     pl_ring = [(Op_unprepared, 0), (Op_recv s, make_request_data s (cl_num PROCESS_RESPONSE))],
     pl_cycle = 0, pl_flag_ready_count = False, pl_received = []\<rparr>"

text \<open>The mutex of \<open>common.c\<close> is held while connecting.\<close>

definition connect_to_peer :: "(nat \<Rightarrow> bool) \<Rightarrow> nat \<Rightarrow> u32 \<Rightarrow> shared \<Rightarrow> heap \<Rightarrow> (shared \<times> p2p_listener) option" where
  "connect_to_peer conn t s sh h = do {
     require (\<not> sh_peer_connection_accepted sh);
     let sh = sh\<lparr>sh_peer_connection_accepted := True\<rparr>;
     _ \<leftarrow> connect_loop conn t;
     Some (sh\<lparr>sh_peer_connection_accepted := False\<rparr>, setup_p2p_listening s h)
   }"

definition process_response :: "protobuf \<Rightarrow> env \<Rightarrow> u32 \<Rightarrow> p2p_listener \<Rightarrow> p2p_listener option" where
  "process_response PB E res pl = do {
     msg_status \<leftarrow> P2P_deserialize_STATUS PB (pl_buffer pl) (unat res);
     (if msg_status = p2p_code P2P__IPC_MESSAGE__STATUS__PING then
        cl_p2p_send_STATUS PB E P2P__IPC_MESSAGE__STATUS__PONG CL_READ_RESPONSE pl
      else if msg_status = p2p_code P2P__IPC_MESSAGE__STATUS__OK then
        cl_p2p_send_STATUS PB E P2P__IPC_MESSAGE__STATUS__ASK_IF_BLOCK_READY CL_READ_RESPONSE pl
      else if msg_status = p2p_code P2P__IPC_MESSAGE__STATUS__BLOCK then do {
        recv_block \<leftarrow> deserialize_block PB (pl_buffer pl) (unat res);
        block \<leftarrow> recv_block;
        out \<leftarrow> print_block_data E block;
        Some (pl\<lparr>pl_received := pl_received pl @ [(block, out)]\<rparr>)
      }
      else if msg_status = p2p_code P2P__IPC_MESSAGE__STATUS__BLOCK_NOT_READY then
        (if pl_flag_ready_count pl
         then cl_p2p_send_STATUS PB E P2P__IPC_MESSAGE__STATUS__ASK_IF_BLOCK_READY CL_READ_RESPONSE pl
         else do {
           pl \<leftarrow> cl_p2p_send_STATUS PB E P2P__IPC_MESSAGE__STATUS__ASK_IF_BLOCK_READY CL_READ_RESPONSE pl;
           Some (pl\<lparr>pl_flag_ready_count := True\<rparr>)
         })
      else Some pl)
   }"

definition p2p_listen_step :: "protobuf \<Rightarrow> env \<Rightarrow> shared \<Rightarrow> cqe \<Rightarrow> p2p_listener \<Rightarrow> p2p_listener option" where
  "p2p_listen_step PB E sh c pl =
     (if sh_kill_thread_p2p sh then Some pl
      else do {
        let STATE = request_data_event_type (cq_user_data c);
        pl \<leftarrow> (if STATE = cl_num PROCESS_RESPONSE then process_response PB E (cq_res c) pl
               else if STATE = cl_num CL_READ_RESPONSE then Some (cl_P2P_read_status_response PROCESS_RESPONSE pl)
               else Some pl);
        Some (pl\<lparr>pl_cycle := pl_cycle pl + 1\<rparr>)
      })"

end
