(* ===== verification/Peers.thy ===== *)
theory Peers
  imports P2P StutterSim
begin

text \<open>
  Two nodes: the serving thread of one and the asking thread of the other, joined by a connection.  The
  composition interleaves completions of either ring with the moment the client thread of the serving node
  publishes its block.  A receive delivers the frame of one send.  The conversation is specified by an
  automaton, and every step of the two threads is a step of it or leaves it where it is, provided that both
  threads read the status they were sent although the message was freed before (\<open>freed_readable\<close> in
  \<open>peer_ok\<close>).  Nothing promises this: what holds in any case is in \<open>ServeInv\<close> and \<open>AskInv\<close>.
\<close>

section \<open>The conversation\<close>

datatype conv =
    Unconnected
  | S_sends P2pIpcMessage__Status
  | S_sent P2pIpcMessage__Status
  | L_sends P2pIpcMessage__Status
  | L_sent P2pIpcMessage__Status
  | Finishing bool
  | Finished bool

text \<open>The flag says whether the block is published.\<close>

inductive conv_step :: "bool \<times> conv \<Rightarrow> bool \<times> conv \<Rightarrow> bool" where
  publish: "conv_step (False, c) (True, c)"
| connect: "conv_step (r, Unconnected) (r, S_sends P2P__IPC_MESSAGE__STATUS__PING)"
| transmit: "m \<noteq> P2P__IPC_MESSAGE__STATUS__BLOCK \<Longrightarrow> conv_step (r, S_sends m) (r, S_sent m)"
| ping: "conv_step (r, S_sent P2P__IPC_MESSAGE__STATUS__PING) (r, L_sends P2P__IPC_MESSAGE__STATUS__PONG)"
| ok: "conv_step (r, S_sent P2P__IPC_MESSAGE__STATUS__OK) (r, L_sends P2P__IPC_MESSAGE__STATUS__ASK_IF_BLOCK_READY)"
| again: "conv_step (r, S_sent P2P__IPC_MESSAGE__STATUS__BLOCK_NOT_READY)
    (r, L_sends P2P__IPC_MESSAGE__STATUS__ASK_IF_BLOCK_READY)"
| answer: "conv_step (r, L_sends m) (r, L_sent m)"
| pong: "conv_step (r, L_sent P2P__IPC_MESSAGE__STATUS__PONG) (r, S_sends P2P__IPC_MESSAGE__STATUS__OK)"
| not_ready: "conv_step (False, L_sent P2P__IPC_MESSAGE__STATUS__ASK_IF_BLOCK_READY)
    (False, S_sends P2P__IPC_MESSAGE__STATUS__BLOCK_NOT_READY)"
| ready: "conv_step (True, L_sent P2P__IPC_MESSAGE__STATUS__ASK_IF_BLOCK_READY)
    (True, S_sends P2P__IPC_MESSAGE__STATUS__BLOCK)"
| send_block: "conv_step (r, S_sends P2P__IPC_MESSAGE__STATUS__BLOCK) (r, Finishing False)"
| got_block: "conv_step (r, Finishing False) (r, Finishing True)"
| finish: "conv_step (r, Finishing g) (r, Finished g)"
| got_block_late: "conv_step (r, Finished False) (r, Finished True)"

text \<open>What the automaton can say, and what it means for the block.\<close>

fun conv_ok :: "conv \<Rightarrow> bool" where
  "conv_ok (S_sends m) \<longleftrightarrow> m \<in> {P2P__IPC_MESSAGE__STATUS__PING, P2P__IPC_MESSAGE__STATUS__OK,
     P2P__IPC_MESSAGE__STATUS__BLOCK_NOT_READY, P2P__IPC_MESSAGE__STATUS__BLOCK}"
| "conv_ok (S_sent m) \<longleftrightarrow> m \<in> {P2P__IPC_MESSAGE__STATUS__PING, P2P__IPC_MESSAGE__STATUS__OK,
     P2P__IPC_MESSAGE__STATUS__BLOCK_NOT_READY}"
| "conv_ok (L_sends m) \<longleftrightarrow> m \<in> {P2P__IPC_MESSAGE__STATUS__PONG, P2P__IPC_MESSAGE__STATUS__ASK_IF_BLOCK_READY}"
| "conv_ok (L_sent m) \<longleftrightarrow> m \<in> {P2P__IPC_MESSAGE__STATUS__PONG, P2P__IPC_MESSAGE__STATUS__ASK_IF_BLOCK_READY}"
| "conv_ok _ \<longleftrightarrow> True"

fun block_phase :: "conv \<Rightarrow> bool" where
  "block_phase (S_sends m) \<longleftrightarrow> m = P2P__IPC_MESSAGE__STATUS__BLOCK"
| "block_phase (Finishing _) \<longleftrightarrow> True"
| "block_phase (Finished _) \<longleftrightarrow> True"
| "block_phase _ \<longleftrightarrow> False"

fun delivered :: "conv \<Rightarrow> bool" where
  "delivered (Finishing g) \<longleftrightarrow> g"
| "delivered (Finished g) \<longleftrightarrow> g"
| "delivered _ \<longleftrightarrow> False"

lemma conv_step_ok: "conv_step s s' \<Longrightarrow> conv_ok (snd s) \<Longrightarrow> conv_ok (snd s')"
  by (induction rule: conv_step.induct) auto

lemma conv_step_published:
  "conv_step s s' \<Longrightarrow> (block_phase (snd s) \<longrightarrow> fst s) \<Longrightarrow> (block_phase (snd s') \<longrightarrow> fst s') \<and> (fst s \<longrightarrow> fst s')"
  by (induction rule: conv_step.induct) auto

text \<open>A bound on the steps until the block is delivered, once it is published.\<close>

fun conv_rank :: "conv \<Rightarrow> nat" where
  "conv_rank Unconnected = 14"
| "conv_rank (S_sends m) = (if m = P2P__IPC_MESSAGE__STATUS__PING then 13
     else if m = P2P__IPC_MESSAGE__STATUS__BLOCK then 4 else 9)"
| "conv_rank (S_sent m) = (if m = P2P__IPC_MESSAGE__STATUS__PING then 12 else 8)"
| "conv_rank (L_sends m) = (if m = P2P__IPC_MESSAGE__STATUS__PONG then 11 else 7)"
| "conv_rank (L_sent m) = (if m = P2P__IPC_MESSAGE__STATUS__PONG then 10 else 6)"
| "conv_rank (Finishing g) = (if g then 1 else 3)"
| "conv_rank (Finished g) = (if g then 0 else 2)"

lemma conv_rank_step:
  "conv_step s s' \<Longrightarrow> fst s \<Longrightarrow> conv_ok (snd s) \<Longrightarrow> conv_rank (snd s') < conv_rank (snd s)"
  by (induction rule: conv_step.induct) auto

lemma conv_rank_delivered: "conv_rank c = 0 \<Longrightarrow> delivered c"
  by (cases c) (auto split: if_splits)

section \<open>Two nodes\<close>

record peers =
  pe_srv :: p2p_server
  pe_lst :: p2p_listener
  pe_sh :: shared
  pe_to_lst :: "bytes list"
  pe_to_srv :: "bytes list"

text \<open>A completion: its entry leaves the ring and the thread does one iteration.\<close>

definition srv_complete ::
  "protobuf \<Rightarrow> env \<Rightarrow> shared \<Rightarrow> uring_op \<Rightarrow> u64 \<Rightarrow> u32 \<Rightarrow> p2p_server \<Rightarrow> p2p_server option" where
  "srv_complete PB E sh op d res ps =
     event_loop_p2p_step PB E sh \<lparr>cq_res = res, cq_user_data = d\<rparr> (ps\<lparr>ps_ring := remove1 (op, d) (ps_ring ps)\<rparr>)"

definition lst_complete ::
  "protobuf \<Rightarrow> env \<Rightarrow> shared \<Rightarrow> uring_op \<Rightarrow> u64 \<Rightarrow> u32 \<Rightarrow> p2p_listener \<Rightarrow> p2p_listener option" where
  "lst_complete PB E sh op d res pl =
     p2p_listen_step PB E sh \<lparr>cq_res = res, cq_user_data = d\<rparr> (pl\<lparr>pl_ring := remove1 (op, d) (pl_ring pl)\<rparr>)"

text \<open>The kernel stores a frame.\<close>

definition store_frame :: "bytes \<Rightarrow> bytes \<Rightarrow> bytes" where
  "store_frame f buf = f @ drop (length f) buf"

definition srv_store :: "u32 \<Rightarrow> bytes \<Rightarrow> p2p_server \<Rightarrow> p2p_server" where
  "srv_store fd f ps = ps\<lparr>ps_buffers := (ps_buffers ps)[unat fd := store_frame f (ps_buffers ps ! unat fd)]\<rparr>"

definition lst_store :: "bytes \<Rightarrow> p2p_listener \<Rightarrow> p2p_listener" where
  "lst_store f pl = pl\<lparr>pl_buffer := store_frame f (pl_buffer pl)\<rparr>"

text \<open>\<open>b\<close> is the block the client thread of the serving node makes, \<open>fd\<close> the descriptor of the accepted
  connection, \<open>E\<close> and \<open>E'\<close> the two machines.\<close>

inductive peer_step :: "protobuf \<Rightarrow> env \<Rightarrow> env \<Rightarrow> block_t \<Rightarrow> u32 \<Rightarrow> peers \<Rightarrow> peers \<Rightarrow> bool" for PB E E' b fd where
  accept: "(Op_accept, d) \<in> set (ps_ring (pe_srv p)) \<Longrightarrow> ps_current_fd (pe_srv p) = - 1 \<Longrightarrow>
    srv_complete PB E (pe_sh p) Op_accept d fd (pe_srv p) = Some ps' \<Longrightarrow>
    peer_step PB E E' b fd p (p\<lparr>pe_srv := ps'\<rparr>)"
| srv_sent: "(Op_send fd f, d) \<in> set (ps_ring (pe_srv p)) \<Longrightarrow>
    srv_complete PB E (pe_sh p) (Op_send fd f) d (of_nat (length f)) (pe_srv p) = Some ps' \<Longrightarrow>
    peer_step PB E E' b fd p (p\<lparr>pe_srv := ps', pe_to_lst := pe_to_lst p @ [f]\<rparr>)"
| srv_received: "(Op_recv fd, d) \<in> set (ps_ring (pe_srv p)) \<Longrightarrow> pe_to_srv p = f # fs \<Longrightarrow>
    srv_complete PB E (pe_sh p) (Op_recv fd) d (of_nat (length f)) (srv_store fd f (pe_srv p)) = Some ps' \<Longrightarrow>
    peer_step PB E E' b fd p (p\<lparr>pe_srv := ps', pe_to_srv := fs\<rparr>)"
| lst_noop: "(Op_unprepared, d) \<in> set (pl_ring (pe_lst p)) \<Longrightarrow>
    lst_complete PB E' shared_init Op_unprepared d 0 (pe_lst p) = Some pl' \<Longrightarrow>
    peer_step PB E E' b fd p (p\<lparr>pe_lst := pl'\<rparr>)"
| lst_sent: "(Op_send s f, d) \<in> set (pl_ring (pe_lst p)) \<Longrightarrow>
    lst_complete PB E' shared_init (Op_send s f) d (of_nat (length f)) (pe_lst p) = Some pl' \<Longrightarrow>
    peer_step PB E E' b fd p (p\<lparr>pe_lst := pl', pe_to_srv := pe_to_srv p @ [f]\<rparr>)"
| lst_received: "(Op_recv s, d) \<in> set (pl_ring (pe_lst p)) \<Longrightarrow> pe_to_lst p = f # fs \<Longrightarrow>
    lst_complete PB E' shared_init (Op_recv s) d (of_nat (length f)) (lst_store f (pe_lst p)) = Some pl' \<Longrightarrow>
    peer_step PB E E' b fd p (p\<lparr>pe_lst := pl', pe_to_lst := fs\<rparr>)"
| block_made: "sh_block_created_mtx (pe_sh p) \<Longrightarrow> holds_block PB b sh' \<Longrightarrow> \<not> sh_block_created_mtx sh' \<Longrightarrow>
    \<not> sh_kill_thread_p2p sh' \<Longrightarrow> peer_step PB E E' b fd p (p\<lparr>pe_sh := sh'\<rparr>)"

section \<open>The serving thread, step by step\<close>

text \<open>A frame that is read with status \<open>m\<close>.\<close>

definition carries :: "protobuf \<Rightarrow> P2pIpcMessage__Status \<Rightarrow> bytes \<Rightarrow> bool" where
  "carries PB m f \<longleftrightarrow> 0 < length f \<and> length f \<le> BUFFER_SIZE \<and>
     (\<exists>pm. p2p__ipc_message__unpack PB (length f) f = Some pm \<and> pm_status_code pm = p2p_code m)"

definition srv_ok :: "p2p_server \<Rightarrow> bool" where
  "srv_ok ps \<longleftrightarrow> length (ps_buffers ps) = P2P_MAX_CONNECTIONS \<and> (\<forall>buf \<in> set (ps_buffers ps). length buf = BUFFER_SIZE)"

text \<open>A frame written by \<open>P2P_send_status\<close>.\<close>

definition peer_frame :: "protobuf \<Rightarrow> P2pIpcMessage__Status \<Rightarrow> bytes \<Rightarrow> bool" where
  "peer_frame PB m f \<longleftrightarrow> (\<exists>d. length d < 35 \<and> p2p_packed PB (status_message d m) f)"

lemma with_reads_frames [simp]:
  "carries (with_reads PB freed behind) = carries PB" "peer_frame (with_reads PB freed behind) = peer_frame PB"
  "holds_block (with_reads PB freed behind) = holds_block PB"
  by (simp_all add: carries_def peer_frame_def holds_block_def fun_eq_iff)

lemma block_frame_carries: "block_frame PB b f \<Longrightarrow> carries PB P2P__IPC_MESSAGE__STATUS__BLOCK f"
  by (auto simp: block_frame_def carries_def p2p_packed_def p2p__ipc_message__unpack_def block_message_def)

lemma peer_frame_carries: "peer_frame PB m f \<Longrightarrow> carries PB m f"
  by (auto simp: peer_frame_def carries_def p2p_packed_def p2p__ipc_message__unpack_def status_message_def p2p_size_def
      p2p__ipc_message__init_def)

lemma carries_status:
  assumes "carries PB m f" "freed_readable PB"
  shows "P2P_deserialize_STATUS PB (store_frame f buf) (length f) = Some (p2p_code m)"
  using assms by (auto simp: carries_def freed_readable_def P2P_deserialize_STATUS_def store_frame_def
      p2p__ipc_message__unpack_def)

lemma length_store_frame: "length f \<le> length buf \<Longrightarrow> length (store_frame f buf) = length buf"
  by (simp add: store_frame_def)

lemma srv_ok_update: "srv_ok ps \<Longrightarrow> length buf = BUFFER_SIZE \<Longrightarrow>
    srv_ok (ps\<lparr>ps_buffers := (ps_buffers ps)[i := buf]\<rparr>)"
  by (auto simp: srv_ok_def dest!: set_update_subset_insert [THEN subsetD])

lemma srv_store_ok:
  assumes "srv_ok ps" "carries PB m f" "unat fd < 100"
  shows "srv_ok (srv_store fd f ps)" "ps_buffers (srv_store fd f ps) ! unat fd = store_frame f (ps_buffers ps ! unat fd)"
proof -
  have "length (ps_buffers ps ! unat fd) = BUFFER_SIZE" using assms(1,3) by (simp add: srv_ok_def)
  then show "srv_ok (srv_store fd f ps)"
    using srv_ok_update [OF assms(1), of "store_frame f (ps_buffers ps ! unat fd)" "unat fd"] assms(2)
    by (simp add: srv_store_def carries_def length_store_frame)
  show "ps_buffers (srv_store fd f ps) ! unat fd = store_frame f (ps_buffers ps ! unat fd)"
    using assms(1,3) by (simp add: srv_store_def srv_ok_def)
qed

lemma P2Pser_send_STATUS_ok:
  assumes "protobuf_ok PB" "clock_ok E" "srv_ok ps" "unat fd < 100"
  shows "\<exists>ps' f. P2Pser_send_STATUS PB E fd m st ps = Some ps' \<and> srv_ok ps' \<and> peer_frame PB m f \<and>
    ps_ring ps' = ps_ring ps @ [(Op_send fd f, make_request_data fd (p2p_num st))] \<and> ps_current_fd ps' = ps_current_fd ps"
proof -
  have buf: "length (ps_buffers ps ! unat fd) = SOCK_BUF" using assms(3,4) by (simp add: srv_ok_def)
  obtain n buf' d where s: "P2P_send_status PB E m (ps_buffers ps ! unat fd) (ps_heap ps) = Some (n, buf', tick (ps_heap ps))"
      "length buf' = SOCK_BUF" "length d < 35" "p2p_packed PB (status_message d m) (take n buf')"
    using p2p_send_status [OF assms(1,2) buf] by blast
  have "peer_frame PB m (take n buf')" using s(3,4) by (auto simp: peer_frame_def)
  moreover have "srv_ok (ps\<lparr>ps_buffers := (ps_buffers ps)[unat fd := buf']\<rparr>)" using assms(3) s(2) by (simp add: srv_ok_update)
  ultimately show ?thesis
    using s(1) assms(4) by (simp add: P2Pser_send_STATUS_def p2p_get_client_buffer_def p2p_submit_def srv_ok_def)
qed

lemma P2P_send_PING_eq:
  "P2P_send_PING PB E fd ps = P2Pser_send_STATUS PB E fd P2P__IPC_MESSAGE__STATUS__PING FLAG_WAIT_PONG ps"
  by (simp add: P2P_send_PING_def P2Pser_send_STATUS_def)

lemma P2P_read_status_response_ok:
  assumes "srv_ok ps" "unat fd < 100"
  shows "\<exists>ps'. P2P_read_status_response fd ps = Some ps' \<and> srv_ok ps' \<and> ps_current_fd ps' = ps_current_fd ps \<and>
    ps_ring ps' = ps_ring ps @ [(Op_recv fd, make_request_data fd (p2p_num FLAG_TEST_RESPONSE))]"
  using assms by (simp add: P2P_read_status_response_def p2p_get_client_buffer_def p2p_submit_def srv_ok_def)

lemma P2Pser_send_block_ok:
  assumes "srv_ok ps" "unat fd < 100" "holds_block PB b sh"
  shows "\<exists>ps' f. P2Pser_send_block sh fd ps = Some ps' \<and> srv_ok ps' \<and> block_frame PB b f \<and>
    ps_ring ps' = ps_ring ps @ [(Op_send fd f, make_request_data fd (p2p_num FLAG_BLOCK_SENDED))] \<and>
    ps_current_fd ps' = ps_current_fd ps"
proof -
  let ?d = "sh_buffer_BLOCK_DATA sh"
  have len: "length ?d = 4096" "unat (sh_block_written_size sh) \<le> 4096" using assms(3) by (simp_all add: holds_block_def)
  have "memcpy (ps_buffers ps ! unat fd) ?d BUFFER_SIZE = Some ?d"
    using assms(1,2) len by (simp add: srv_ok_def memcpy_full)
  moreover have "srv_ok (ps\<lparr>ps_buffers := (ps_buffers ps)[unat fd := ?d]\<rparr>)" using assms(1) len by (simp add: srv_ok_update)
  ultimately show ?thesis
    using assms(2,3) len by (simp add: P2Pser_send_block_def p2p_get_client_buffer_def p2p_submit_def srv_ok_def holds_block_def)
qed

text \<open>Dispatch of a completion on its tag, after the mutex was tried.\<close>

definition polled :: "shared \<Rightarrow> p2p_server \<Rightarrow> p2p_server" where
  "polled sh ps = ps\<lparr>ps_block_ready := \<not> sh_block_created_mtx sh\<rparr>"

lemma srv_dispatch:
  assumes "unat fd < 100" "\<not> sh_kill_thread_p2p sh"
  shows "event_loop_p2p_step PB E sh \<lparr>cq_res = r, cq_user_data = make_request_data fd (p2p_num FLAG_WAIT_PONG)\<rparr> ps =
      P2P_read_status_response fd (polled sh ps)"
    and "event_loop_p2p_step PB E sh \<lparr>cq_res = r, cq_user_data = make_request_data fd (p2p_num FLAG_READ_RESPONSE)\<rparr> ps =
      P2P_read_status_response fd (polled sh ps)"
    and "event_loop_p2p_step PB E sh \<lparr>cq_res = r, cq_user_data = make_request_data fd (p2p_num FLAG_BLOCK_SENDED)\<rparr> ps =
      P2Pser_send_STATUS PB E fd P2P__IPC_MESSAGE__STATUS__FINISH FLAG_WAIT_PONG (polled sh ps)"
    and "event_loop_p2p_step PB E sh \<lparr>cq_res = r, cq_user_data = make_request_data fd (p2p_num FLAG_TEST_RESPONSE)\<rparr> ps =
      p2p_test_response PB E sh \<lparr>cq_res = r, cq_user_data = make_request_data fd (p2p_num FLAG_TEST_RESPONSE)\<rparr> (polled sh ps)"
    and "event_loop_p2p_step PB E sh \<lparr>cq_res = fd, cq_user_data = make_request_data 0 (p2p_num P2P_FLAG_ACCEPT)\<rparr> ps =
      P2Pser_send_STATUS PB E fd P2P__IPC_MESSAGE__STATUS__PING FLAG_WAIT_PONG
        ((p2p_add_accept_request (polled sh ps))\<lparr>ps_current_fd := fd\<rparr>)"
proof -
  have nb: "\<not> bit fd 31" "\<not> bit (0 :: u32) 31" using fd_nonneg [of fd] assms(1) by simp_all
  note t = request_type_roundtrip [OF nb(1)] request_type_roundtrip [OF nb(2)] request_fd_roundtrip
  have fd: "request_data_client_fd (scast fd) = fd"
    using request_fd_roundtrip [of fd 0] by (simp add: make_request_data_def)
  show "event_loop_p2p_step PB E sh \<lparr>cq_res = r, cq_user_data = make_request_data fd (p2p_num FLAG_WAIT_PONG)\<rparr> ps =
      P2P_read_status_response fd (polled sh ps)"
    "event_loop_p2p_step PB E sh \<lparr>cq_res = r, cq_user_data = make_request_data fd (p2p_num FLAG_READ_RESPONSE)\<rparr> ps =
      P2P_read_status_response fd (polled sh ps)"
    "event_loop_p2p_step PB E sh \<lparr>cq_res = r, cq_user_data = make_request_data fd (p2p_num FLAG_BLOCK_SENDED)\<rparr> ps =
      P2Pser_send_STATUS PB E fd P2P__IPC_MESSAGE__STATUS__FINISH FLAG_WAIT_PONG (polled sh ps)"
    "event_loop_p2p_step PB E sh \<lparr>cq_res = r, cq_user_data = make_request_data fd (p2p_num FLAG_TEST_RESPONSE)\<rparr> ps =
      p2p_test_response PB E sh \<lparr>cq_res = r, cq_user_data = make_request_data fd (p2p_num FLAG_TEST_RESPONSE)\<rparr> (polled sh ps)"
    using assms(2) by (simp_all add: event_loop_p2p_step_def Let_def t polled_def)
  show "event_loop_p2p_step PB E sh \<lparr>cq_res = fd, cq_user_data = make_request_data 0 (p2p_num P2P_FLAG_ACCEPT)\<rparr> ps =
      P2Pser_send_STATUS PB E fd P2P__IPC_MESSAGE__STATUS__PING FLAG_WAIT_PONG
        ((p2p_add_accept_request (polled sh ps))\<lparr>ps_current_fd := fd\<rparr>)"
    using assms(2) by (simp add: event_loop_p2p_step_def Let_def t polled_def P2P_send_PING_eq fd)
qed

text \<open>The answer to a frame with status \<open>m\<close>.\<close>

lemma srv_test_frame:
  assumes "freed_readable PB" "carries PB m f" "unat fd < 100" "ps_buffers ps ! unat fd = store_frame f buf"
  shows "p2p_test_response PB E sh \<lparr>cq_res = of_nat (length f), cq_user_data = make_request_data fd tag\<rparr> ps =
    (if m = P2P__IPC_MESSAGE__STATUS__PONG then P2Pser_send_STATUS PB E fd P2P__IPC_MESSAGE__STATUS__OK FLAG_READ_RESPONSE ps
     else if m = P2P__IPC_MESSAGE__STATUS__ASK_IF_BLOCK_READY then
       (if ps_block_ready ps then P2Pser_send_block sh fd ps
        else P2Pser_send_STATUS PB E fd P2P__IPC_MESSAGE__STATUS__BLOCK_NOT_READY FLAG_READ_RESPONSE ps)
     else Some ps)"
proof -
  have len: "0 < length f" "length f \<le> 4096" using assms(2) by (simp_all add: carries_def)
  have "sint (of_nat (length f) :: u32) = int (length f)"
    using len(2) by (simp add: signed_of_nat signed_take_bit_int_eq_self)
  then show ?thesis
    using len small_res(1) [OF len(2)] carries_status [OF assms(2,1), of buf] assms(3,4)
      p2p_code_inject [of m P2P__IPC_MESSAGE__STATUS__PONG] p2p_code_inject [of m P2P__IPC_MESSAGE__STATUS__ASK_IF_BLOCK_READY]
    by (simp add: p2p_test_response_def request_fd_roundtrip ucast_request p2p_get_client_buffer_def del: p2p_code_inject)
qed


section \<open>The asking thread, step by step\<close>

definition lst_ok :: "u32 \<Rightarrow> p2p_listener \<Rightarrow> bool" where
  "lst_ok s pl \<longleftrightarrow> pl_sock pl = s \<and> length (pl_buffer pl) = BUFFER_SIZE \<and> length (pl_buffer_send pl) = BUFFER_SIZE"

lemma cl_p2p_send_STATUS_ok:
  assumes "protobuf_ok PB" "clock_ok E" "lst_ok s pl"
  shows "\<exists>pl' f. cl_p2p_send_STATUS PB E m st pl = Some pl' \<and> lst_ok s pl' \<and> peer_frame PB m f \<and>
    pl_ring pl' = pl_ring pl @ [(Op_send s f, make_request_data s (cl_num st))] \<and> pl_received pl' = pl_received pl"
proof -
  have buf: "length (pl_buffer_send pl) = SOCK_BUF" using assms(3) by (simp add: lst_ok_def)
  obtain n buf' d where s: "P2P_send_status PB E m (pl_buffer_send pl) (pl_heap pl) = Some (n, buf', tick (pl_heap pl))"
      "length buf' = SOCK_BUF" "length d < 35" "p2p_packed PB (status_message d m) (take n buf')"
    using p2p_send_status [OF assms(1,2) buf] by blast
  have "peer_frame PB m (take n buf')" using s(3,4) by (auto simp: peer_frame_def)
  then show ?thesis using s(1,2) assms(3) by (simp add: cl_p2p_send_STATUS_def lst_ok_def)
qed

lemma lst_store_ok: "lst_ok s pl \<Longrightarrow> carries PB m f \<Longrightarrow> lst_ok s (lst_store f pl)"
  by (simp add: lst_ok_def lst_store_def carries_def length_store_frame)


lemma lst_dispatch:
  assumes "\<not> bit s 31"
  shows "p2p_listen_step PB E shared_init \<lparr>cq_res = r, cq_user_data = make_request_data s (cl_num PROCESS_RESPONSE)\<rparr> pl =
      map_option (\<lambda>pl. pl\<lparr>pl_cycle := pl_cycle pl + 1\<rparr>) (process_response PB E r pl)"
    and "p2p_listen_step PB E shared_init \<lparr>cq_res = r, cq_user_data = make_request_data s (cl_num CL_READ_RESPONSE)\<rparr> pl =
      Some (pl\<lparr>pl_ring := pl_ring pl @ [(Op_recv (pl_sock pl), make_request_data (pl_sock pl) (cl_num PROCESS_RESPONSE))],
               pl_cycle := pl_cycle pl + 1\<rparr>)"
    and "p2p_listen_step PB E shared_init \<lparr>cq_res = r, cq_user_data = 0\<rparr> pl = Some (pl\<lparr>pl_cycle := pl_cycle pl + 1\<rparr>)"
proof -
  note t = request_type_roundtrip [OF assms]
  have z: "request_data_event_type 0 = 0" by (simp add: request_data_event_type_def)
  show "p2p_listen_step PB E shared_init \<lparr>cq_res = r, cq_user_data = make_request_data s (cl_num PROCESS_RESPONSE)\<rparr> pl =
      map_option (\<lambda>pl. pl\<lparr>pl_cycle := pl_cycle pl + 1\<rparr>) (process_response PB E r pl)"
    by (cases "process_response PB E r pl") (simp_all add: p2p_listen_step_def t shared_init_def)
  show "p2p_listen_step PB E shared_init \<lparr>cq_res = r, cq_user_data = make_request_data s (cl_num CL_READ_RESPONSE)\<rparr> pl =
      Some (pl\<lparr>pl_ring := pl_ring pl @ [(Op_recv (pl_sock pl), make_request_data (pl_sock pl) (cl_num PROCESS_RESPONSE))],
               pl_cycle := pl_cycle pl + 1\<rparr>)"
    by (simp add: p2p_listen_step_def t shared_init_def cl_P2P_read_status_response_def)
  show "p2p_listen_step PB E shared_init \<lparr>cq_res = r, cq_user_data = 0\<rparr> pl = Some (pl\<lparr>pl_cycle := pl_cycle pl + 1\<rparr>)"
    by (simp add: p2p_listen_step_def z shared_init_def)
qed


lemma print_block_ok: "block_wf b \<Longrightarrow> \<exists>out. print_block_data E b = Some out"
  by (simp add: print_block_data_def DumpHex_def block_wf_def)

lemma lst_status_frame:
  assumes "freed_readable PB" "carries PB m f" "pl_buffer pl = store_frame f buf"
    and "m \<noteq> P2P__IPC_MESSAGE__STATUS__BLOCK"
  shows "process_response PB E (of_nat (length f)) pl =
    (if m = P2P__IPC_MESSAGE__STATUS__PING then cl_p2p_send_STATUS PB E P2P__IPC_MESSAGE__STATUS__PONG CL_READ_RESPONSE pl
     else if m = P2P__IPC_MESSAGE__STATUS__OK then
       cl_p2p_send_STATUS PB E P2P__IPC_MESSAGE__STATUS__ASK_IF_BLOCK_READY CL_READ_RESPONSE pl
     else if m = P2P__IPC_MESSAGE__STATUS__BLOCK_NOT_READY then
       map_option (\<lambda>pl. pl\<lparr>pl_flag_ready_count := True\<rparr>)
         (cl_p2p_send_STATUS PB E P2P__IPC_MESSAGE__STATUS__ASK_IF_BLOCK_READY CL_READ_RESPONSE pl)
     else Some pl)"
proof -
  let ?ask = "cl_p2p_send_STATUS PB E P2P__IPC_MESSAGE__STATUS__ASK_IF_BLOCK_READY CL_READ_RESPONSE pl"
  have len: "length f \<le> 4096" using assms(2) by (simp add: carries_def)
  have st: "P2P_deserialize_STATUS PB (pl_buffer pl) (unat (of_nat (length f) :: u32)) = Some (p2p_code m)"
    using carries_status [OF assms(2,1)] small_res(1) [OF len] assms(3) by simp
  have flag: "pl_flag_ready_count pl \<Longrightarrow> map_option (\<lambda>pl. pl\<lparr>pl_flag_ready_count := True\<rparr>) ?ask = ?ask"
    by (auto simp: cl_p2p_send_STATUS_def split: Option.bind_split)
  have bind: "(?ask \<bind> (\<lambda>pl. Some (pl\<lparr>pl_flag_ready_count := True\<rparr>))) =
      map_option (\<lambda>pl. pl\<lparr>pl_flag_ready_count := True\<rparr>) ?ask" by (cases ?ask) simp_all
  show ?thesis
    unfolding process_response_def st using assms(4) flag bind by (simp only: Option.bind.simps p2p_code_inject) simp
qed

lemma lst_block_frame:
  assumes "freed_readable PB" "block_frame PB b f" "pl_buffer pl = store_frame f buf"
  shows "\<exists>b' out. process_response PB E (of_nat (length f)) pl = Some (pl\<lparr>pl_received := pl_received pl @ [(b', out)]\<rparr>) \<and>
    same_block b b' \<and> block_wf b'"
proof -
  have c: "carries PB P2P__IPC_MESSAGE__STATUS__BLOCK f" using assms(2) by (rule block_frame_carries)
  have len: "length f \<le> 4096" using c by (simp add: carries_def)
  have behind: "pb_behind PB m \<noteq> None" for m using assms(1) by (simp add: freed_readable_def)
  obtain b' where b': "deserialize_block PB (pl_buffer pl) (length f) = Some (Some b')" "block_wf b'" "same_block b b'"
    using block_frame_readable [OF assms(2) behind] assms(3) by (auto simp: store_frame_def)
  obtain out where out: "print_block_data E b' = Some out" using print_block_ok [OF b'(2)] by blast
  show ?thesis
    using carries_status [OF c assms(1), of buf] small_res(1) [OF len] assms(3) b' out
    by (intro exI [of _ b'] exI [of _ out]) (simp add: process_response_def)
qed

text \<open>What the asking thread answers.\<close>

fun reply :: "P2pIpcMessage__Status \<Rightarrow> P2pIpcMessage__Status" where
  "reply P2P__IPC_MESSAGE__STATUS__PING = P2P__IPC_MESSAGE__STATUS__PONG"
| "reply _ = P2P__IPC_MESSAGE__STATUS__ASK_IF_BLOCK_READY"

lemma conv_step_reply: "conv_ok (S_sent m) \<Longrightarrow> conv_step (r, S_sent m) (r, L_sends (reply m)) \<and> conv_ok (L_sends (reply m))"
  by (auto intro: conv_step.intros)

lemma lst_replies:
  assumes "freed_readable PB" "protobuf_ok PB" "clock_ok E" "carries PB m f" "conv_ok (S_sent m)"
    and "pl_buffer pl = store_frame f buf" "lst_ok s pl" "process_response PB E (of_nat (length f)) pl = Some pl'"
  shows "\<exists>f'. peer_frame PB (reply m) f' \<and> lst_ok s pl' \<and> pl_received pl' = pl_received pl \<and>
    pl_ring pl' = pl_ring pl @ [(Op_send s f', make_request_data s (cl_num CL_READ_RESPONSE))]"
proof -
  have m: "m \<noteq> P2P__IPC_MESSAGE__STATUS__BLOCK" using assms(5) by auto
  obtain pl1 f' where "cl_p2p_send_STATUS PB E (reply m) CL_READ_RESPONSE pl = Some pl1" "lst_ok s pl1"
      "peer_frame PB (reply m) f'" "pl_received pl1 = pl_received pl"
      "pl_ring pl1 = pl_ring pl @ [(Op_send s f', make_request_data s (cl_num CL_READ_RESPONSE))]"
    using cl_p2p_send_STATUS_ok [OF assms(2,3,7), of "reply m" CL_READ_RESPONSE] by blast
  then show ?thesis
    using assms(5,8) lst_status_frame [OF assms(1,4,6) m, of E] by (auto simp: lst_ok_def)
qed

lemma lst_stores:
  assumes "freed_readable PB" "block_frame PB b f" "pl_buffer pl = store_frame f buf" "lst_ok s pl" "pl_received pl = []"
    and "process_response PB E (of_nat (length f)) pl = Some pl'"
  shows "lst_ok s pl' \<and> pl_ring pl' = pl_ring pl \<and>
    (\<exists>b' out. pl_received pl' = [(b', out)] \<and> same_block b b' \<and> block_wf b')"
  using lst_block_frame [OF assms(1-3), of E] assms(4-6) by (auto simp: lst_ok_def)

section \<open>The simulation relation\<close>

abbreviation acc :: sqe where
  "acc \<equiv> (Op_accept, make_request_data 0 (p2p_num P2P_FLAG_ACCEPT))"

abbreviation S_send :: "u32 \<Rightarrow> bytes \<Rightarrow> STATE_P2P \<Rightarrow> sqe" where
  "S_send fd f st \<equiv> (Op_send fd f, make_request_data fd (p2p_num st))"

abbreviation S_recv :: "u32 \<Rightarrow> sqe" where
  "S_recv fd \<equiv> (Op_recv fd, make_request_data fd (p2p_num FLAG_TEST_RESPONSE))"

abbreviation L_send :: "u32 \<Rightarrow> bytes \<Rightarrow> sqe" where
  "L_send s f \<equiv> (Op_send s f, make_request_data s (cl_num CL_READ_RESPONSE))"

abbreviation L_recv :: "u32 \<Rightarrow> sqe" where
  "L_recv s \<equiv> (Op_recv s, make_request_data s (cl_num PROCESS_RESPONSE))"

text \<open>What is pending on either side and in flight in each phase.\<close>

fun conv_shape :: "protobuf \<Rightarrow> block_t \<Rightarrow> u32 \<Rightarrow> u32 \<Rightarrow> conv \<Rightarrow>
    sqe list \<Rightarrow> sqe list \<Rightarrow> bytes list \<Rightarrow> bytes list \<Rightarrow> bool" where
  "conv_shape PB b fd s Unconnected sr lr tol tos \<longleftrightarrow> sr = [] \<and> lr = [L_recv s] \<and> tol = [] \<and> tos = []"
| "conv_shape PB b fd s (S_sends m) sr lr tol tos \<longleftrightarrow> lr = [L_recv s] \<and> tol = [] \<and> tos = [] \<and>
     (\<exists>f. if m = P2P__IPC_MESSAGE__STATUS__BLOCK then sr = [S_send fd f FLAG_BLOCK_SENDED] \<and> block_frame PB b f
       else (sr = [S_send fd f FLAG_WAIT_PONG] \<or> sr = [S_send fd f FLAG_READ_RESPONSE]) \<and> peer_frame PB m f)"
| "conv_shape PB b fd s (S_sent m) sr lr tol tos \<longleftrightarrow> sr = [S_recv fd] \<and> lr = [L_recv s] \<and> tos = [] \<and>
     (\<exists>f. tol = [f] \<and> peer_frame PB m f)"
| "conv_shape PB b fd s (L_sends m) sr lr tol tos \<longleftrightarrow> sr = [S_recv fd] \<and> tol = [] \<and> tos = [] \<and>
     (\<exists>f. lr = [L_send s f] \<and> peer_frame PB m f)"
| "conv_shape PB b fd s (L_sent m) sr lr tol tos \<longleftrightarrow> sr = [S_recv fd] \<and> lr = [L_recv s] \<and> tol = [] \<and>
     (\<exists>f. tos = [f] \<and> peer_frame PB m f)"
| "conv_shape PB b fd s (Finishing g) sr lr tol tos \<longleftrightarrow> tos = [] \<and>
     (\<exists>f f'. sr = [S_send fd f' FLAG_WAIT_PONG] \<and> block_frame PB b f \<and>
       peer_frame PB P2P__IPC_MESSAGE__STATUS__FINISH f' \<and>
       (if g then lr = [] \<and> tol = [] else lr = [L_recv s] \<and> tol = [f]))"
| "conv_shape PB b fd s (Finished g) sr lr tol tos \<longleftrightarrow> sr = [S_recv fd] \<and> tos = [] \<and>
     (\<exists>f f'. block_frame PB b f \<and> peer_frame PB P2P__IPC_MESSAGE__STATUS__FINISH f' \<and>
       (if g then lr = [] \<and> tol = [f'] else lr = [L_recv s] \<and> tol = [f, f']))"

text \<open>What holds in every phase.\<close>

definition peers_base :: "protobuf \<Rightarrow> block_t \<Rightarrow> u32 \<Rightarrow> bool \<Rightarrow> peers \<Rightarrow> bool" where
  "peers_base PB b s r p \<longleftrightarrow> (r \<longleftrightarrow> \<not> sh_block_created_mtx (pe_sh p)) \<and> (r \<longrightarrow> holds_block PB b (pe_sh p)) \<and>
     \<not> sh_kill_thread_p2p (pe_sh p) \<and> srv_ok (pe_srv p) \<and> lst_ok s (pe_lst p)"

text \<open>The asking node has stored the block once, or nothing.\<close>

definition stored :: "block_t \<Rightarrow> bool \<Rightarrow> p2p_listener \<Rightarrow> bool" where
  "stored b g pl \<longleftrightarrow> (if g then \<exists>b' out. pl_received pl = [(b', out)] \<and> same_block b b' \<and> block_wf b'
     else pl_received pl = [])"

text \<open>Two accepts are always pending, and the unprepared entry of the asking ring until it completes.\<close>

definition rings :: "bool \<Rightarrow> sqe list \<Rightarrow> sqe list \<Rightarrow> peers \<Rightarrow> bool" where
  "rings n sr lr p \<longleftrightarrow> ps_ring (pe_srv p) = [acc, acc] @ sr \<and>
     pl_ring (pe_lst p) = (if n then [(Op_unprepared, 0)] else []) @ lr"

definition peers_rel :: "protobuf \<Rightarrow> block_t \<Rightarrow> u32 \<Rightarrow> u32 \<Rightarrow> bool \<Rightarrow> bool \<times> conv \<Rightarrow> peers \<Rightarrow> bool" where
  "peers_rel PB b fd s n rc p \<longleftrightarrow> conv_ok (snd rc) \<and> (block_phase (snd rc) \<longrightarrow> fst rc) \<and> peers_base PB b s (fst rc) p \<and>
     (ps_current_fd (pe_srv p) = - 1 \<longleftrightarrow> snd rc = Unconnected) \<and> stored b (delivered (snd rc)) (pe_lst p) \<and>
     (\<exists>sr lr. rings n sr lr p \<and> conv_shape PB b fd s (snd rc) sr lr (pe_to_lst p) (pe_to_srv p))"

definition peer_ok :: "protobuf \<Rightarrow> env \<Rightarrow> env \<Rightarrow> u32 \<Rightarrow> u32 \<Rightarrow> bool" where
  "peer_ok PB E E' fd s \<longleftrightarrow> protobuf_ok PB \<and> freed_readable PB \<and> clock_ok E \<and> clock_ok E' \<and> unat fd < 100 \<and> \<not> bit s 31"

lemma peers_relE:
  assumes "peers_rel PB b fd s n (r, c) p"
  obtains sr lr where "conv_ok c" "block_phase c \<longrightarrow> r" "peers_base PB b s r p"
    "ps_current_fd (pe_srv p) = - 1 \<longleftrightarrow> c = Unconnected" "stored b (delivered c) (pe_lst p)"
    "rings n sr lr p" "conv_shape PB b fd s c sr lr (pe_to_lst p) (pe_to_srv p)"
  using assms unfolding peers_rel_def by auto

lemma peers_relI:
  assumes "conv_ok c" "block_phase c \<Longrightarrow> r" "peers_base PB b s r p"
    "ps_current_fd (pe_srv p) = - 1 \<longleftrightarrow> c = Unconnected" "stored b (delivered c) (pe_lst p)"
    "rings n sr lr p" "conv_shape PB b fd s c sr lr (pe_to_lst p) (pe_to_srv p)"
  shows "peers_rel PB b fd s n (r, c) p"
  using assms unfolding peers_rel_def by auto

lemma sim_accept:
  assumes "peer_ok PB E E' fd s" "peers_rel PB b fd s n (r, c) p"
    and "(Op_accept, d) \<in> set (ps_ring (pe_srv p))" "ps_current_fd (pe_srv p) = - 1"
    and "srv_complete PB E (pe_sh p) Op_accept d fd (pe_srv p) = Some ps'"
  shows "c = Unconnected \<and> peers_rel PB b fd s n (r, S_sends P2P__IPC_MESSAGE__STATUS__PING) (p\<lparr>pe_srv := ps'\<rparr>)"
proof -
  obtain sr lr where R: "peers_base PB b s r p" "ps_current_fd (pe_srv p) = - 1 \<longleftrightarrow> c = Unconnected"
      "stored b (delivered c) (pe_lst p)" "rings n sr lr p" "conv_shape PB b fd s c sr lr (pe_to_lst p) (pe_to_srv p)"
    using assms(2) by (rule peers_relE)
  have c: "c = Unconnected" "sr = []" using R(2,5) assms(4) by auto
  have d: "(Op_accept, d) = acc" using assms(3) R(4) c(2) by (auto simp: rings_def)
  note ok = assms(1) [unfolded peer_ok_def] and base = R(1) [unfolded peers_base_def]
  have fd: "fd \<noteq> - 1" using ok fd_nonneg [of fd] by auto
  let ?ps = "(p2p_add_accept_request (polled (pe_sh p) ((pe_srv p)\<lparr>ps_ring := [acc]\<rparr>)))\<lparr>ps_current_fd := fd\<rparr>"
  have "srv_ok ?ps" using base by (simp add: srv_ok_def polled_def p2p_add_accept_request_def p2p_submit_def)
  with ok obtain f where f: "srv_ok ps'" "peer_frame PB P2P__IPC_MESSAGE__STATUS__PING f"
      "ps_ring ps' = ps_ring ?ps @ [S_send fd f FLAG_WAIT_PONG]" "ps_current_fd ps' = fd"
    using P2Pser_send_STATUS_ok [of PB E ?ps fd P2P__IPC_MESSAGE__STATUS__PING FLAG_WAIT_PONG] assms(5) base R(4) c
      srv_dispatch(5) [of fd "pe_sh p" PB E] d
    by (auto simp: srv_complete_def rings_def)
  have "peers_rel PB b fd s n (r, S_sends P2P__IPC_MESSAGE__STATUS__PING) (p\<lparr>pe_srv := ps'\<rparr>)"
    by (rule peers_relI [where sr = "[S_send fd f FLAG_WAIT_PONG]" and lr = lr])
      (use R c f fd base in \<open>auto simp: peers_base_def rings_def polled_def p2p_add_accept_request_def p2p_submit_def\<close>)
  then show ?thesis using c by simp
qed

text \<open>A completed send of the serving thread.\<close>

lemma srv_sent_status:
  assumes "peer_ok PB E E' fd s" "peers_base PB b s r p" "st = FLAG_WAIT_PONG \<or> st = FLAG_READ_RESPONSE"
    and "ps_ring (pe_srv p) = [acc, acc, S_send fd f st]"
    and "srv_complete PB E (pe_sh p) (Op_send fd f) (make_request_data fd (p2p_num st)) res (pe_srv p) = Some ps'"
  shows "srv_ok ps' \<and> ps_ring ps' = [acc, acc, S_recv fd] \<and> ps_current_fd ps' = ps_current_fd (pe_srv p)"
proof -
  note ok = assms(1) [unfolded peer_ok_def] and base = assms(2) [unfolded peers_base_def]
  let ?ps = "polled (pe_sh p) ((pe_srv p)\<lparr>ps_ring := [acc, acc]\<rparr>)"
  have "srv_ok ?ps" using base by (simp add: srv_ok_def polled_def)
  moreover have "srv_complete PB E (pe_sh p) (Op_send fd f) (make_request_data fd (p2p_num st)) res (pe_srv p) =
      P2P_read_status_response fd ?ps"
    using srv_dispatch(1,2) [of fd "pe_sh p" PB E] ok base assms(3,4) by (auto simp: srv_complete_def)
  ultimately show ?thesis
    using P2P_read_status_response_ok [of ?ps fd] ok assms(5) by (auto simp: polled_def)
qed

lemma srv_sent_block:
  assumes "peer_ok PB E E' fd s" "peers_base PB b s r p" "ps_ring (pe_srv p) = [acc, acc, S_send fd f FLAG_BLOCK_SENDED]"
    and "srv_complete PB E (pe_sh p) (Op_send fd f) (make_request_data fd (p2p_num FLAG_BLOCK_SENDED)) res (pe_srv p) = Some ps'"
  shows "\<exists>f'. srv_ok ps' \<and> peer_frame PB P2P__IPC_MESSAGE__STATUS__FINISH f' \<and>
    ps_ring ps' = [acc, acc, S_send fd f' FLAG_WAIT_PONG] \<and> ps_current_fd ps' = ps_current_fd (pe_srv p)"
proof -
  note ok = assms(1) [unfolded peer_ok_def] and base = assms(2) [unfolded peers_base_def]
  let ?ps = "polled (pe_sh p) ((pe_srv p)\<lparr>ps_ring := [acc, acc]\<rparr>)"
  have "srv_ok ?ps" using base by (simp add: srv_ok_def polled_def)
  moreover have "srv_complete PB E (pe_sh p) (Op_send fd f) (make_request_data fd (p2p_num FLAG_BLOCK_SENDED)) res (pe_srv p) =
      P2Pser_send_STATUS PB E fd P2P__IPC_MESSAGE__STATUS__FINISH FLAG_WAIT_PONG ?ps"
    using srv_dispatch(3) [of fd "pe_sh p" PB E] ok base assms(3) by (simp add: srv_complete_def)
  ultimately show ?thesis
    using P2Pser_send_STATUS_ok [of PB E ?ps fd P2P__IPC_MESSAGE__STATUS__FINISH FLAG_WAIT_PONG] ok assms(4)
    by (auto simp: polled_def)
qed

lemma sim_srv_sent_status:
  assumes "peer_ok PB E E' fd s" "peers_rel PB b fd s n (r, S_sends m) p" "m \<noteq> P2P__IPC_MESSAGE__STATUS__BLOCK"
    and "(Op_send fd f, d) \<in> set (ps_ring (pe_srv p))"
    and "srv_complete PB E (pe_sh p) (Op_send fd f) d (of_nat (length f)) (pe_srv p) = Some ps'"
  shows "peers_rel PB b fd s n (r, S_sent m) (p\<lparr>pe_srv := ps', pe_to_lst := pe_to_lst p @ [f]\<rparr>)"
proof -
  obtain sr lr where R: "conv_ok (S_sends m)" "block_phase (S_sends m) \<longrightarrow> r" "peers_base PB b s r p"
      "ps_current_fd (pe_srv p) = - 1 \<longleftrightarrow> S_sends m = Unconnected" "stored b (delivered (S_sends m)) (pe_lst p)" "rings n sr lr p"
      "conv_shape PB b fd s (S_sends m) sr lr (pe_to_lst p) (pe_to_srv p)"
    using assms(2) by (rule peers_relE)
  have mem: "(Op_send fd f, d) \<in> set sr" using assms(4) R(6) by (auto simp: rings_def)
  then obtain st where sr: "st = FLAG_WAIT_PONG \<or> st = FLAG_READ_RESPONSE" "sr = [S_send fd f st]"
      "d = make_request_data fd (p2p_num st)" "peer_frame PB m f" "pe_to_lst p = []" "pe_to_srv p = []" "lr = [L_recv s]"
    using R(7) assms(3) by (auto simp del: p2p_num.simps) blast+
  then have "ps_ring (pe_srv p) = [acc, acc, S_send fd f st]" using R(6) by (simp add: rings_def)
  from srv_sent_status [OF assms(1) R(3) sr(1) this] assms(5) sr(3)
  have f': "srv_ok ps'" "ps_ring ps' = [acc, acc, S_recv fd]" "ps_current_fd ps' = ps_current_fd (pe_srv p)" by blast+
  show ?thesis
    by (rule peers_relI [where sr = "[S_recv fd]" and lr = lr])
      (use R f' sr assms(3) in \<open>auto simp: peers_base_def rings_def\<close>)
qed

lemma sim_srv_sent_block:
  assumes "peer_ok PB E E' fd s" "peers_rel PB b fd s n (r, S_sends P2P__IPC_MESSAGE__STATUS__BLOCK) p"
    and "(Op_send fd f, d) \<in> set (ps_ring (pe_srv p))"
    and "srv_complete PB E (pe_sh p) (Op_send fd f) d (of_nat (length f)) (pe_srv p) = Some ps'"
  shows "peers_rel PB b fd s n (r, Finishing False) (p\<lparr>pe_srv := ps', pe_to_lst := pe_to_lst p @ [f]\<rparr>)"
proof -
  let ?c = "S_sends P2P__IPC_MESSAGE__STATUS__BLOCK"
  obtain sr lr where R: "conv_ok ?c" "block_phase ?c \<longrightarrow> r" "peers_base PB b s r p"
      "ps_current_fd (pe_srv p) = - 1 \<longleftrightarrow> ?c = Unconnected" "stored b (delivered ?c) (pe_lst p)" "rings n sr lr p"
      "conv_shape PB b fd s ?c sr lr (pe_to_lst p) (pe_to_srv p)"
    using assms(2) by (rule peers_relE)
  have mem: "(Op_send fd f, d) \<in> set sr" using assms(3) R(6) by (auto simp: rings_def)
  then have sr: "sr = [S_send fd f FLAG_BLOCK_SENDED]" "d = make_request_data fd (p2p_num FLAG_BLOCK_SENDED)"
      "block_frame PB b f" "pe_to_lst p = []" "pe_to_srv p = []" "lr = [L_recv s]"
    using R(7) by auto
  then have "ps_ring (pe_srv p) = [acc, acc, S_send fd f FLAG_BLOCK_SENDED]" using R(6) by (simp add: rings_def)
  from srv_sent_block [OF assms(1) R(3) this] assms(4) sr(2) obtain f' where
    f': "srv_ok ps'" "peer_frame PB P2P__IPC_MESSAGE__STATUS__FINISH f'"
      "ps_ring ps' = [acc, acc, S_send fd f' FLAG_WAIT_PONG]" "ps_current_fd ps' = ps_current_fd (pe_srv p)"
    by blast
  show ?thesis
    by (rule peers_relI [where sr = "[S_send fd f' FLAG_WAIT_PONG]" and lr = lr])
      (use R f' sr in \<open>auto simp: peers_base_def rings_def\<close>)
qed

lemma sim_srv_sent_finish:
  assumes "peer_ok PB E E' fd s" "peers_rel PB b fd s n (r, Finishing g) p"
    and "(Op_send fd f, d) \<in> set (ps_ring (pe_srv p))"
    and "srv_complete PB E (pe_sh p) (Op_send fd f) d (of_nat (length f)) (pe_srv p) = Some ps'"
  shows "peers_rel PB b fd s n (r, Finished g) (p\<lparr>pe_srv := ps', pe_to_lst := pe_to_lst p @ [f]\<rparr>)"
proof -
  obtain sr lr where R: "conv_ok (Finishing g)" "block_phase (Finishing g) \<longrightarrow> r" "peers_base PB b s r p"
      "ps_current_fd (pe_srv p) = - 1 \<longleftrightarrow> Finishing g = Unconnected" "stored b (delivered (Finishing g)) (pe_lst p)" "rings n sr lr p"
      "conv_shape PB b fd s (Finishing g) sr lr (pe_to_lst p) (pe_to_srv p)"
    using assms(2) by (rule peers_relE)
  have mem: "(Op_send fd f, d) \<in> set sr" using assms(3) R(6) by (auto simp: rings_def)
  then obtain f0 where sr: "sr = [S_send fd f FLAG_WAIT_PONG]" "d = make_request_data fd (p2p_num FLAG_WAIT_PONG)"
      "block_frame PB b f0" "peer_frame PB P2P__IPC_MESSAGE__STATUS__FINISH f" "if g then lr = [] \<and> pe_to_lst p = [] else lr = [L_recv s] \<and> pe_to_lst p = [f0]" "pe_to_srv p = []"
    using R(7) by auto
  then have "ps_ring (pe_srv p) = [acc, acc, S_send fd f FLAG_WAIT_PONG]" using R(6) by (simp add: rings_def)
  from srv_sent_status [OF assms(1) R(3) _ this] assms(4) sr(2)
  have f': "srv_ok ps'" "ps_ring ps' = [acc, acc, S_recv fd]" "ps_current_fd ps' = ps_current_fd (pe_srv p)" by blast+
  show ?thesis
    by (rule peers_relI [where sr = "[S_recv fd]" and lr = lr])
      (use R f' sr in \<open>auto simp: peers_base_def rings_def split: if_splits\<close>)
qed

lemma sim_srv_sent:
  assumes "peer_ok PB E E' fd s" "peers_rel PB b fd s n (r, c) p"
    and "(Op_send fd f, d) \<in> set (ps_ring (pe_srv p))"
    and "srv_complete PB E (pe_sh p) (Op_send fd f) d (of_nat (length f)) (pe_srv p) = Some ps'"
  shows "\<exists>c'. conv_step (r, c) (r, c') \<and> peers_rel PB b fd s n (r, c') (p\<lparr>pe_srv := ps', pe_to_lst := pe_to_lst p @ [f]\<rparr>)"
proof (cases c)
  case (S_sends m)
  then show ?thesis
    using sim_srv_sent_status [OF assms(1) _ _ assms(3,4)] sim_srv_sent_block [OF assms(1) _ assms(3,4)] assms(2)
      conv_step.send_block conv_step.transmit by (cases "m = P2P__IPC_MESSAGE__STATUS__BLOCK") blast+
next
  case (Finishing g)
  then show ?thesis using sim_srv_sent_finish [OF assms(1) _ assms(3,4)] assms(2) conv_step.finish by blast
qed (use assms(2,3) in \<open>auto elim!: peers_relE simp: rings_def\<close>)

text \<open>A completed receive of the serving thread.\<close>

lemma srv_answers:
  assumes "peer_ok PB E E' fd s" "carries PB m f" "conv_ok (L_sent m)" "srv_ok ps" "r \<longrightarrow> holds_block PB b sh"
    and "ps_buffers ps ! unat fd = store_frame f buf" "ps_block_ready ps = r"
    and "p2p_test_response PB E sh \<lparr>cq_res = of_nat (length f), cq_user_data = make_request_data fd tag\<rparr> ps = Some ps'"
  shows "\<exists>m' e. srv_ok ps' \<and> ps_current_fd ps' = ps_current_fd ps \<and> ps_ring ps' = ps_ring ps @ [e] \<and>
    conv_step (r, L_sent m) (r, S_sends m') \<and> conv_ok (S_sends m') \<and> (block_phase (S_sends m') \<longrightarrow> r) \<and>
    conv_shape PB b fd s (S_sends m') [e] [L_recv s] [] []"
proof -
  note ok = assms(1) [unfolded peer_ok_def] and answer = srv_test_frame [OF _ assms(2) _ assms(6), of E sh tag]
  have status: "\<exists>f'. srv_ok ps' \<and> peer_frame PB m' f' \<and> ps_ring ps' = ps_ring ps @ [S_send fd f' FLAG_READ_RESPONSE] \<and>
      ps_current_fd ps' = ps_current_fd ps"
    if "P2Pser_send_STATUS PB E fd m' FLAG_READ_RESPONSE ps = Some ps'" for m'
    using P2Pser_send_STATUS_ok [of PB E ps fd m' FLAG_READ_RESPONSE] ok assms(4) that by auto
  consider "m = P2P__IPC_MESSAGE__STATUS__PONG" | "m = P2P__IPC_MESSAGE__STATUS__ASK_IF_BLOCK_READY" "r"
    | "m = P2P__IPC_MESSAGE__STATUS__ASK_IF_BLOCK_READY" "\<not> r" using assms(3) by auto
  then show ?thesis
  proof cases
    case 1
    with answer ok assms(8) status [of P2P__IPC_MESSAGE__STATUS__OK] show ?thesis
      by (intro exI [of _ P2P__IPC_MESSAGE__STATUS__OK]) (auto intro: conv_step.pong)
  next
    case 2
    with P2Pser_send_block_ok [of ps fd PB b sh] answer ok assms(4,5,7,8) show ?thesis
      by (intro exI [of _ P2P__IPC_MESSAGE__STATUS__BLOCK]) (auto intro: conv_step.ready)
  next
    case 3
    with answer ok assms(7,8) status [of P2P__IPC_MESSAGE__STATUS__BLOCK_NOT_READY] show ?thesis
      by (intro exI [of _ P2P__IPC_MESSAGE__STATUS__BLOCK_NOT_READY]) (auto intro: conv_step.not_ready)
  qed
qed

lemma sim_srv_received:
  assumes "peer_ok PB E E' fd s" "peers_rel PB b fd s n (r, c) p"
    and "(Op_recv fd, d) \<in> set (ps_ring (pe_srv p))" "pe_to_srv p = f # fs"
    and "srv_complete PB E (pe_sh p) (Op_recv fd) d (of_nat (length f)) (srv_store fd f (pe_srv p)) = Some ps'"
  shows "\<exists>c'. conv_step (r, c) (r, c') \<and> peers_rel PB b fd s n (r, c') (p\<lparr>pe_srv := ps', pe_to_srv := fs\<rparr>)"
proof -
  obtain sr lr where R: "conv_ok c" "block_phase c \<longrightarrow> r" "peers_base PB b s r p"
      "ps_current_fd (pe_srv p) = - 1 \<longleftrightarrow> c = Unconnected" "stored b (delivered c) (pe_lst p)" "rings n sr lr p"
      "conv_shape PB b fd s c sr lr (pe_to_lst p) (pe_to_srv p)"
    using assms(2) by (rule peers_relE)
  obtain m where c: "c = L_sent m" "peer_frame PB m f" "fs = []" "sr = [S_recv fd]" "lr = [L_recv s]" "pe_to_lst p = []"
    using R(7) assms(4) by (cases c) auto
  have d: "(Op_recv fd, d) = S_recv fd" using assms(3) R(6) c(4) by (auto simp: rings_def)
  note ok = assms(1) [unfolded peer_ok_def] and base = R(3) [unfolded peers_base_def]
  let ?ps = "polled (pe_sh p) ((srv_store fd f (pe_srv p))\<lparr>ps_ring := [acc, acc]\<rparr>)"
  have "srv_ok (srv_store fd f (pe_srv p))"
      "ps_buffers (srv_store fd f (pe_srv p)) ! unat fd = store_frame f (ps_buffers (pe_srv p) ! unat fd)"
    using srv_store_ok [OF _ peer_frame_carries [OF c(2)]] base ok by blast+
  then have ps: "srv_ok ?ps" "ps_buffers ?ps ! unat fd = store_frame f (ps_buffers (pe_srv p) ! unat fd)"
      "ps_block_ready ?ps = r" "ps_current_fd ?ps = ps_current_fd (pe_srv p)" "ps_ring ?ps = [acc, acc]"
    using base by (simp_all add: srv_ok_def polled_def srv_store_def)
  have "remove1 (S_recv fd) (ps_ring (srv_store fd f (pe_srv p))) = [acc, acc]"
    using R(6) c(4) by (simp add: rings_def srv_store_def)
  then have "p2p_test_response PB E (pe_sh p) \<lparr>cq_res = of_nat (length f),
      cq_user_data = make_request_data fd (p2p_num FLAG_TEST_RESPONSE)\<rparr> ?ps = Some ps'"
    using srv_dispatch(4) [of fd "pe_sh p" PB E] ok base assms(5) d by (simp add: srv_complete_def)
  from srv_answers [OF assms(1) peer_frame_carries [OF c(2)] _ ps(1) _ ps(2,3) this, of b] R(1) c(1) base ps(4,5) obtain m' e where
    e: "srv_ok ps'" "ps_current_fd ps' = ps_current_fd (pe_srv p)" "ps_ring ps' = [acc, acc, e]"
      "conv_step (r, L_sent m) (r, S_sends m')" "conv_ok (S_sends m')" "block_phase (S_sends m') \<longrightarrow> r"
      "conv_shape PB b fd s (S_sends m') [e] [L_recv s] [] []" by auto
  have "peers_rel PB b fd s n (r, S_sends m') (p\<lparr>pe_srv := ps', pe_to_srv := fs\<rparr>)"
    by (rule peers_relI [where sr = "[e]" and lr = lr]) (use R e c in \<open>auto simp: peers_base_def rings_def\<close>)
  then show ?thesis using c(1) e(4) by blast
qed

text \<open>Completions of the asking thread.\<close>

lemma sim_lst_noop:
  assumes "peer_ok PB E E' fd s" "peers_rel PB b fd s n (r, c) p"
    and "(Op_unprepared, d) \<in> set (pl_ring (pe_lst p))"
    and "lst_complete PB E' shared_init Op_unprepared d 0 (pe_lst p) = Some pl'"
  shows "n \<and> peers_rel PB b fd s False (r, c) (p\<lparr>pe_lst := pl'\<rparr>)"
proof -
  obtain sr lr where R: "conv_ok c" "block_phase c \<longrightarrow> r" "peers_base PB b s r p"
      "ps_current_fd (pe_srv p) = - 1 \<longleftrightarrow> c = Unconnected" "stored b (delivered c) (pe_lst p)" "rings n sr lr p"
      "conv_shape PB b fd s c sr lr (pe_to_lst p) (pe_to_srv p)"
    using assms(2) by (rule peers_relE)
  have "(Op_unprepared, x) \<notin> set lr" for x using R(7) by (cases c) (auto split: if_splits)
  then have ring: "n" "pl_ring (pe_lst p) = (Op_unprepared, 0) # lr" "d = 0"
    using assms(3) R(6) by (auto simp: rings_def split: if_splits)
  have pl': "pl' = (pe_lst p)\<lparr>pl_ring := lr, pl_cycle := pl_cycle (pe_lst p) + 1\<rparr>"
    using assms(1,4) ring lst_dispatch(3) [of s PB E' 0 "(pe_lst p)\<lparr>pl_ring := lr\<rparr>"]
    by (simp add: lst_complete_def peer_ok_def)
  have "peers_rel PB b fd s False (r, c) (p\<lparr>pe_lst := pl'\<rparr>)"
    by (rule peers_relI [where sr = sr and lr = lr])
      (use R in \<open>auto simp: peers_base_def rings_def pl' lst_ok_def stored_def\<close>)
  then show ?thesis using ring(1) by blast
qed

lemma rings_remove:
  "rings n sr [e] p \<Longrightarrow> e \<noteq> (Op_unprepared, 0) \<Longrightarrow>
     remove1 e (pl_ring (pe_lst p)) = (if n then [(Op_unprepared, 0)] else [])"
  by (auto simp: rings_def)

lemma sim_lst_sent:
  assumes "peer_ok PB E E' fd s" "peers_rel PB b fd s n (r, c) p"
    and "(Op_send s' f, d) \<in> set (pl_ring (pe_lst p))"
    and "lst_complete PB E' shared_init (Op_send s' f) d (of_nat (length f)) (pe_lst p) = Some pl'"
  shows "\<exists>c'. conv_step (r, c) (r, c') \<and> peers_rel PB b fd s n (r, c') (p\<lparr>pe_lst := pl', pe_to_srv := pe_to_srv p @ [f]\<rparr>)"
proof -
  obtain sr lr where R: "conv_ok c" "block_phase c \<longrightarrow> r" "peers_base PB b s r p"
      "ps_current_fd (pe_srv p) = - 1 \<longleftrightarrow> c = Unconnected" "stored b (delivered c) (pe_lst p)" "rings n sr lr p"
      "conv_shape PB b fd s c sr lr (pe_to_lst p) (pe_to_srv p)"
    using assms(2) by (rule peers_relE)
  have mem: "(Op_send s' f, d) \<in> set lr" using assms(3) R(6) by (auto simp: rings_def)
  obtain m where m: "c = L_sends m" using R(7) mem by (cases c) (auto split: if_splits)
  then have c: "c = L_sends m" "peer_frame PB m f" "sr = [S_recv fd]" "lr = [L_send s f]" "s' = s"
      "d = make_request_data s (cl_num CL_READ_RESPONSE)" "pe_to_lst p = []" "pe_to_srv p = []"
    using R(7) mem by auto
  note ok = assms(1) [unfolded peer_ok_def]
  have sock: "pl_sock (pe_lst p) = s" using R(3) by (simp add: peers_base_def lst_ok_def)
  let ?ring = "remove1 (L_send s f) (pl_ring (pe_lst p))"
  have ring: "?ring = (if n then [(Op_unprepared, 0)] else [])" using rings_remove R(6) c(4) by auto
  have pl': "pl' = (pe_lst p)\<lparr>pl_ring := ?ring @ [L_recv s], pl_cycle := pl_cycle (pe_lst p) + 1\<rparr>"
    using assms(4) ok c(5,6) sock lst_dispatch(2) [of s PB E' "of_nat (length f)" "(pe_lst p)\<lparr>pl_ring := ?ring\<rparr>"]
    by (simp add: lst_complete_def)
  have "peers_rel PB b fd s n (r, L_sent m) (p\<lparr>pe_lst := pl', pe_to_srv := pe_to_srv p @ [f]\<rparr>)"
    by (rule peers_relI [where sr = sr and lr = "[L_recv s]"])
      (use R c ring in \<open>auto simp: peers_base_def rings_def pl' lst_ok_def stored_def\<close>)
  then show ?thesis using c(1) conv_step.answer by blast
qed

text \<open>A received frame: a status is answered, the block is stored.\<close>

lemma lst_received_frame:
  assumes "peer_ok PB E E' fd s" "lst_ok s (pe_lst p)" "rings n sr [L_recv s] p" "pl_received (pe_lst p) = []"
    and "lst_complete PB E' shared_init (Op_recv s) (make_request_data s (cl_num PROCESS_RESPONSE)) (of_nat (length f))
      (lst_store f (pe_lst p)) = Some pl'"
  shows "carries PB m f \<Longrightarrow> conv_ok (S_sent m) \<Longrightarrow> \<exists>f'. peer_frame PB (reply m) f' \<and> lst_ok s pl' \<and>
      pl_ring pl' = (if n then [(Op_unprepared, 0)] else []) @ [L_send s f'] \<and> pl_received pl' = []"
    and "block_frame PB b f \<Longrightarrow> lst_ok s pl' \<and> pl_ring pl' = (if n then [(Op_unprepared, 0)] else []) \<and> stored b True pl'"
proof -
  note ok = assms(1) [unfolded peer_ok_def]
  define ring where "ring = remove1 (L_recv s) (pl_ring (pe_lst p))"
  have ring: "ring = (if n then [(Op_unprepared, 0)] else [])" using rings_remove assms(3) by (auto simp: ring_def)
  define pl where "pl = (lst_store f (pe_lst p))\<lparr>pl_ring := ring\<rparr>"
  have "map_option (\<lambda>pl. pl\<lparr>pl_cycle := pl_cycle pl + 1\<rparr>) (process_response PB E' (of_nat (length f)) pl) = Some pl'"
    using assms(5) ok lst_dispatch(1) [of s PB E' "of_nat (length f)" pl]
    by (simp add: lst_complete_def pl_def ring_def lst_store_def)
  then obtain pl1 where proc: "process_response PB E' (of_nat (length f)) pl = Some pl1" "pl' = pl1\<lparr>pl_cycle := pl_cycle pl1 + 1\<rparr>"
    by auto
  have buf: "pl_buffer pl = store_frame f (pl_buffer (pe_lst p))" "pl_ring pl = ring" "pl_received pl = []"
    using assms(4) by (simp_all add: pl_def lst_store_def)
  have lok: "lst_ok s pl" if "carries PB m f" for m
    using lst_store_ok [OF assms(2) that] by (simp add: pl_def lst_ok_def)
  show "\<exists>f'. peer_frame PB (reply m) f' \<and> lst_ok s pl' \<and>
      pl_ring pl' = (if n then [(Op_unprepared, 0)] else []) @ [L_send s f'] \<and> pl_received pl' = []"
    if "carries PB m f" "conv_ok (S_sent m)"
    using lst_replies [OF _ _ _ that buf(1) lok [OF that(1)] proc(1)] ok proc(2) buf ring by (auto simp: lst_ok_def)
  show "lst_ok s pl' \<and> pl_ring pl' = (if n then [(Op_unprepared, 0)] else []) \<and> stored b True pl'" if "block_frame PB b f"
    using lst_stores [OF _ that buf(1) lok [OF block_frame_carries [OF that]] buf(3) proc(1)] ok proc(2) buf(2) ring
    by (auto simp: stored_def lst_ok_def)
qed

lemma sim_lst_received:
  assumes "peer_ok PB E E' fd s" "peers_rel PB b fd s n (r, c) p"
    and "(Op_recv s', d) \<in> set (pl_ring (pe_lst p))" "pe_to_lst p = f # fs"
    and "lst_complete PB E' shared_init (Op_recv s') d (of_nat (length f)) (lst_store f (pe_lst p)) = Some pl'"
  shows "\<exists>c'. conv_step (r, c) (r, c') \<and> peers_rel PB b fd s n (r, c') (p\<lparr>pe_lst := pl', pe_to_lst := fs\<rparr>)"
proof -
  let ?p = "p\<lparr>pe_lst := pl', pe_to_lst := fs\<rparr>"
  obtain sr lr where R: "conv_ok c" "block_phase c \<longrightarrow> r" "peers_base PB b s r p"
      "ps_current_fd (pe_srv p) = - 1 \<longleftrightarrow> c = Unconnected" "stored b (delivered c) (pe_lst p)" "rings n sr lr p"
      "conv_shape PB b fd s c sr lr (pe_to_lst p) (pe_to_srv p)"
    using assms(2) by (rule peers_relE)
  have mem: "(Op_recv s', d) \<in> set lr" using assms(3) R(6) by (auto simp: rings_def)
  have lr: "lr = [L_recv s]" "s' = s" "d = make_request_data s (cl_num PROCESS_RESPONSE)" "\<not> delivered c"
    using R(7) mem assms(4) by (cases c; auto split: if_splits)+
  have "lst_ok s (pe_lst p)" "pl_received (pe_lst p) = []" using R(3,5) lr(4) by (simp_all add: peers_base_def stored_def)
  note got = lst_received_frame [OF assms(1) this(1) R(6) [unfolded lr(1)] this(2) assms(5) [unfolded lr(2,3)]]
  show ?thesis
  proof (cases c)
    case (S_sent m)
    have f: "peer_frame PB m f" "fs = []" "sr = [S_recv fd]" "pe_to_srv p = []" "conv_ok (S_sent m)"
      using R(1,7) S_sent assms(4) by auto
    obtain f' where "peer_frame PB (reply m) f'" "lst_ok s pl'" "pl_received pl' = []"
        "pl_ring pl' = (if n then [(Op_unprepared, 0)] else []) @ [L_send s f']"
      using got(1) [OF peer_frame_carries [OF f(1)] f(5)] by blast
    then have "peers_rel PB b fd s n (r, L_sends (reply m)) ?p"
      by (intro peers_relI [where sr = sr and lr = "[L_send s f']"])
        (use R f conv_step_reply [OF f(5)] S_sent in \<open>auto simp: peers_base_def rings_def stored_def\<close>)
    then show ?thesis using S_sent conv_step_reply [OF f(5)] by blast
  next
    case (Finishing g)
    then obtain f' where f: "g = False" "block_frame PB b f" "fs = []" "sr = [S_send fd f' FLAG_WAIT_PONG]"
        "peer_frame PB P2P__IPC_MESSAGE__STATUS__FINISH f'" "pe_to_srv p = []"
      using R(7) assms(4) by (auto split: if_splits)
    have "peers_rel PB b fd s n (r, Finishing True) ?p"
      by (rule peers_relI [where sr = sr and lr = "[]"])
        (use R f Finishing got(2) [OF f(2)] in \<open>auto simp: peers_base_def rings_def\<close>)
    then show ?thesis using Finishing f(1) conv_step.got_block by blast
  next
    case (Finished g)
    then obtain f' where f: "g = False" "block_frame PB b f" "fs = [f']" "sr = [S_recv fd]"
        "peer_frame PB P2P__IPC_MESSAGE__STATUS__FINISH f'" "pe_to_srv p = []"
      using R(7) assms(4) lr(1) by (auto split: if_splits)
    have "peers_rel PB b fd s n (r, Finished True) ?p"
      by (rule peers_relI [where sr = sr and lr = "[]"])
        (use R f Finished got(2) [OF f(2)] in \<open>auto simp: peers_base_def rings_def\<close>)
    then show ?thesis using Finished f(1) conv_step.got_block_late by blast
  qed (use R(7) assms(4) in auto)
qed

section \<open>Refinement\<close>

lemma peer_step_sim:
  assumes "peer_ok PB E E' fd s" "peer_step PB E E' b fd p p'" "peers_rel PB b fd s n rc p"
  shows "(n \<and> peers_rel PB b fd s False rc p') \<or> (\<exists>rc'. conv_step rc rc' \<and> peers_rel PB b fd s n rc' p')"
proof -
  obtain r c where rc: "rc = (r, c)" by (cases rc)
  note rel = assms(3) [unfolded rc]
  from assms(2) have "(n \<and> peers_rel PB b fd s False (r, c) p') \<or>
      (\<exists>rc'. conv_step (r, c) rc' \<and> peers_rel PB b fd s n rc' p')"
  proof cases
    case (accept d ps')
    then show ?thesis using sim_accept [OF assms(1) rel] conv_step.connect by blast
  next
    case (srv_sent f d ps')
    then show ?thesis using sim_srv_sent [OF assms(1) rel] by blast
  next
    case (srv_received d f fs ps')
    then show ?thesis using sim_srv_received [OF assms(1) rel] by blast
  next
    case (lst_noop d pl')
    then show ?thesis using sim_lst_noop [OF assms(1) rel] by blast
  next
    case (lst_sent s' f d pl')
    then show ?thesis using sim_lst_sent [OF assms(1) rel] by blast
  next
    case (lst_received s' d f fs pl')
    then show ?thesis using sim_lst_received [OF assms(1) rel] by blast
  next
    case (block_made sh')
    then have "\<not> r" using rel by (auto simp: peers_rel_def peers_base_def)
    moreover have "peers_rel PB b fd s n (True, c) p'"
      using rel block_made by (auto simp: peers_rel_def peers_base_def rings_def)
    ultimately show ?thesis using conv_step.publish by auto
  qed
  then show ?thesis by (simp add: rc)
qed

interpretation peer_sim: stutter_simulation conv_step "\<lambda>p p'. peer_ok PB E E' fd s \<and> peer_step PB E E' b fd p p'"
  "\<lambda>rc p. \<exists>n. peers_rel PB b fd s n rc p" for PB E E' fd s b
  by unfold_locales (use peer_step_sim in blast)

definition peers_init :: "env \<Rightarrow> u32 \<Rightarrow> shared \<Rightarrow> heap \<Rightarrow> heap \<Rightarrow> peers" where
  "peers_init E s sh h h' = \<lparr>pe_srv = event_loop_p2p_start (p2p_setup_buffers E h), pe_lst = setup_p2p_listening s h',
     pe_sh = sh, pe_to_lst = [], pe_to_srv = []\<rparr>"

lemma peers_init_rel:
  assumes "sh_block_created_mtx sh" "\<not> sh_kill_thread_p2p sh"
  shows "peers_rel PB b fd s True (False, Unconnected) (peers_init E s sh h h')"
proof (rule peers_relI [where sr = "[]" and lr = "[L_recv s]"])
  show "peers_base PB b s False (peers_init E s sh h h')"
    using assms by (simp add: peers_base_def peers_init_def srv_ok_def lst_ok_def event_loop_p2p_start_def
        p2p_setup_buffers_def p2p_add_accept_request_def p2p_submit_def setup_p2p_listening_def)
  show "rings True [] [L_recv s] (peers_init E s sh h h')"
    by (simp add: rings_def peers_init_def event_loop_p2p_start_def p2p_setup_buffers_def p2p_add_accept_request_def
        p2p_submit_def setup_p2p_listening_def)
qed (simp_all add: peers_init_def stored_def event_loop_p2p_start_def p2p_setup_buffers_def p2p_add_accept_request_def
    p2p_submit_def setup_p2p_listening_def)


section \<open>No step faults\<close>

lemma srv_accept_total:
  assumes "peer_ok PB E E' fd s" "peers_base PB b s r p"
  shows "\<exists>ps'. srv_complete PB E (pe_sh p) Op_accept (make_request_data 0 (p2p_num P2P_FLAG_ACCEPT)) fd (pe_srv p) = Some ps'"
proof -
  note ok = assms(1) [unfolded peer_ok_def] and base = assms(2) [unfolded peers_base_def]
  let ?ps = "(p2p_add_accept_request (polled (pe_sh p) ((pe_srv p)\<lparr>ps_ring := remove1 acc (ps_ring (pe_srv p))\<rparr>)))\<lparr>ps_current_fd := fd\<rparr>"
  have "srv_ok ?ps" using base by (simp add: srv_ok_def polled_def p2p_add_accept_request_def p2p_submit_def)
  then show ?thesis
    using P2Pser_send_STATUS_ok [of PB E ?ps fd P2P__IPC_MESSAGE__STATUS__PING FLAG_WAIT_PONG] ok base
      srv_dispatch(5) [of fd "pe_sh p" PB E "(pe_srv p)\<lparr>ps_ring := remove1 acc (ps_ring (pe_srv p))\<rparr>"]
    by (auto simp: srv_complete_def)
qed

lemma srv_sent_total:
  assumes "peer_ok PB E E' fd s" "peers_base PB b s r p" "st \<in> {FLAG_WAIT_PONG, FLAG_READ_RESPONSE, FLAG_BLOCK_SENDED}"
  shows "\<exists>ps'. srv_complete PB E (pe_sh p) (Op_send fd f) (make_request_data fd (p2p_num st)) res (pe_srv p) = Some ps'"
proof -
  note ok = assms(1) [unfolded peer_ok_def] and base = assms(2) [unfolded peers_base_def]
  let ?ps = "(pe_srv p)\<lparr>ps_ring := remove1 (S_send fd f st) (ps_ring (pe_srv p))\<rparr>"
  have "srv_ok (polled (pe_sh p) ?ps)" using base by (simp add: srv_ok_def polled_def)
  then show ?thesis
    using P2Pser_send_STATUS_ok [of PB E "polled (pe_sh p) ?ps" fd P2P__IPC_MESSAGE__STATUS__FINISH FLAG_WAIT_PONG]
      P2P_read_status_response_ok [of "polled (pe_sh p) ?ps" fd] ok base assms(3)
      srv_dispatch(1-3) [of fd "pe_sh p" PB E res ?ps]
    by (auto simp: srv_complete_def)
qed

lemma srv_received_total:
  assumes "peer_ok PB E E' fd s" "peers_base PB b s r p" "carries PB m f"
  shows "\<exists>ps'. srv_complete PB E (pe_sh p) (Op_recv fd) (make_request_data fd (p2p_num FLAG_TEST_RESPONSE)) (of_nat (length f))
    (srv_store fd f (pe_srv p)) = Some ps'"
proof -
  note ok = assms(1) [unfolded peer_ok_def] and base = assms(2) [unfolded peers_base_def]
  let ?ps = "(srv_store fd f (pe_srv p))\<lparr>ps_ring := remove1 (S_recv fd) (ps_ring (srv_store fd f (pe_srv p)))\<rparr>"
  have "srv_ok (srv_store fd f (pe_srv p))"
      "ps_buffers (srv_store fd f (pe_srv p)) ! unat fd = store_frame f (ps_buffers (pe_srv p) ! unat fd)"
    using srv_store_ok [OF _ assms(3)] base ok by blast+
  then have ps: "srv_ok (polled (pe_sh p) ?ps)"
      "ps_buffers (polled (pe_sh p) ?ps) ! unat fd = store_frame f (ps_buffers (pe_srv p) ! unat fd)"
    by (simp_all add: srv_ok_def polled_def)
  have r: "ps_block_ready (polled (pe_sh p) ?ps) \<longleftrightarrow> r" using base by (simp add: polled_def)
  have fr: "freed_readable PB" "unat fd < 100" using ok by simp_all
  note send = P2Pser_send_STATUS_ok [of PB E "polled (pe_sh p) ?ps" fd]
  have "\<exists>ps'. p2p_test_response PB E (pe_sh p) \<lparr>cq_res = of_nat (length f),
      cq_user_data = make_request_data fd (p2p_num FLAG_TEST_RESPONSE)\<rparr> (polled (pe_sh p) ?ps) = Some ps'"
    unfolding srv_test_frame [OF fr(1) assms(3) fr(2) ps(2)]
    using send P2Pser_send_block_ok [OF ps(1), of fd PB b "pe_sh p"] ok base ps(1) r by auto
  then show ?thesis
    using srv_dispatch(4) [of fd "pe_sh p" PB E "of_nat (length f)" ?ps] ok base by (simp add: srv_complete_def)
qed

lemma lst_received_total:
  assumes "peer_ok PB E E' fd s" "lst_ok s pl" "block_frame PB b f \<or> (carries PB m f \<and> m \<noteq> P2P__IPC_MESSAGE__STATUS__BLOCK)"
  shows "\<exists>pl'. lst_complete PB E' shared_init (Op_recv s) (make_request_data s (cl_num PROCESS_RESPONSE)) (of_nat (length f))
    (lst_store f pl) = Some pl'"
proof -
  note ok = assms(1) [unfolded peer_ok_def]
  let ?pl = "(lst_store f pl)\<lparr>pl_ring := remove1 (L_recv s) (pl_ring (lst_store f pl))\<rparr>"
  have buf: "pl_buffer ?pl = store_frame f (pl_buffer pl)" by (simp add: lst_store_def)
  have "\<exists>pl'. process_response PB E' (of_nat (length f)) ?pl = Some pl'"
    using assms(3)
  proof
    assume "block_frame PB b f"
    then show ?thesis using lst_block_frame [OF _ _ buf, of PB b E'] ok by blast
  next
    assume m: "carries PB m f \<and> m \<noteq> P2P__IPC_MESSAGE__STATUS__BLOCK"
    have "lst_ok s ?pl" using lst_store_ok [OF assms(2)] m by (auto simp: lst_ok_def)
    then show ?thesis
      using cl_p2p_send_STATUS_ok [of PB E' s ?pl] ok m lst_status_frame [OF _ _ buf, of PB m E'] by fastforce
  qed
  then show ?thesis using lst_dispatch(1) [of s PB E' "of_nat (length f)" ?pl] ok by (auto simp: lst_complete_def)
qed


lemma peer_moves:
  assumes "peer_ok PB E E' fd s" "peers_rel PB b fd s n (r, c) p" "\<not> delivered c"
  shows "\<exists>p'. peer_step PB E E' b fd p p'"
proof -
  obtain sr lr where R: "conv_ok c" "block_phase c \<longrightarrow> r" "peers_base PB b s r p"
      "ps_current_fd (pe_srv p) = - 1 \<longleftrightarrow> c = Unconnected" "stored b (delivered c) (pe_lst p)" "rings n sr lr p"
      "conv_shape PB b fd s c sr lr (pe_to_lst p) (pe_to_srv p)"
    using assms(2) by (rule peers_relE)
  have ring: "set (ps_ring (pe_srv p)) = insert acc (set sr)" "set lr \<subseteq> set (pl_ring (pe_lst p))"
    using R(6) by (auto simp: rings_def)
  have lst: "lst_ok s (pe_lst p)" using R(3) by (simp add: peers_base_def)
  have receive: ?thesis if "lr = [L_recv s]" "pe_to_lst p = f # fs"
      "block_frame PB b f \<or> (carries PB m f \<and> m \<noteq> P2P__IPC_MESSAGE__STATUS__BLOCK)" for f fs m
    using peer_step.lst_received [of s _ p f fs] lst_received_total [OF assms(1) lst that(3)] that ring(2) by fastforce
  show ?thesis
  proof (cases c)
    case Unconnected
    then show ?thesis
      using peer_step.accept [of _ p] srv_accept_total [OF assms(1) R(3)] ring(1) R(4) by blast
  next
    case (S_sends m)
    then obtain f st where f: "S_send fd f st \<in> set (ps_ring (pe_srv p))"
        "st \<in> {FLAG_WAIT_PONG, FLAG_READ_RESPONSE, FLAG_BLOCK_SENDED}"
      using R(7) ring(1) by (auto split: if_splits simp del: p2p_num.simps)
    obtain ps' where "srv_complete PB E (pe_sh p) (Op_send fd f) (make_request_data fd (p2p_num st)) (of_nat (length f))
        (pe_srv p) = Some ps'" using srv_sent_total [OF assms(1) R(3) f(2)] by blast
    then show ?thesis using peer_step.srv_sent [OF f(1)] by blast
  next
    case (S_sent m)
    then show ?thesis using R(1,7) receive [of _ _ m] peer_frame_carries by fastforce
  next
    case (L_sends m)
    then obtain f where "L_send s f \<in> set (pl_ring (pe_lst p))" using R(7) ring(2) by auto
    then show ?thesis
      using peer_step.lst_sent [of s f _ p] assms(1)
        lst_dispatch(2) [of s PB E' "of_nat (length f)" "(pe_lst p)\<lparr>pl_ring := remove1 (L_send s f) (pl_ring (pe_lst p))\<rparr>"]
      by (fastforce simp: lst_complete_def peer_ok_def)
  next
    case (L_sent m)
    then obtain f where f: "pe_to_srv p = [f]" "peer_frame PB m f" "S_recv fd \<in> set (ps_ring (pe_srv p))"
      using R(7) ring(1) by auto
    then show ?thesis
      using peer_step.srv_received [of fd _ p f "[]"] srv_received_total [OF assms(1) R(3) peer_frame_carries [OF f(2)]] by blast
  qed (use R(7) assms(3) receive in auto)
qed

text \<open>Steps left until the block is delivered, when it is published.\<close>

definition steps_left :: "protobuf \<Rightarrow> block_t \<Rightarrow> u32 \<Rightarrow> u32 \<Rightarrow> nat \<Rightarrow> peers \<Rightarrow> bool" where
  "steps_left PB b fd s k p \<longleftrightarrow>
     (\<exists>n c. peers_rel PB b fd s n (True, c) p \<and> k = conv_rank c + (if n then 1 else 0))"

lemma steps_left_lower:
  assumes "peer_ok PB E E' fd s" "steps_left PB b fd s k p" "peer_step PB E E' b fd p p'"
  shows "\<exists>m < k. steps_left PB b fd s m p'"
proof -
  obtain n c where c: "peers_rel PB b fd s n (True, c) p" "k = conv_rank c + (if n then 1 else 0)"
    using assms(2) by (auto simp: steps_left_def)
  have "conv_ok c" using c(1) by (simp add: peers_rel_def)
  from peer_step_sim [OF assms(1,3) c(1)] show ?thesis
  proof
    assume n: "n \<and> peers_rel PB b fd s False (True, c) p'"
    then have "steps_left PB b fd s (conv_rank c) p'" unfolding steps_left_def by fastforce
    then show ?thesis using c(2) n by (intro exI [of _ "conv_rank c"]) simp
  next
    assume "\<exists>rc'. conv_step (True, c) rc' \<and> peers_rel PB b fd s n rc' p'"
    then obtain r' c' where r: "conv_step (True, c) (r', c')" "peers_rel PB b fd s n (r', c') p'" by auto
    then have r': "r'" "conv_rank c' < conv_rank c"
      using conv_step_published [OF r(1)] conv_rank_step [OF r(1)] \<open>conv_ok c\<close> c(1) by (auto simp: peers_rel_def)
    have "steps_left PB b fd s (conv_rank c' + (if n then 1 else 0)) p'"
      unfolding steps_left_def using r(2) r'(1) by (intro exI [of _ n] exI [of _ c']) simp
    moreover have "conv_rank c' + (if n then 1 else 0) < k" using c(2) r'(2) by simp
    ultimately show ?thesis by (intro exI conjI)
  qed
qed

interpretation peer_progress: progress "\<lambda>p p'. peer_ok PB E E' fd s \<and> peer_step PB E E' b fd p p'"
  "\<lambda>p. stored b True (pe_lst p)" "\<lambda>k p. peer_ok PB E E' fd s \<and> steps_left PB b fd s k p" for PB E E' fd s b
proof
  fix k p p'
  assume "peer_ok PB E E' fd s \<and> steps_left PB b fd s k p" "peer_ok PB E E' fd s \<and> peer_step PB E E' b fd p p'"
  then show "\<exists>m < k. peer_ok PB E E' fd s \<and> steps_left PB b fd s m p'" using steps_left_lower by blast
next
  fix k p
  assume a: "peer_ok PB E E' fd s \<and> steps_left PB b fd s k p" "\<not> stored b True (pe_lst p)"
  then obtain n c where "peers_rel PB b fd s n (True, c) p" by (auto simp: steps_left_def)
  moreover from this a(2) have "\<not> delivered c" by (auto simp: peers_rel_def)
  ultimately show "\<exists>p'. peer_ok PB E E' fd s \<and> peer_step PB E E' b fd p p'" using a(1) peer_moves by blast
qed


end
