(* ===== verification/ServeInv.thy ===== *)
theory ServeInv
  imports Peers
begin

text \<open>
  The serving peer thread against any number of neighbours: connections are accepted, completions arrive in
  any order and with any result, neighbours send arbitrary bytes, and every read of a freed message yields
  anything or faults, while the client thread of the node takes the mutex and publishes its block.  The invariant says what the thread has on its ring and what it
  has ever sent.
\<close>

section \<open>Runs\<close>

record serving =
  sg_shared :: shared
  sg_srv :: p2p_server
  sg_sent :: "(u32 \<times> bytes) list"

definition completed :: "uring_op \<Rightarrow> (u32 \<times> bytes) list" where
  "completed op = (case op of Op_send fd f \<Rightarrow> [(fd, f)] | _ \<Rightarrow> [])"

inductive serve_reach :: "protobuf \<Rightarrow> env \<Rightarrow> block_t \<Rightarrow> heap \<Rightarrow> serving \<Rightarrow> bool" for PB E b h0 where
  start: "serve_reach PB E b h0
    \<lparr>sg_shared = shared_init, sg_srv = event_loop_p2p_start (p2p_setup_buffers E h0), sg_sent = []\<rparr>"
| lock: "serve_reach PB E b h0 s \<Longrightarrow>
    serve_reach PB E b h0 (s\<lparr>sg_shared := (sg_shared s)\<lparr>sh_block_created_mtx := True\<rparr>\<rparr>)"
| publish: "serve_reach PB E b h0 s \<Longrightarrow> sh_block_created_mtx (sg_shared s) \<Longrightarrow> holds_block PB b sh \<Longrightarrow>
    \<not> sh_block_created_mtx sh \<Longrightarrow> \<not> sh_kill_thread_p2p sh \<Longrightarrow> serve_reach PB E b h0 (s\<lparr>sg_shared := sh\<rparr>)"
| receive: "serve_reach PB E b h0 s \<Longrightarrow> (Op_recv fd, d) \<in> set (ps_ring (sg_srv s)) \<Longrightarrow> length data \<le> BUFFER_SIZE \<Longrightarrow>
    serve_reach PB E b h0 (s\<lparr>sg_srv := srv_store fd data (sg_srv s)\<rparr>)"
| complete: "serve_reach PB E b h0 s \<Longrightarrow> (op, d) \<in> set (ps_ring (sg_srv s)) \<Longrightarrow>
    srv_complete (with_reads PB freed behind) E (sg_shared s) op d r (sg_srv s) = Some ps \<Longrightarrow>
    serve_reach PB E b h0 (s\<lparr>sg_srv := ps, sg_sent := sg_sent s @ completed op\<rparr>)"

section \<open>The invariant\<close>

text \<open>What the thread may send: one of four status codes, the published block, or the empty frame of a block
  asked for before the client thread has taken the mutex.\<close>

definition replies :: "P2pIpcMessage__Status set" where
  "replies = {P2P__IPC_MESSAGE__STATUS__PING, P2P__IPC_MESSAGE__STATUS__OK, P2P__IPC_MESSAGE__STATUS__BLOCK_NOT_READY,
     P2P__IPC_MESSAGE__STATUS__FINISH}"

definition frame_ok :: "protobuf \<Rightarrow> block_t \<Rightarrow> bytes \<Rightarrow> bool" where
  "frame_ok PB b f \<longleftrightarrow> f = [] \<or> block_frame PB b f \<or> (\<exists>m \<in> replies. peer_frame PB m f)"

text \<open>Entries of the ring carry the tag of their connection.\<close>

definition entry_ok :: "protobuf \<Rightarrow> block_t \<Rightarrow> sqe \<Rightarrow> bool" where
  "entry_ok PB b e \<longleftrightarrow> (case e of
       (Op_accept, d) \<Rightarrow> d = make_request_data 0 (p2p_num P2P_FLAG_ACCEPT)
     | (Op_send fd f, d) \<Rightarrow> unat fd < 100 \<and> frame_ok PB b f \<and>
         (\<exists>st \<in> {FLAG_WAIT_PONG, FLAG_READ_RESPONSE, FLAG_BLOCK_SENDED}. d = make_request_data fd (p2p_num st))
     | (Op_recv fd, d) \<Rightarrow> unat fd < 100 \<and> d = make_request_data fd (p2p_num FLAG_TEST_RESPONSE)
     | (Op_unprepared, d) \<Rightarrow> False)"

definition shared_ok :: "protobuf \<Rightarrow> block_t \<Rightarrow> shared \<Rightarrow> bool" where
  "shared_ok PB b sh \<longleftrightarrow> \<not> sh_kill_thread_p2p sh \<and> length (sh_buffer_BLOCK_DATA sh) = BUFFER_SIZE \<and>
     (sh_block_written_size sh = 0 \<or> holds_block PB b sh)"

definition ring_ok :: "protobuf \<Rightarrow> block_t \<Rightarrow> p2p_server \<Rightarrow> bool" where
  "ring_ok PB b ps \<longleftrightarrow> srv_ok ps \<and> (\<forall>e \<in> set (ps_ring ps). entry_ok PB b e)"

definition serve_inv :: "protobuf \<Rightarrow> block_t \<Rightarrow> serving \<Rightarrow> bool" where
  "serve_inv PB b s \<longleftrightarrow> shared_ok PB b (sg_shared s) \<and> ring_ok PB b (sg_srv s) \<and>
     (\<forall>x \<in> set (sg_sent s). unat (fst x) < 100 \<and> frame_ok PB b (snd x))"

lemma with_reads_ring [simp]:
  "ring_ok (with_reads PB freed behind) = ring_ok PB" "shared_ok (with_reads PB freed behind) = shared_ok PB"
proof -
  have f: "frame_ok (with_reads PB freed behind) = frame_ok PB" by (simp add: frame_ok_def fun_eq_iff)
  have e: "entry_ok (with_reads PB freed behind) = entry_ok PB" unfolding entry_ok_def [abs_def] f by (rule refl)
  show "ring_ok (with_reads PB freed behind) = ring_ok PB" unfolding ring_ok_def [abs_def] e by (rule refl)
  show "shared_ok (with_reads PB freed behind) = shared_ok PB" by (simp add: shared_ok_def [abs_def])
qed

lemma ring_ok_polled [simp]: "ring_ok PB b (polled sh ps) = ring_ok PB b ps"
  by (simp add: ring_ok_def polled_def srv_ok_def)

lemma ring_ok_status:
  assumes "protobuf_ok PB" "clock_ok E" "ring_ok PB b ps" "P2Pser_send_STATUS PB E fd m st ps = Some ps'"
    and "m \<in> replies" "st \<in> {FLAG_WAIT_PONG, FLAG_READ_RESPONSE, FLAG_BLOCK_SENDED}"
  shows "ring_ok PB b ps'"
proof -
  have fd: "unat fd < 100"
    using assms(4) by (auto simp: P2Pser_send_STATUS_def p2p_get_client_buffer_def bind_eq_Some_conv split: if_splits)
  obtain f where "srv_ok ps'" "peer_frame PB m f" "ps_ring ps' = ps_ring ps @ [(Op_send fd f, make_request_data fd (p2p_num st))]"
    using P2Pser_send_STATUS_ok [OF assms(1,2) _ fd, of ps m st] assms(3,4) by (fastforce simp: ring_ok_def)
  moreover have "entry_ok PB b (Op_send fd f, make_request_data fd (p2p_num st))"
    using fd assms(5,6) calculation(2) by (auto simp: entry_ok_def frame_ok_def simp del: p2p_num.simps)
  ultimately show ?thesis using assms(3) by (auto simp: ring_ok_def)
qed

lemma ring_ok_read:
  assumes "ring_ok PB b ps" "P2P_read_status_response fd ps = Some ps'"
  shows "ring_ok PB b ps'"
proof -
  have fd: "unat fd < 100"
    using assms(2) by (auto simp: P2P_read_status_response_def p2p_get_client_buffer_def bind_eq_Some_conv split: if_splits)
  then show ?thesis
    using P2P_read_status_response_ok [of ps fd] assms by (auto simp: ring_ok_def entry_ok_def)
qed

lemma ring_ok_block:
  assumes "ring_ok PB b ps" "shared_ok PB b sh" "P2Pser_send_block sh fd ps = Some ps'"
  shows "ring_ok PB b ps'"
proof -
  have fd: "unat fd < 100"
    using assms(3) by (auto simp: P2Pser_send_block_def p2p_get_client_buffer_def bind_eq_Some_conv split: if_splits)
  have srv: "srv_ok ps" using assms(1) by (simp add: ring_ok_def)
  obtain f where f: "srv_ok ps'" "frame_ok PB b f"
      "ps_ring ps' = ps_ring ps @ [(Op_send fd f, make_request_data fd (p2p_num FLAG_BLOCK_SENDED))]"
  proof (cases "holds_block PB b sh")
    case True
    then show ?thesis using P2Pser_send_block_ok [OF srv fd True] assms(3) that by (auto simp: frame_ok_def)
  next
    case False
    then have "sh_block_written_size sh = 0" "length (sh_buffer_BLOCK_DATA sh) = BUFFER_SIZE"
      using assms(2) by (simp_all add: shared_ok_def)
    then have "srv_ok ps'" "ps_ring ps' = ps_ring ps @ [(Op_send fd [], make_request_data fd (p2p_num FLAG_BLOCK_SENDED))]"
      using assms(3) srv fd srv_ok_update [OF srv, of "sh_buffer_BLOCK_DATA sh" "unat fd"]
      by (auto simp: P2Pser_send_block_def p2p_get_client_buffer_def p2p_submit_def srv_ok_def memcpy_full bind_eq_Some_conv Let_def)
    then show ?thesis using that [of "[]"] by (simp add: frame_ok_def)
  qed
  have "entry_ok PB b (Op_send fd f, make_request_data fd (p2p_num FLAG_BLOCK_SENDED))"
    using fd f(2) by (auto simp: entry_ok_def simp del: p2p_num.simps)
  then show ?thesis using assms(1) f(1,3) by (auto simp: ring_ok_def)
qed

lemma ring_ok_test:
  assumes "protobuf_ok PB" "clock_ok E" "ring_ok PB b ps" "shared_ok PB b sh" "p2p_test_response PB E sh c ps = Some ps'"
  shows "ring_ok PB b ps'"
  using assms(5) ring_ok_status [OF assms(1-3)] ring_ok_block [OF assms(3,4)] assms(3)
  by (auto simp: p2p_test_response_def Let_def bind_eq_Some_conv replies_def split: if_splits)

lemma ring_ok_step:
  assumes "protobuf_ok PB" "clock_ok E" "ring_ok PB b ps" "shared_ok PB b sh"
    and "event_loop_p2p_step PB E sh c ps = Some ps'"
  shows "ring_ok PB b ps'"
proof -
  let ?ps = "polled sh ps"
  have p: "ring_ok PB b ?ps" using assms(3) by simp
  have acc: "ring_ok PB b ((p2p_add_accept_request ?ps)\<lparr>ps_current_fd := x\<rparr>)" for x
    using p by (auto simp: ring_ok_def p2p_add_accept_request_def p2p_submit_def srv_ok_def entry_ok_def)
  have "\<not> sh_kill_thread_p2p sh" using assms(4) by (simp add: shared_ok_def)
  then show ?thesis
    using assms(5) ring_ok_status [OF assms(1,2) acc] ring_ok_status [OF assms(1,2) p] ring_ok_read [OF p]
      ring_ok_test [OF assms(1,2) p assms(4)] p
    by (auto simp: event_loop_p2p_step_def polled_def [symmetric] P2P_send_PING_eq Let_def replies_def
        simp del: p2p_num.simps split: if_splits)
qed

lemma srv_store_any:
  assumes "srv_ok ps" "length data \<le> BUFFER_SIZE"
  shows "srv_ok (srv_store fd data ps)"
proof (cases "unat fd < 100")
  case True
  then have "length (store_frame data (ps_buffers ps ! unat fd)) = BUFFER_SIZE"
    using assms by (simp add: srv_ok_def length_store_frame)
  then show ?thesis unfolding srv_store_def by (rule srv_ok_update [OF assms(1)])
qed (use assms in \<open>simp add: srv_store_def srv_ok_def list_update_beyond\<close>)

lemma completed_ok: "entry_ok PB b (op, d) \<Longrightarrow> x \<in> set (completed op) \<Longrightarrow> unat (fst x) < 100 \<and> frame_ok PB b (snd x)"
  by (cases op) (auto simp: completed_def entry_ok_def)

lemma serve_start_inv:
  "serve_inv PB b \<lparr>sg_shared = shared_init, sg_srv = event_loop_p2p_start (p2p_setup_buffers E h0), sg_sent = []\<rparr>"
  by (auto simp: serve_inv_def shared_ok_def shared_init_def ring_ok_def srv_ok_def event_loop_p2p_start_def
      p2p_add_accept_request_def p2p_submit_def p2p_setup_buffers_def entry_ok_def)

lemma serve_inv_complete:
  assumes "protobuf_ok PB" "clock_ok E" "serve_inv PB b s" "(op, d) \<in> set (ps_ring (sg_srv s))"
    and "srv_complete (with_reads PB freed behind) E (sg_shared s) op d r (sg_srv s) = Some ps"
  shows "serve_inv PB b (s\<lparr>sg_srv := ps, sg_sent := sg_sent s @ completed op\<rparr>)"
proof -
  let ?ps = "(sg_srv s)\<lparr>ps_ring := remove1 (op, d) (ps_ring (sg_srv s))\<rparr>"
  have "ring_ok PB b ?ps"
    using assms(3) set_remove1_subset [of "(op, d)" "ps_ring (sg_srv s)"] by (auto simp: serve_inv_def ring_ok_def srv_ok_def)
  then have "ring_ok PB b ps"
    using ring_ok_step [of "with_reads PB freed behind" E b ?ps "sg_shared s"] assms
    unfolding serve_inv_def srv_complete_def by simp
  moreover have "entry_ok PB b (op, d)" using assms(3,4) by (simp add: serve_inv_def ring_ok_def)
  ultimately show ?thesis using assms(3) completed_ok by (auto simp: serve_inv_def)
qed

lemma serve_reach_inv:
  assumes "protobuf_ok PB" "clock_ok E"
  shows "serve_reach PB E b h0 s \<Longrightarrow> serve_inv PB b s"
proof (induction rule: serve_reach.induct)
  case start
  show ?case by (rule serve_start_inv)
next
  case (lock s)
  then show ?case by (auto simp: serve_inv_def shared_ok_def holds_block_def)
next
  case (publish s sh)
  then show ?case by (simp add: serve_inv_def shared_ok_def holds_block_def)
next
  case (receive s fd d data)
  then show ?case using srv_store_any [of "sg_srv s" data fd] by (simp add: serve_inv_def ring_ok_def srv_store_def)
next
  case (complete s op d freed behind r ps)
  then show ?case using serve_inv_complete [OF assms] by blast
qed

text \<open>Before the block is published nothing sent is a block: the invariant then holds for any block.\<close>

lemma serve_reach_unpublished:
  assumes "protobuf_ok PB" "clock_ok E"
  shows "serve_reach PB E b h0 s \<Longrightarrow> holds_block PB b (sg_shared s) \<or> (\<forall>b'. serve_inv PB b' s)"
proof (induction rule: serve_reach.induct)
  case start
  show ?case using serve_start_inv by blast
next
  case (lock s)
  then show ?case by (auto simp: serve_inv_def shared_ok_def holds_block_def)
next
  case (receive s fd d data)
  then show ?case using srv_store_any [of "sg_srv s" data fd] by (auto simp: serve_inv_def ring_ok_def srv_store_def)
next
  case (complete s op d freed behind r ps)
  then show ?case using serve_inv_complete [OF assms] by auto
qed simp

text \<open>
  C10.  Whatever any number of neighbours send to the serving peer thread, and in whatever order and with
  whatever results its operations complete, and whatever each of its reads of a freed message yields: its connection buffers keep their sizes, every operation on its
  ring carries the tag of its own connection, and everything it has ever sent is one of the four status codes
  PING, OK, BLOCK_NOT_READY and FINISH, the block the client thread published, or, for a block asked for too
  early, nothing.
\<close>

theorem serving_peer_invariant:
  assumes "protobuf_ok PB" "clock_ok E" "serve_reach PB E b h0 s"
  shows "length (ps_buffers (sg_srv s)) = P2P_MAX_CONNECTIONS \<and>
    (\<forall>buf \<in> set (ps_buffers (sg_srv s)). length buf = BUFFER_SIZE) \<and>
    (\<forall>e \<in> set (ps_ring (sg_srv s)). entry_ok PB b e) \<and>
    (\<forall>(fd, f) \<in> set (sg_sent s). f = [] \<or> block_frame PB b f \<or>
      (\<exists>m \<in> {P2P__IPC_MESSAGE__STATUS__PING, P2P__IPC_MESSAGE__STATUS__OK, P2P__IPC_MESSAGE__STATUS__BLOCK_NOT_READY,
        P2P__IPC_MESSAGE__STATUS__FINISH}. carries PB m f))"
  using serve_reach_inv [OF assms] peer_frame_carries
  unfolding serve_inv_def ring_ok_def srv_ok_def frame_ok_def replies_def by fastforce

text \<open>A run: a neighbour connects and is sent PING.\<close>

lemma serve_first_connection:
  assumes "protobuf_ok PB" "clock_ok E" "unat fd < 100"
  shows "\<exists>s f. serve_reach PB E b h0 s \<and> carries PB P2P__IPC_MESSAGE__STATUS__PING f \<and>
    (Op_send fd f, make_request_data fd (p2p_num FLAG_WAIT_PONG)) \<in> set (ps_ring (sg_srv s))"
proof -
  let ?s = "\<lparr>sg_shared = shared_init, sg_srv = event_loop_p2p_start (p2p_setup_buffers E h0), sg_sent = []\<rparr>"
  let ?d = "make_request_data 0 (p2p_num P2P_FLAG_ACCEPT)"
  define ps where "ps = (p2p_add_accept_request (polled shared_init ((sg_srv ?s)
    \<lparr>ps_ring := remove1 (Op_accept, ?d) (ps_ring (sg_srv ?s))\<rparr>)))\<lparr>ps_current_fd := fd\<rparr>"
  have "srv_ok ps"
    by (simp add: ps_def srv_ok_def p2p_add_accept_request_def p2p_submit_def polled_def event_loop_p2p_start_def p2p_setup_buffers_def)
  from P2Pser_send_STATUS_ok [OF assms(1,2) this assms(3)] obtain ps' f
    where f: "P2Pser_send_STATUS PB E fd P2P__IPC_MESSAGE__STATUS__PING FLAG_WAIT_PONG ps = Some ps'"
      "carries PB P2P__IPC_MESSAGE__STATUS__PING f"
      "ps_ring ps' = ps_ring ps @ [(Op_send fd f, make_request_data fd (p2p_num FLAG_WAIT_PONG))]" using peer_frame_carries by blast
  have "(Op_accept, ?d) \<in> set (ps_ring (sg_srv ?s))"
    by (simp add: event_loop_p2p_start_def p2p_add_accept_request_def p2p_submit_def p2p_setup_buffers_def)
  moreover have "srv_complete PB E (sg_shared ?s) Op_accept ?d fd (sg_srv ?s) = Some ps'"
    using f(1) srv_dispatch(5) [OF assms(3)] unfolding srv_complete_def ps_def by (simp add: shared_init_def)
  ultimately have "serve_reach PB E b h0 (?s\<lparr>sg_srv := ps', sg_sent := sg_sent ?s @ completed Op_accept\<rparr>)"
    using serve_reach.complete [OF serve_reach.start, of Op_accept ?d E h0 PB "pb_freed_status PB" "pb_behind PB"] by simp
  then show ?thesis using f(2,3) by fastforce
qed

theorem serving_peer_invariant_witness:
  "\<exists>s f. serve_reach plain_pb demo_env block_zero empty_heap s \<and>
     (Op_send 7 f, make_request_data 7 (p2p_num FLAG_WAIT_PONG)) \<in> set (ps_ring (sg_srv s)) \<and>
     length (ps_buffers (sg_srv s)) = P2P_MAX_CONNECTIONS"
proof -
  obtain s f where "serve_reach plain_pb demo_env block_zero empty_heap s"
      "(Op_send 7 f, make_request_data 7 (p2p_num FLAG_WAIT_PONG)) \<in> set (ps_ring (sg_srv s))"
    using serve_first_connection [OF plain_pb_ok demo_clock_ok, of 7 block_zero empty_heap] by auto
  then show ?thesis using serving_peer_invariant [OF plain_pb_ok demo_clock_ok] by blast
qed

end
