(* ===== verification/PeerProps.thy ===== *)
theory PeerProps
  imports Peers ClientRun
begin

text \<open>
  What the two peer threads achieve together where \<open>freed_readable\<close> happens to hold (it is part of \<open>peer_ok\<close>, and nobody
  promises it): refinement of the conversation and delivery of the block.  These lemmas also provide runs in which a block does
  arrive.  And, without that supposition, what goes wrong when a neighbour asks before the client thread has taken the mutex.
\<close>

lemma peer_steps_eq:
  "peer_ok PB E E' fd s \<Longrightarrow> (\<lambda>p p'. peer_ok PB E E' fd s \<and> peer_step PB E E' b fd p p') = peer_step PB E E' b fd"
  by (intro ext) simp

lemma peer_run_rel:
  assumes "peer_ok PB E E' fd s" "sh_block_created_mtx sh" "\<not> sh_kill_thread_p2p sh"
    and "(peer_step PB E E' b fd)\<^sup>*\<^sup>* (peers_init E s sh h h') p"
  shows "\<exists>rc n. conv_step\<^sup>*\<^sup>* (False, Unconnected) rc \<and> peers_rel PB b fd s n rc p"
proof -
  have "\<exists>n. peers_rel PB b fd s n (False, Unconnected) (peers_init E s sh h h')"
    using peers_init_rel [OF assms(2,3)] by blast
  with peer_sim.run [of PB E E' fd s b "peers_init E s sh h h'" p "(False, Unconnected)"] assms(4)
  show ?thesis unfolding peer_steps_eq [OF assms(1)] by blast
qed

lemma published_steps_left:
  assumes "peers_rel PB b fd s n rc p" "\<not> sh_block_created_mtx (pe_sh p)"
  shows "\<exists>k \<le> 15. steps_left PB b fd s k p"
proof -
  obtain r c where rc: "rc = (r, c)" by (cases rc)
  have "conv_rank c \<le> 14" by (cases c) auto
  moreover have "r" using assms rc by (simp add: peers_rel_def peers_base_def)
  then have "steps_left PB b fd s (conv_rank c + (if n then 1 else 0)) p"
    unfolding steps_left_def using assms(1) rc by (intro exI [of _ n] exI [of _ c]) simp
  ultimately show ?thesis by (intro exI [of _ "conv_rank c + (if n then 1 else 0)"]) simp
qed

text \<open>
  Where freed messages stay readable, the two threads implement the conversation: every run of the serving and the asking thread,
  from the moment both are set up and the client thread holds the mutex, follows the automaton
  \<open>conv_step\<close>; what is pending on either ring and in flight is what its phase prescribes.
\<close>

theorem peers_refine_conversation:
  assumes "peer_ok PB E E' fd s" "sh_block_created_mtx sh" "\<not> sh_kill_thread_p2p sh"
    and "(peer_step PB E E' b fd)\<^sup>*\<^sup>* (peers_init E s sh h h') p"
  shows "\<exists>r c n sr lr. conv_step\<^sup>*\<^sup>* (False, Unconnected) (r, c) \<and> r = (\<not> sh_block_created_mtx (pe_sh p)) \<and>
    rings n sr lr p \<and> conv_shape PB b fd s c sr lr (pe_to_lst p) (pe_to_srv p)"
proof -
  obtain r c n where "conv_step\<^sup>*\<^sup>* (False, Unconnected) (r, c)" "peers_rel PB b fd s n (r, c) p"
    using peer_run_rel [OF assms] by auto
  then show ?thesis by (auto simp: peers_rel_def peers_base_def)
qed

text \<open>
  Delivery, where freed messages stay readable and the memory behind a string is mapped: once the block is published, every run
  of the two threads takes at most fifteen more steps, none of them faults, and when no step is left the asking node has the block.
\<close>

theorem block_delivered:
  assumes "peer_ok PB E E' fd s" "sh_block_created_mtx sh" "\<not> sh_kill_thread_p2p sh"
    and "(peer_step PB E E' b fd)\<^sup>*\<^sup>* (peers_init E s sh h h') p" "\<not> sh_block_created_mtx (pe_sh p)"
  shows "(\<forall>k p'. (peer_step PB E E' b fd ^^ k) p p' \<longrightarrow> k \<le> 15) \<and>
    (\<forall>p'. (peer_step PB E E' b fd)\<^sup>*\<^sup>* p p' \<and> (\<nexists>p''. peer_step PB E E' b fd p' p'') \<longrightarrow> stored b True (pe_lst p'))"
proof -
  obtain rc n where "peers_rel PB b fd s n rc p" using peer_run_rel [OF assms(1-4)] by auto
  then obtain k where k: "peer_ok PB E E' fd s \<and> steps_left PB b fd s k p" "k \<le> 15"
    using published_steps_left assms(1,5) by blast
  have "j \<le> 15" if "(peer_step PB E E' b fd ^^ j) p p'" for j p'
    using peer_progress.run_bounded [of j PB E E' fd s b p p' k] that k unfolding peer_steps_eq [OF assms(1)] by fastforce
  moreover have "stored b True (pe_lst p')" if "(peer_step PB E E' b fd)\<^sup>*\<^sup>* p p'" "\<nexists>p''. peer_step PB E E' b fd p' p''" for p'
    using peer_progress.maximal_run_reaches [of PB E E' fd s b p p' k] that k(1) unfolding peer_steps_eq [OF assms(1)] by blast
  ultimately show ?thesis by blast
qed

section \<open>Witnesses\<close>

lemma plain_freed: "freed_readable plain_pb"
  by (simp add: freed_readable_def plain_pb_def)

lemma demo_peer_ok: "peer_ok plain_pb demo_env demo_env 5 6"
  using plain_pb_ok plain_freed demo_clock_ok fd_nonneg [of 6] by (simp add: peer_ok_def)

definition demo_locked :: shared where
  "demo_locked = shared_init\<lparr>sh_block_created_mtx := True\<rparr>"

lemma demo_locked_ok: "sh_block_created_mtx demo_locked" "\<not> sh_kill_thread_p2p demo_locked"
  by (simp_all add: demo_locked_def shared_init_def)

lemma demo_published:
  assumes "protobuf_ok PB"
  shows "\<exists>sh'. holds_block PB block_zero sh' \<and> \<not> sh_block_created_mtx sh' \<and> \<not> sh_kill_thread_p2p sh'"
proof -
  have "block_wf block_zero" "0 \<in> set (blk_date block_zero)" by (simp_all add: block_wf_def block_zero_def calloc_def)
  from block_serialized [OF assms this, of "calloc 4096"] obtain n d where
    d: "n \<le> 4096" "length d = 4096" "block_frame PB block_zero (take n d)" by auto
  then have "unat (of_nat n :: u64) = n" by (intro unat_of_nat_u64) simp
  with d show ?thesis
    by (intro exI [of _ "shared_init\<lparr>sh_block_written_size := of_nat n, sh_buffer_BLOCK_DATA := d\<rparr>"])
      (simp add: holds_block_def shared_init_def)
qed

text \<open>A run that publishes and then delivers.\<close>

lemma published_run:
  assumes "holds_block PB b sh'" "\<not> sh_block_created_mtx sh'" "\<not> sh_kill_thread_p2p sh'"
  shows "peer_step PB E E' b fd (peers_init E s demo_locked h h') ((peers_init E s demo_locked h h')\<lparr>pe_sh := sh'\<rparr>)"
  by (rule peer_step.block_made) (use assms demo_locked_ok in \<open>simp_all add: peers_init_def\<close>)

lemma delivery:
  assumes "peer_ok PB E E' fd s" "holds_block PB b sh'" "\<not> sh_block_created_mtx sh'" "\<not> sh_kill_thread_p2p sh'"
  shows "\<exists>p. (peer_step PB E E' b fd)\<^sup>*\<^sup>* (peers_init E s demo_locked h h') p \<and> stored b True (pe_lst p)"
proof -
  let ?step = "peer_step PB E E' b fd" and ?p = "(peers_init E s demo_locked h h')\<lparr>pe_sh := sh'\<rparr>"
  have p: "?step\<^sup>*\<^sup>* (peers_init E s demo_locked h h') ?p" using published_run [OF assms(2-4)] by blast
  obtain rc n where "peers_rel PB b fd s n rc ?p" using peer_run_rel [OF assms(1) demo_locked_ok p] by blast
  then obtain k where k: "steps_left PB b fd s k ?p" using assms(3) published_steps_left by fastforce
  have "\<exists>q. ?step\<^sup>*\<^sup>* p q \<and> stored b True (pe_lst q)" if "steps_left PB b fd s k p" for k p
    using that
  proof (induction k arbitrary: p rule: less_induct)
    case (less k)
    show ?case
    proof (cases "stored b True (pe_lst p)")
      case False
      then obtain p' where p': "?step p p'"
        using peer_progress.moves [of PB E E' fd s b k p] less.prems assms(1) by blast
      then obtain m where "m < k" "steps_left PB b fd s m p'"
        using steps_left_lower [OF assms(1) less.prems] by blast
      with less.IH p' show ?thesis by (meson converse_rtranclp_into_rtranclp)
    qed blast
  qed
  then show ?thesis using p k by (meson rtranclp_trans)
qed

lemma demo_delivery:
  assumes "peer_ok PB demo_env demo_env 5 6"
  shows "\<exists>p. (peer_step PB demo_env demo_env block_zero 5)\<^sup>*\<^sup>* (peers_init demo_env 6 demo_locked empty_heap empty_heap) p \<and>
    stored block_zero True (pe_lst p)"
  using delivery [OF assms] demo_published [of PB] assms by (auto simp: peer_ok_def)

theorem peers_refine_conversation_witness:
  "\<exists>p r c. (peer_step plain_pb demo_env demo_env block_zero 5)\<^sup>*\<^sup>* (peers_init demo_env 6 demo_locked empty_heap empty_heap) p \<and>
    conv_step\<^sup>*\<^sup>* (False, Unconnected) (r, c) \<and> stored block_zero True (pe_lst p)"
  using demo_delivery [OF demo_peer_ok] peers_refine_conversation [OF demo_peer_ok demo_locked_ok] by metis

theorem block_delivered_witness:
  "\<exists>p. (peer_step plain_pb demo_env demo_env block_zero 5)\<^sup>*\<^sup>* (peers_init demo_env 6 demo_locked empty_heap empty_heap) p \<and>
    (\<forall>k p'. (peer_step plain_pb demo_env demo_env block_zero 5 ^^ k) p p' \<longrightarrow> k \<le> 15)"
proof -
  obtain sh' where sh: "holds_block plain_pb block_zero sh'" "\<not> sh_block_created_mtx sh'" "\<not> sh_kill_thread_p2p sh'"
    using demo_published [OF plain_pb_ok] by blast
  have p: "(peer_step plain_pb demo_env demo_env block_zero 5)\<^sup>*\<^sup>* (peers_init demo_env 6 demo_locked empty_heap empty_heap)
      ((peers_init demo_env 6 demo_locked empty_heap empty_heap)\<lparr>pe_sh := sh'\<rparr>)"
    using published_run [OF sh, of demo_env demo_env 5 6 empty_heap empty_heap] by blast
  have "\<not> sh_block_created_mtx (pe_sh ((peers_init demo_env 6 demo_locked empty_heap empty_heap)\<lparr>pe_sh := sh'\<rparr>))" using sh(2) by simp
  from block_delivered [OF demo_peer_ok demo_locked_ok p this] p show ?thesis by blast
qed

section \<open>From the messages to the neighbour\<close>

text \<open>Once the client thread has published, every maximal run of the peers delivers its block.\<close>

lemma published_reaches_neighbour:
  assumes "peer_ok PB E E' fd s" "published PB E texts st" "sh_block_created_mtx sh" "\<not> sh_kill_thread_p2p sh"
  shows "\<exists>b. cl_block st = Some b \<and>
    (\<forall>p. (peer_step PB E E' b fd)\<^sup>*\<^sup>* (peers_init E s sh h h') p \<and> sh_block_created_mtx (pe_sh p) \<longrightarrow>
      peer_step PB E E' b fd p (p\<lparr>pe_sh := cl_shared st\<rparr>) \<and>
      (\<forall>q. (peer_step PB E E' b fd)\<^sup>*\<^sup>* (p\<lparr>pe_sh := cl_shared st\<rparr>) q \<and> (\<nexists>q'. peer_step PB E E' b fd q q') \<longrightarrow>
        (\<exists>b' out. pl_received (pe_lst q) = [(b', out)] \<and>
          blk_merkle_root b' = env_generichash E (block_root E texts) \<and>
          puzzle_solved (env_generichash E) (block_root E texts) 3 (blk_nonce b'))))"
proof -
  let ?root = "block_root E texts"
  obtain b where b: "cl_block st = Some b" "blk_merkle_root b = env_generichash E ?root"
      "puzzle_solved (env_generichash E) ?root 3 (blk_nonce b)" "holds_block PB b (cl_shared st)"
      "\<not> sh_block_created_mtx (cl_shared st)" "\<not> sh_kill_thread_p2p (cl_shared st)"
    using assms(2) by (auto simp: published_def Let_def)
  let ?step = "peer_step PB E E' b fd"
  have "?step p (p\<lparr>pe_sh := cl_shared st\<rparr>) \<and>
      (\<forall>q. ?step\<^sup>*\<^sup>* (p\<lparr>pe_sh := cl_shared st\<rparr>) q \<and> (\<nexists>q'. ?step q q') \<longrightarrow>
        (\<exists>b' out. pl_received (pe_lst q) = [(b', out)] \<and> blk_merkle_root b' = env_generichash E ?root \<and>
          puzzle_solved (env_generichash E) ?root 3 (blk_nonce b')))"
    if p: "?step\<^sup>*\<^sup>* (peers_init E s sh h h') p" "sh_block_created_mtx (pe_sh p)" for p
  proof -
    let ?p = "p\<lparr>pe_sh := cl_shared st\<rparr>"
    have step: "?step p ?p" using p(2) b(4-6) by (rule peer_step.block_made)
    then have run: "?step\<^sup>*\<^sup>* (peers_init E s sh h h') ?p" using p(1) by (rule rtranclp.rtrancl_into_rtrancl [rotated])
    obtain rc n where "peers_rel PB b fd s n rc ?p" using peer_run_rel [OF assms(1,3,4) run] by auto
    then obtain k where k: "peer_ok PB E E' fd s \<and> steps_left PB b fd s k ?p"
      using published_steps_left [of PB b fd s n rc ?p] b(5) assms(1) by auto
    have "stored b True (pe_lst q)" if "?step\<^sup>*\<^sup>* ?p q" "\<nexists>q'. ?step q q'" for q
      using peer_progress.maximal_run_reaches [of PB E E' fd s b ?p q k] that k unfolding peer_steps_eq [OF assms(1)] by blast
    then show ?thesis using step b(2,3) by (fastforce simp: stored_def same_block_def)
  qed
  then show ?thesis using b(1) by blast
qed

text \<open>
  End to end over three threads of two machines: the client thread makes a block of 512 messages; at
  whatever point of the conversation it publishes it, every maximal run of the peer threads from there ends
  with the neighbour holding a block whose root is the hash of the Merkle root of exactly those messages and
  whose nonce solves the puzzle for that root.
\<close>

theorem neighbour_gets_block_of_messages:
  assumes "peer_ok PB E E' fd s" "frames_carry PB frames msgs" "length msgs = BLOCKSIZE"
    and "mining_ok E (block_root E (map fst msgs))" "heap_wf hc" "length (sh_buffer_BLOCK_DATA sh) = BUFFER_SIZE"
    and "\<not> sh_kill_thread_p2p sh"
  shows "\<exists>st b. client_run PB E frames (client_start sock sh hc) = Some st \<and> cl_block st = Some b \<and>
    (\<forall>p. (peer_step PB E E' b fd)\<^sup>*\<^sup>* (peers_init E s (cl_shared (client_start sock sh hc)) h h') p \<and> sh_block_created_mtx (pe_sh p) \<longrightarrow>
      peer_step PB E E' b fd p (p\<lparr>pe_sh := cl_shared st\<rparr>) \<and>
      (\<forall>q. (peer_step PB E E' b fd)\<^sup>*\<^sup>* (p\<lparr>pe_sh := cl_shared st\<rparr>) q \<and> (\<nexists>q'. peer_step PB E E' b fd q q') \<longrightarrow>
        (\<exists>b' out. pl_received (pe_lst q) = [(b', out)] \<and>
          blk_merkle_root b' = env_generichash E (block_root E (map fst msgs)) \<and>
          puzzle_solved (env_generichash E) (block_root E (map fst msgs)) 3 (blk_nonce b'))))"
proof -
  have pb: "protobuf_ok PB" using assms(1) by (simp add: peer_ok_def)
  have inv: "client_inv [] (client_start sock sh hc)" using client_start_inv [OF assms(5-7)] .
  have locked: "sh_block_created_mtx (cl_shared (client_start sock sh hc))" "\<not> sh_kill_thread_p2p (cl_shared (client_start sock sh hc))"
    using assms(7) by (simp_all add: client_start_def)
  from client_run_block [OF pb assms(2-4) inv] obtain st where
    st: "client_run PB E frames (client_start sock sh hc) = Some st" "published PB E (map fst msgs) st"
    by (auto simp: client_start_def)
  show ?thesis using published_reaches_neighbour [OF assms(1) st(2) locked] st(1) by blast
qed

theorem neighbour_gets_block_of_messages_witness:
  "\<exists>st b. client_run plain_pb demo_env (replicate 512 (pb_ipc_pack plain_pb demo_ipc))
      (client_start 5 shared_init empty_heap) = Some st \<and> cl_block st = Some b \<and>
    peer_step plain_pb demo_env demo_env b 5 (peers_init demo_env 6 demo_locked empty_heap empty_heap)
      ((peers_init demo_env 6 demo_locked empty_heap empty_heap)\<lparr>pe_sh := cl_shared st\<rparr>)"
proof -
  have "frames_carry plain_pb (replicate 512 (pb_ipc_pack plain_pb demo_ipc)) (replicate 512 ([1, 2], replicate 32 0))"
    using demo_frame by (simp add: frames_carry_def list_all2_conv_all_nth)
  from neighbour_gets_block_of_messages [OF demo_peer_ok this _ demo_mining_ok, of empty_heap shared_init 5 empty_heap empty_heap]
  obtain st b where st: "client_run plain_pb demo_env (replicate 512 (pb_ipc_pack plain_pb demo_ipc))
      (client_start 5 shared_init empty_heap) = Some st" "cl_block st = Some b"
    and step: "\<And>p. (peer_step plain_pb demo_env demo_env b 5)\<^sup>*\<^sup>* (peers_init demo_env 6 demo_locked empty_heap empty_heap) p \<Longrightarrow>
      sh_block_created_mtx (pe_sh p) \<Longrightarrow> peer_step plain_pb demo_env demo_env b 5 p (p\<lparr>pe_sh := cl_shared st\<rparr>)"
    by (auto simp: heap_wf_def empty_heap_def client_start_def demo_locked_def shared_init_def)
  have "sh_block_created_mtx (pe_sh (peers_init demo_env 6 demo_locked empty_heap empty_heap))"
    using demo_locked_ok by (simp add: peers_init_def)
  from step [OF rtranclp.rtrancl_refl this] show ?thesis using st by blast
qed

section \<open>Asking too early\<close>

text \<open>
  C36.  Readiness is judged by the mutex alone, and \<open>flag_block_created\<close> is never read: when the serving thread takes a
  frame for ASK_IF_BLOCK_READY before the client thread has locked the mutex, it answers with an empty send as if
  the block were there; no status code is in it, and when it completes the thread goes on to FINISH.
\<close>

theorem premature_block_is_empty:
  assumes "srv_ok ps" "unat fd < 100" "0 < sint r" "protobuf_ok PB" "clock_ok E"
    and "P2P_deserialize_STATUS PB (ps_buffers ps ! unat fd) (unat r) = Some (p2p_code P2P__IPC_MESSAGE__STATUS__ASK_IF_BLOCK_READY)"
  shows "\<exists>ps' ps'' f. event_loop_p2p_step PB E shared_init
      \<lparr>cq_res = r, cq_user_data = make_request_data fd (p2p_num FLAG_TEST_RESPONSE)\<rparr> ps = Some ps' \<and>
    ps_ring ps' = ps_ring ps @ [(Op_send fd [], make_request_data fd (p2p_num FLAG_BLOCK_SENDED))] \<and>
    event_loop_p2p_step PB E shared_init
      \<lparr>cq_res = 0, cq_user_data = make_request_data fd (p2p_num FLAG_BLOCK_SENDED)\<rparr> ps' = Some ps'' \<and>
    carries PB P2P__IPC_MESSAGE__STATUS__FINISH f \<and>
    ps_ring ps'' = ps_ring ps' @ [(Op_send fd f, make_request_data fd (p2p_num FLAG_WAIT_PONG))]"
proof -
  have sh: "\<not> sh_kill_thread_p2p shared_init" by (simp add: shared_init_def)
  have mem: "memcpy (ps_buffers ps ! unat fd) (calloc 4096) 4096 = Some (calloc 4096)"
    using assms(1,2) by (simp add: srv_ok_def memcpy_full)
  obtain ps' where ps': "event_loop_p2p_step PB E shared_init
      \<lparr>cq_res = r, cq_user_data = make_request_data fd (p2p_num FLAG_TEST_RESPONSE)\<rparr> ps = Some ps'"
    "ps_ring ps' = ps_ring ps @ [(Op_send fd [], make_request_data fd (p2p_num FLAG_BLOCK_SENDED))]" "srv_ok ps'"
    unfolding srv_dispatch(4) [OF assms(2) sh]
    using assms(2,3,6) mem srv_ok_update [OF assms(1), of "calloc 4096" "unat fd"]
    by (simp add: p2p_test_response_def polled_def P2Pser_send_block_def p2p_get_client_buffer_def p2p_submit_def shared_init_def
        request_fd_roundtrip ucast_request srv_ok_def)
  have "srv_ok (polled shared_init ps')" using ps'(3) by (simp add: srv_ok_def polled_def)
  from P2Pser_send_STATUS_ok [OF assms(4,5) this assms(2), of P2P__IPC_MESSAGE__STATUS__FINISH FLAG_WAIT_PONG] ps' peer_frame_carries
  show ?thesis unfolding srv_dispatch(3) [OF assms(2) sh] by (fastforce simp: polled_def)
qed

theorem premature_block_is_empty_witness:
  "\<exists>f ps ps'. carries plain_pb P2P__IPC_MESSAGE__STATUS__ASK_IF_BLOCK_READY f \<and>
    event_loop_p2p_step plain_pb demo_env shared_init
      \<lparr>cq_res = of_nat (length f), cq_user_data = make_request_data 5 (p2p_num FLAG_TEST_RESPONSE)\<rparr> ps = Some ps' \<and>
    ps_ring ps' = [(Op_send 5 [], make_request_data 5 (p2p_num FLAG_BLOCK_SENDED))]"
proof -
  let ?l = "setup_p2p_listening 6 empty_heap"
  have "lst_ok 6 ?l" by (simp add: lst_ok_def setup_p2p_listening_def)
  then obtain f where f: "carries plain_pb P2P__IPC_MESSAGE__STATUS__ASK_IF_BLOCK_READY f"
    using cl_p2p_send_STATUS_ok [OF plain_pb_ok demo_clock_ok] peer_frame_carries by blast
  let ?ps = "p2p_setup_buffers demo_env empty_heap"
  have ok: "srv_ok ?ps" by (simp add: srv_ok_def p2p_setup_buffers_def)
  have fd: "unat (5 :: u32) < 100" by simp
  note st = srv_store_ok [OF ok f fd]
  have len: "0 < length f" "length f \<le> 4096" using f by (simp_all add: carries_def)
  have r: "0 < sint (of_nat (length f) :: u32)" "unat (of_nat (length f) :: u32) = length f"
    using len small_res(1) [OF len(2)] by (simp_all add: signed_of_nat signed_take_bit_int_eq_self)
  have "P2P_deserialize_STATUS plain_pb (ps_buffers (srv_store 5 f ?ps) ! unat (5 :: u32)) (unat (of_nat (length f) :: u32)) =
      Some (p2p_code P2P__IPC_MESSAGE__STATUS__ASK_IF_BLOCK_READY)"
    using carries_status [OF f plain_freed] st(2) r(2) by simp
  from premature_block_is_empty [OF st(1) fd r(1) plain_pb_ok demo_clock_ok this] f show ?thesis
    by (fastforce simp: srv_store_def p2p_setup_buffers_def)
qed

section \<open>Connecting\<close>

lemma connect_loop_first:
  assumes "conn (t + 2 * n)" "\<forall>k < n. \<not> conn (t + 2 * k)"
  shows "connect_loop conn t = Some (t + 2 * n)"
  using assms
proof (induction n arbitrary: t)
  case 0
  then show ?case by (simp add: connect_loop.simps)
next
  case (Suc n)
  have "\<not> conn t" using Suc.prems(2) by (metis add.right_neutral mult_0_right zero_less_Suc)
  moreover have "\<forall>k < n. \<not> conn (Suc (Suc t) + 2 * k)"
    using Suc.prems(2) by (metis Suc_less_eq add_Suc_shift mult_2 add_Suc add_Suc_right)
  then have "connect_loop conn (Suc (Suc t)) = Some (Suc (Suc t) + 2 * n)"
    using Suc.prems(1) by (intro Suc.IH) simp_all
  ultimately show ?case by (simp add: connect_loop.simps [of conn t])
qed

lemma connect_loop_sound: "connect_loop conn t = Some u \<Longrightarrow> conn u \<and> (\<exists>n. u = t + 2 * n)"
proof (induction rule: connect_loop.raw_induct [rotated, consumes 1, case_names round])
  case (round loop conn t u)
  show ?case
  proof (cases "conn t")
    case True
    then show ?thesis using round by (auto intro: exI [of _ 0])
  next
    case False
    then have "loop conn (Suc (Suc t)) = Some u" using round.hyps by simp
    from round.IH [OF this] obtain n where "conn u" "u = Suc (Suc t) + 2 * n" by blast
    then show ?thesis by (auto intro: exI [of _ "Suc n"])
  qed
qed

text \<open>
  C31.  The asking thread connects exactly if some attempt succeeds, at the first one that does, and the
  mutex \<open>peer_connection_accepted\<close> is free again; with an unreachable neighbour it tries forever.
\<close>

theorem connect_to_peer_decides:
  assumes "\<not> sh_peer_connection_accepted sh"
  shows "connect_to_peer conn t s sh h =
    (if \<exists>n. conn (t + 2 * n) then Some (sh, setup_p2p_listening s h) else None) \<and>
    (\<forall>n. conn (t + 2 * n) \<and> (\<forall>k < n. \<not> conn (t + 2 * k)) \<longrightarrow> connect_loop conn t = Some (t + 2 * n))"
proof -
  have "connect_loop conn t \<noteq> None" if "\<exists>n. conn (t + 2 * n)"
    using connect_loop_first exists_least_iff [of "\<lambda>n. conn (t + 2 * n)"] that by (metis option.distinct(1))
  moreover have "\<exists>n. conn (t + 2 * n)" if "connect_loop conn t = Some u" for u
    using connect_loop_sound [OF that] by blast
  ultimately show ?thesis
    using assms connect_loop_first [of conn t] by (cases "connect_loop conn t") (auto simp: connect_to_peer_def)
qed

theorem connect_to_peer_decides_witness:
  "connect_to_peer (\<lambda>t. 10 \<le> t) 3 6 shared_init empty_heap = Some (shared_init, setup_p2p_listening 6 empty_heap) \<and>
   connect_loop (\<lambda>t. 10 \<le> t) 3 = Some 11"
proof -
  have f: "\<not> sh_peer_connection_accepted shared_init" by (simp add: shared_init_def)
  have "\<exists>n. (10 :: nat) \<le> 3 + 2 * n" by (intro exI [of _ 4]) simp
  moreover have "\<forall>k < 4. \<not> (10 :: nat) \<le> 3 + 2 * k" by auto
  ultimately show ?thesis
    using connect_to_peer_decides [OF f, of "\<lambda>t. 10 \<le> t" 3 6 empty_heap] by (auto dest!: spec [of _ 4])
qed


end
