(* ===== verification/Descriptors.thy ===== *)
theory Descriptors
  imports Ipc
begin

text \<open>
  The constant tables of \<open>serdes/transaction.pb-c.c\<close> and \<open>client/serdes_client/p2ptransaction.pb-c.c\<close>,
  from which the protobuf library packs and unpacks the two message types.  They are translated entry by
  entry; an offset of a structure member is the name of the member.  The magic numbers, the structure
  sizes, the initialiser pointers and the reserved entries are left out: they are constants of the
  library.  What the library documents about its tables is the predicate \<open>enum_descriptor_wf\<close> and
  \<open>message_descriptor_wf\<close>; the messages of the model are the values typed by the descriptors.
\<close>

section \<open>Types of the tables\<close>

record ProtobufCEnumValue =
  ev_name :: string
  ev_c_name :: string
  ev_value :: int

record ProtobufCIntRange =
  ir_start_value :: int
  ir_orig_index :: nat

record ProtobufCEnumValueIndex =
  evi_name :: string
  evi_index :: nat

record ProtobufCEnumDescriptor =
  ed_name :: string
  ed_short_name :: string
  ed_c_name :: string
  ed_package_name :: string
  ed_n_values :: nat
  ed_values :: "ProtobufCEnumValue list"
  ed_n_value_names :: nat
  ed_values_by_name :: "ProtobufCEnumValueIndex list"
  ed_n_value_ranges :: nat
  ed_value_ranges :: "ProtobufCIntRange list"

datatype ProtobufCLabel = PROTOBUF_C_LABEL_REQUIRED | PROTOBUF_C_LABEL_OPTIONAL

datatype ProtobufCType =
    PROTOBUF_C_TYPE_BYTES | PROTOBUF_C_TYPE_STRING | PROTOBUF_C_TYPE_UINT64 | PROTOBUF_C_TYPE_ENUM

record ProtobufCFieldDescriptor =
  fd_name :: string
  fd_id :: nat
  fd_label :: ProtobufCLabel
  fd_type :: ProtobufCType
  fd_quantifier_offset :: "string option"
  fd_offset :: string
  fd_descriptor :: "ProtobufCEnumDescriptor option"

record ProtobufCMessageDescriptor =
  md_name :: string
  md_short_name :: string
  md_c_name :: string
  md_package_name :: string
  md_n_fields :: nat
  md_fields :: "ProtobufCFieldDescriptor list"
  md_fields_sorted_by_name :: "nat list"
  md_n_field_ranges :: nat
  md_field_ranges :: "ProtobufCIntRange list"

section \<open>Tables of the messages between server and client\<close>

definition ipc_message__status__enum_values_by_number :: "ProtobufCEnumValue list" where
  "ipc_message__status__enum_values_by_number = [
     \<lparr>ev_name = ''TEST'', ev_c_name = ''IPC_MESSAGE__STATUS__TEST'', ev_value = 0\<rparr>,
     \<lparr>ev_name = ''OK'', ev_c_name = ''IPC_MESSAGE__STATUS__OK'', ev_value = 1\<rparr>,
     \<lparr>ev_name = ''ERROR'', ev_c_name = ''IPC_MESSAGE__STATUS__ERROR'', ev_value = 2\<rparr>,
     \<lparr>ev_name = ''FINISH'', ev_c_name = ''IPC_MESSAGE__STATUS__FINISH'', ev_value = 3\<rparr>,
     \<lparr>ev_name = ''WAIT'', ev_c_name = ''IPC_MESSAGE__STATUS__WAIT'', ev_value = 4\<rparr>,
     \<lparr>ev_name = ''ASK_NEED_MSG'', ev_c_name = ''IPC_MESSAGE__STATUS__ASK_NEED_MSG'', ev_value = 5\<rparr>,
     \<lparr>ev_name = ''NEED_MORE'', ev_c_name = ''IPC_MESSAGE__STATUS__NEED_MORE'', ev_value = 6\<rparr>,
     \<lparr>ev_name = ''ACKN_OK'', ev_c_name = ''IPC_MESSAGE__STATUS__ACKN_OK'', ev_value = 7\<rparr>,
     \<lparr>ev_name = ''MESSAGE_SENDED'', ev_c_name = ''IPC_MESSAGE__STATUS__MESSAGE_SENDED'', ev_value = 8\<rparr>,
     \<lparr>ev_name = ''ENOUGH'', ev_c_name = ''IPC_MESSAGE__STATUS__ENOUGH'', ev_value = 9\<rparr>,
     \<lparr>ev_name = ''ALL_BLOCK_MSG_SENDED'', ev_c_name = ''IPC_MESSAGE__STATUS__ALL_BLOCK_MSG_SENDED'', ev_value = 10\<rparr>,
     \<lparr>ev_name = ''ALL_BLOCK_RECEIVED'', ev_c_name = ''IPC_MESSAGE__STATUS__ALL_BLOCK_RECEIVED'', ev_value = 11\<rparr>]"

definition ipc_message__status__value_ranges :: "ProtobufCIntRange list" where
  "ipc_message__status__value_ranges = [\<lparr>ir_start_value = 0, ir_orig_index = 0\<rparr>, \<lparr>ir_start_value = 0, ir_orig_index = 12\<rparr>]"

definition ipc_message__status__enum_values_by_name :: "ProtobufCEnumValueIndex list" where
  "ipc_message__status__enum_values_by_name = [
     \<lparr>evi_name = ''ACKN_OK'', evi_index = 7\<rparr>,
     \<lparr>evi_name = ''ALL_BLOCK_MSG_SENDED'', evi_index = 10\<rparr>,
     \<lparr>evi_name = ''ALL_BLOCK_RECEIVED'', evi_index = 11\<rparr>,
     \<lparr>evi_name = ''ASK_NEED_MSG'', evi_index = 5\<rparr>,
     \<lparr>evi_name = ''ENOUGH'', evi_index = 9\<rparr>,
     \<lparr>evi_name = ''ERROR'', evi_index = 2\<rparr>,
     \<lparr>evi_name = ''FINISH'', evi_index = 3\<rparr>,
     \<lparr>evi_name = ''MESSAGE_SENDED'', evi_index = 8\<rparr>,
     \<lparr>evi_name = ''NEED_MORE'', evi_index = 6\<rparr>,
     \<lparr>evi_name = ''OK'', evi_index = 1\<rparr>,
     \<lparr>evi_name = ''TEST'', evi_index = 0\<rparr>,
     \<lparr>evi_name = ''WAIT'', evi_index = 4\<rparr>]"

definition ipc_message__status__descriptor :: ProtobufCEnumDescriptor where
  "ipc_message__status__descriptor = \<lparr>
     ed_name = ''IpcMessage.Status'', ed_short_name = ''Status'', ed_c_name = ''IpcMessage__Status'', ed_package_name = '''',
     ed_n_values = 12, ed_values = ipc_message__status__enum_values_by_number,
     ed_n_value_names = 12, ed_values_by_name = ipc_message__status__enum_values_by_name,
     ed_n_value_ranges = 1, ed_value_ranges = ipc_message__status__value_ranges\<rparr>"

definition ipc_message__field_descriptors :: "ProtobufCFieldDescriptor list" where
  "ipc_message__field_descriptors = [
     \<lparr>fd_name = ''transaction_msg'', fd_id = 1, fd_label = PROTOBUF_C_LABEL_OPTIONAL, fd_type = PROTOBUF_C_TYPE_BYTES,
      fd_quantifier_offset = Some ''has_transaction_msg'', fd_offset = ''transaction_msg'', fd_descriptor = None\<rparr>,
     \<lparr>fd_name = ''pubkey'', fd_id = 2, fd_label = PROTOBUF_C_LABEL_OPTIONAL, fd_type = PROTOBUF_C_TYPE_BYTES,
      fd_quantifier_offset = Some ''has_pubkey'', fd_offset = ''pubkey'', fd_descriptor = None\<rparr>,
     \<lparr>fd_name = ''timestamp'', fd_id = 3, fd_label = PROTOBUF_C_LABEL_REQUIRED, fd_type = PROTOBUF_C_TYPE_STRING,
      fd_quantifier_offset = None, fd_offset = ''timestamp'', fd_descriptor = None\<rparr>,
     \<lparr>fd_name = ''time_num'', fd_id = 4, fd_label = PROTOBUF_C_LABEL_REQUIRED, fd_type = PROTOBUF_C_TYPE_UINT64,
      fd_quantifier_offset = None, fd_offset = ''time_num'', fd_descriptor = None\<rparr>,
     \<lparr>fd_name = ''status_code'', fd_id = 5, fd_label = PROTOBUF_C_LABEL_REQUIRED, fd_type = PROTOBUF_C_TYPE_ENUM,
      fd_quantifier_offset = None, fd_offset = ''status_code'', fd_descriptor = Some ipc_message__status__descriptor\<rparr>]"

definition ipc_message__field_indices_by_name :: "nat list" where
  "ipc_message__field_indices_by_name = [1, 4, 3, 2, 0]"

definition ipc_message__number_ranges :: "ProtobufCIntRange list" where
  "ipc_message__number_ranges = [\<lparr>ir_start_value = 1, ir_orig_index = 0\<rparr>, \<lparr>ir_start_value = 0, ir_orig_index = 5\<rparr>]"

definition ipc_message__descriptor :: ProtobufCMessageDescriptor where
  "ipc_message__descriptor = \<lparr>
     md_name = ''IpcMessage'', md_short_name = ''IpcMessage'', md_c_name = ''IpcMessage'', md_package_name = '''',
     md_n_fields = 5, md_fields = ipc_message__field_descriptors,
     md_fields_sorted_by_name = ipc_message__field_indices_by_name,
     md_n_field_ranges = 1, md_field_ranges = ipc_message__number_ranges\<rparr>"

section \<open>Tables of the messages between peers\<close>

definition p2p__ipc_message__status__enum_values_by_number :: "ProtobufCEnumValue list" where
  "p2p__ipc_message__status__enum_values_by_number = [
     \<lparr>ev_name = ''TEST'', ev_c_name = ''P2P__IPC_MESSAGE__STATUS__TEST'', ev_value = 0\<rparr>,
     \<lparr>ev_name = ''OK'', ev_c_name = ''P2P__IPC_MESSAGE__STATUS__OK'', ev_value = 1\<rparr>,
     \<lparr>ev_name = ''ERROR'', ev_c_name = ''P2P__IPC_MESSAGE__STATUS__ERROR'', ev_value = 2\<rparr>,
     \<lparr>ev_name = ''FINISH'', ev_c_name = ''P2P__IPC_MESSAGE__STATUS__FINISH'', ev_value = 3\<rparr>,
     \<lparr>ev_name = ''WAIT'', ev_c_name = ''P2P__IPC_MESSAGE__STATUS__WAIT'', ev_value = 4\<rparr>,
     \<lparr>ev_name = ''BLOCK'', ev_c_name = ''P2P__IPC_MESSAGE__STATUS__BLOCK'', ev_value = 5\<rparr>,
     \<lparr>ev_name = ''PING'', ev_c_name = ''P2P__IPC_MESSAGE__STATUS__PING'', ev_value = 6\<rparr>,
     \<lparr>ev_name = ''PONG'', ev_c_name = ''P2P__IPC_MESSAGE__STATUS__PONG'', ev_value = 7\<rparr>,
     \<lparr>ev_name = ''ASK_IF_BLOCK_READY'', ev_c_name = ''P2P__IPC_MESSAGE__STATUS__ASK_IF_BLOCK_READY'', ev_value = 8\<rparr>,
     \<lparr>ev_name = ''BLOCK_READY'', ev_c_name = ''P2P__IPC_MESSAGE__STATUS__BLOCK_READY'', ev_value = 9\<rparr>,
     \<lparr>ev_name = ''BLOCK_NOT_READY'', ev_c_name = ''P2P__IPC_MESSAGE__STATUS__BLOCK_NOT_READY'', ev_value = 10\<rparr>,
     \<lparr>ev_name = ''ACKN'', ev_c_name = ''P2P__IPC_MESSAGE__STATUS__ACKN'', ev_value = 11\<rparr>]"

definition p2p__ipc_message__status__value_ranges :: "ProtobufCIntRange list" where
  "p2p__ipc_message__status__value_ranges = [\<lparr>ir_start_value = 0, ir_orig_index = 0\<rparr>, \<lparr>ir_start_value = 0, ir_orig_index = 12\<rparr>]"

definition p2p__ipc_message__status__enum_values_by_name :: "ProtobufCEnumValueIndex list" where
  "p2p__ipc_message__status__enum_values_by_name = [
     \<lparr>evi_name = ''ACKN'', evi_index = 11\<rparr>,
     \<lparr>evi_name = ''ASK_IF_BLOCK_READY'', evi_index = 8\<rparr>,
     \<lparr>evi_name = ''BLOCK'', evi_index = 5\<rparr>,
     \<lparr>evi_name = ''BLOCK_NOT_READY'', evi_index = 10\<rparr>,
     \<lparr>evi_name = ''BLOCK_READY'', evi_index = 9\<rparr>,
     \<lparr>evi_name = ''ERROR'', evi_index = 2\<rparr>,
     \<lparr>evi_name = ''FINISH'', evi_index = 3\<rparr>,
     \<lparr>evi_name = ''OK'', evi_index = 1\<rparr>,
     \<lparr>evi_name = ''PING'', evi_index = 6\<rparr>,
     \<lparr>evi_name = ''PONG'', evi_index = 7\<rparr>,
     \<lparr>evi_name = ''TEST'', evi_index = 0\<rparr>,
     \<lparr>evi_name = ''WAIT'', evi_index = 4\<rparr>]"

definition p2p__ipc_message__status__descriptor :: ProtobufCEnumDescriptor where
  "p2p__ipc_message__status__descriptor = \<lparr>
     ed_name = ''p2p_IpcMessage.Status'', ed_short_name = ''Status'', ed_c_name = ''P2pIpcMessage__Status'', ed_package_name = '''',
     ed_n_values = 12, ed_values = p2p__ipc_message__status__enum_values_by_number,
     ed_n_value_names = 12, ed_values_by_name = p2p__ipc_message__status__enum_values_by_name,
     ed_n_value_ranges = 1, ed_value_ranges = p2p__ipc_message__status__value_ranges\<rparr>"

definition p2p__ipc_message__field_descriptors :: "ProtobufCFieldDescriptor list" where
  "p2p__ipc_message__field_descriptors = [
     \<lparr>fd_name = ''date'', fd_id = 1, fd_label = PROTOBUF_C_LABEL_REQUIRED, fd_type = PROTOBUF_C_TYPE_STRING,
      fd_quantifier_offset = None, fd_offset = ''date'', fd_descriptor = None\<rparr>,
     \<lparr>fd_name = ''timestamp_begin'', fd_id = 2, fd_label = PROTOBUF_C_LABEL_OPTIONAL, fd_type = PROTOBUF_C_TYPE_UINT64,
      fd_quantifier_offset = Some ''has_timestamp_begin'', fd_offset = ''timestamp_begin'', fd_descriptor = None\<rparr>,
     \<lparr>fd_name = ''timestamp_end'', fd_id = 3, fd_label = PROTOBUF_C_LABEL_OPTIONAL, fd_type = PROTOBUF_C_TYPE_UINT64,
      fd_quantifier_offset = Some ''has_timestamp_end'', fd_offset = ''timestamp_end'', fd_descriptor = None\<rparr>,
     \<lparr>fd_name = ''difficulty'', fd_id = 4, fd_label = PROTOBUF_C_LABEL_OPTIONAL, fd_type = PROTOBUF_C_TYPE_UINT64,
      fd_quantifier_offset = Some ''has_difficulty'', fd_offset = ''difficulty'', fd_descriptor = None\<rparr>,
     \<lparr>fd_name = ''merkle_root'', fd_id = 5, fd_label = PROTOBUF_C_LABEL_OPTIONAL, fd_type = PROTOBUF_C_TYPE_BYTES,
      fd_quantifier_offset = Some ''has_merkle_root'', fd_offset = ''merkle_root'', fd_descriptor = None\<rparr>,
     \<lparr>fd_name = ''nonce'', fd_id = 6, fd_label = PROTOBUF_C_LABEL_OPTIONAL, fd_type = PROTOBUF_C_TYPE_BYTES,
      fd_quantifier_offset = Some ''has_nonce'', fd_offset = ''nonce'', fd_descriptor = None\<rparr>,
     \<lparr>fd_name = ''prev_block'', fd_id = 7, fd_label = PROTOBUF_C_LABEL_OPTIONAL, fd_type = PROTOBUF_C_TYPE_BYTES,
      fd_quantifier_offset = Some ''has_prev_block'', fd_offset = ''prev_block'', fd_descriptor = None\<rparr>,
     \<lparr>fd_name = ''status_code'', fd_id = 8, fd_label = PROTOBUF_C_LABEL_REQUIRED, fd_type = PROTOBUF_C_TYPE_ENUM,
      fd_quantifier_offset = None, fd_offset = ''status_code'', fd_descriptor = Some p2p__ipc_message__status__descriptor\<rparr>]"

definition p2p__ipc_message__field_indices_by_name :: "nat list" where
  "p2p__ipc_message__field_indices_by_name = [0, 3, 4, 5, 6, 7, 1, 2]"

definition p2p__ipc_message__number_ranges :: "ProtobufCIntRange list" where
  "p2p__ipc_message__number_ranges = [\<lparr>ir_start_value = 1, ir_orig_index = 0\<rparr>, \<lparr>ir_start_value = 0, ir_orig_index = 8\<rparr>]"

definition p2p__ipc_message__descriptor :: ProtobufCMessageDescriptor where
  "p2p__ipc_message__descriptor = \<lparr>
     md_name = ''p2p_IpcMessage'', md_short_name = ''P2pIpcMessage'', md_c_name = ''P2pIpcMessage'', md_package_name = '''',
     md_n_fields = 8, md_fields = p2p__ipc_message__field_descriptors,
     md_fields_sorted_by_name = p2p__ipc_message__field_indices_by_name,
     md_n_field_ranges = 1, md_field_ranges = p2p__ipc_message__number_ranges\<rparr>"

section \<open>What the library expects of the tables\<close>

text \<open>The order of \<open>strcmp\<close>, by which the library searches names.\<close>

fun str_less :: "string \<Rightarrow> string \<Rightarrow> bool" where
  "str_less (x # xs) (y # ys) \<longleftrightarrow> (of_char x :: nat) < of_char y \<or> x = y \<and> str_less xs ys"
| "str_less [] (y # ys) \<longleftrightarrow> True"
| "str_less xs [] \<longleftrightarrow> False"

text \<open>The numbers a table of ranges describes: a range starts at \<open>start_value\<close> and has as many numbers as
  there are entries up to the \<open>orig_index\<close> of the next range; the last entry is a sentinel.\<close>

fun range_keys :: "ProtobufCIntRange list \<Rightarrow> int list" where
  "range_keys (r # r' # rs) =
     map (\<lambda>k. ir_start_value r + int k) [0..<ir_orig_index r' - ir_orig_index r] @ range_keys (r' # rs)"
| "range_keys rs = []"

definition ranges_ok :: "nat \<Rightarrow> ProtobufCIntRange list \<Rightarrow> int list \<Rightarrow> bool" where
  "ranges_ok n rs keys \<longleftrightarrow> length rs = n + 1 \<and> ir_orig_index (rs ! 0) = 0 \<and>
     sorted (map ir_orig_index rs) \<and> range_keys rs = keys"

definition enum_descriptor_wf :: "ProtobufCEnumDescriptor \<Rightarrow> bool" where
  "enum_descriptor_wf d \<longleftrightarrow>
     length (ed_values d) = ed_n_values d \<and> length (ed_values_by_name d) = ed_n_value_names d \<and>
     sorted_wrt (<) (map ev_value (ed_values d)) \<and>
     sorted_wrt str_less (map evi_name (ed_values_by_name d)) \<and>
     list_all (\<lambda>i. evi_index i < ed_n_values d \<and> ev_name (ed_values d ! evi_index i) = evi_name i) (ed_values_by_name d) \<and>
     set (map evi_index (ed_values_by_name d)) = {0..<ed_n_values d} \<and>
     ranges_ok (ed_n_value_ranges d) (ed_value_ranges d) (map ev_value (ed_values d))"

definition field_descriptor_wf :: "ProtobufCFieldDescriptor \<Rightarrow> bool" where
  "field_descriptor_wf f \<longleftrightarrow> 0 < fd_id f \<and> fd_offset f = fd_name f \<and>
     (fd_quantifier_offset f = (if fd_label f = PROTOBUF_C_LABEL_OPTIONAL then Some (''has_'' @ fd_name f) else None)) \<and>
     (case fd_descriptor f of None \<Rightarrow> fd_type f \<noteq> PROTOBUF_C_TYPE_ENUM
      | Some e \<Rightarrow> fd_type f = PROTOBUF_C_TYPE_ENUM \<and> enum_descriptor_wf e)"

definition message_descriptor_wf :: "ProtobufCMessageDescriptor \<Rightarrow> bool" where
  "message_descriptor_wf d \<longleftrightarrow>
     length (md_fields d) = md_n_fields d \<and> list_all field_descriptor_wf (md_fields d) \<and>
     sorted_wrt (<) (map fd_id (md_fields d)) \<and>
     sorted_wrt str_less (map (\<lambda>i. fd_name (md_fields d ! i)) (md_fields_sorted_by_name d)) \<and>
     length (md_fields_sorted_by_name d) = md_n_fields d \<and>
     set (md_fields_sorted_by_name d) = {0..<md_n_fields d} \<and>
     ranges_ok (md_n_field_ranges d) (md_field_ranges d) (map (int \<circ> fd_id) (md_fields d))"

lemmas ipc_tables = ipc_message__descriptor_def ipc_message__field_descriptors_def ipc_message__field_indices_by_name_def
  ipc_message__number_ranges_def

lemmas ipc_status_tables = ipc_message__status__descriptor_def ipc_message__status__enum_values_by_number_def
  ipc_message__status__value_ranges_def ipc_message__status__enum_values_by_name_def

lemmas p2p_tables = p2p__ipc_message__descriptor_def p2p__ipc_message__field_descriptors_def
  p2p__ipc_message__field_indices_by_name_def p2p__ipc_message__number_ranges_def

lemmas p2p_status_tables = p2p__ipc_message__status__descriptor_def p2p__ipc_message__status__enum_values_by_number_def
  p2p__ipc_message__status__value_ranges_def p2p__ipc_message__status__enum_values_by_name_def

lemma ipc_status_wf: "enum_descriptor_wf ipc_message__status__descriptor"
  by code_simp

lemma p2p_status_wf: "enum_descriptor_wf p2p__ipc_message__status__descriptor"
  by code_simp

lemma ipc_descriptor_wf: "message_descriptor_wf ipc_message__descriptor"
  by code_simp

lemma p2p_descriptor_wf: "message_descriptor_wf p2p__ipc_message__descriptor"
  by code_simp

section \<open>Messages as values typed by a descriptor\<close>

datatype field_value = FBytes bytes | FString bytes | FUInt64 u64 | FEnum u32

primrec value_type :: "field_value \<Rightarrow> ProtobufCType" where
  "value_type (FBytes b) = PROTOBUF_C_TYPE_BYTES"
| "value_type (FString s) = PROTOBUF_C_TYPE_STRING"
| "value_type (FUInt64 n) = PROTOBUF_C_TYPE_UINT64"
| "value_type (FEnum c) = PROTOBUF_C_TYPE_ENUM"

definition conforms :: "ProtobufCFieldDescriptor \<Rightarrow> field_value option \<Rightarrow> bool" where
  "conforms f v \<longleftrightarrow> (case v of None \<Rightarrow> fd_label f = PROTOBUF_C_LABEL_OPTIONAL | Some x \<Rightarrow> value_type x = fd_type f)"

definition ipc_fields :: "IpcMessage \<Rightarrow> field_value option list" where
  "ipc_fields m = [map_option FBytes (im_transaction_msg m), map_option FBytes (im_pubkey m),
     Some (FString (im_timestamp m)), Some (FUInt64 (im_time_num m)), Some (FEnum (im_status_code m))]"

definition p2p_fields :: "P2pIpcMessage \<Rightarrow> field_value option list" where
  "p2p_fields m = [Some (FString (pm_date m)), map_option FUInt64 (pm_timestamp_begin m),
     map_option FUInt64 (pm_timestamp_end m), map_option FUInt64 (pm_difficulty m),
     map_option FBytes (pm_merkle_root m), map_option FBytes (pm_nonce m), map_option FBytes (pm_prev_block m),
     Some (FEnum (pm_status_code m))]"

text \<open>The message of a list of values; a list that does not conform to the descriptor has none.\<close>

fun the_bytes :: "field_value \<Rightarrow> bytes" where
  "the_bytes (FBytes b) = b"
| "the_bytes (FString s) = s"
| "the_bytes v = []"

fun the_num :: "field_value \<Rightarrow> u64" where
  "the_num (FUInt64 n) = n"
| "the_num v = 0"

fun the_code :: "field_value \<Rightarrow> u32" where
  "the_code (FEnum c) = c"
| "the_code v = 0"

definition ipc_of_fields :: "field_value option list \<Rightarrow> IpcMessage option" where
  "ipc_of_fields vs = (if list_all2 conforms (md_fields ipc_message__descriptor) vs
     then Some \<lparr>im_transaction_msg = map_option the_bytes (vs ! 0), im_pubkey = map_option the_bytes (vs ! 1),
       im_timestamp = the_bytes (the (vs ! 2)), im_time_num = the_num (the (vs ! 3)),
       im_status_code = the_code (the (vs ! 4))\<rparr> else None)"

definition p2p_of_fields :: "field_value option list \<Rightarrow> P2pIpcMessage option" where
  "p2p_of_fields vs = (if list_all2 conforms (md_fields p2p__ipc_message__descriptor) vs
     then Some \<lparr>pm_date = the_bytes (the (vs ! 0)), pm_timestamp_begin = map_option the_num (vs ! 1),
       pm_timestamp_end = map_option the_num (vs ! 2), pm_difficulty = map_option the_num (vs ! 3),
       pm_merkle_root = map_option the_bytes (vs ! 4), pm_nonce = map_option the_bytes (vs ! 5),
       pm_prev_block = map_option the_bytes (vs ! 6), pm_status_code = the_code (the (vs ! 7))\<rparr> else None)"

lemma value_type_cases:
  "value_type v = PROTOBUF_C_TYPE_BYTES \<longleftrightarrow> (\<exists>b. v = FBytes b)"
  "value_type v = PROTOBUF_C_TYPE_STRING \<longleftrightarrow> (\<exists>s. v = FString s)"
  "value_type v = PROTOBUF_C_TYPE_UINT64 \<longleftrightarrow> (\<exists>n. v = FUInt64 n)"
  "value_type v = PROTOBUF_C_TYPE_ENUM \<longleftrightarrow> (\<exists>c. v = FEnum c)"
  by (cases v; simp)+

lemma conforms_optional:
  assumes "conforms f v"
  shows "fd_type f = PROTOBUF_C_TYPE_BYTES \<Longrightarrow> map_option FBytes (map_option the_bytes v) = v"
    and "fd_type f = PROTOBUF_C_TYPE_UINT64 \<Longrightarrow> map_option FUInt64 (map_option the_num v) = v"
  using assms by (cases v; auto simp: conforms_def value_type_cases)+

lemma conforms_required:
  assumes "conforms f v" "fd_label f = PROTOBUF_C_LABEL_REQUIRED"
  shows "fd_type f = PROTOBUF_C_TYPE_STRING \<Longrightarrow> Some (FString (the_bytes (the v))) = v"
    and "fd_type f = PROTOBUF_C_TYPE_UINT64 \<Longrightarrow> Some (FUInt64 (the_num (the v))) = v"
    and "fd_type f = PROTOBUF_C_TYPE_ENUM \<Longrightarrow> Some (FEnum (the_code (the v))) = v"
  using assms by (cases v; auto simp: conforms_def value_type_cases)+

lemma conforms_map_option [simp]:
  "fd_label f = PROTOBUF_C_LABEL_OPTIONAL \<Longrightarrow> (\<And>x. value_type (g x) = fd_type f) \<Longrightarrow> conforms f (map_option g v)"
  by (cases v) (simp_all add: conforms_def)

lemma ipc_fields_conform: "list_all2 conforms (md_fields ipc_message__descriptor) (ipc_fields m)"
  by (simp add: ipc_tables ipc_fields_def) (simp add: conforms_def)

lemma p2p_fields_conform: "list_all2 conforms (md_fields p2p__ipc_message__descriptor) (p2p_fields m)"
  by (simp add: p2p_tables p2p_fields_def) (simp add: conforms_def)

lemma ipc_of_fields_fields [simp]: "ipc_of_fields (ipc_fields m) = Some m"
  using ipc_fields_conform [of m] by (simp add: ipc_of_fields_def) (simp add: ipc_fields_def option.map_comp comp_def option.map_ident)

lemma p2p_of_fields_fields [simp]: "p2p_of_fields (p2p_fields m) = Some m"
  using p2p_fields_conform [of m] by (simp add: p2p_of_fields_def) (simp add: p2p_fields_def option.map_comp comp_def option.map_ident)

lemma ipc_fields_of_fields: "ipc_of_fields vs = Some m \<Longrightarrow> ipc_fields m = vs"
  by (clarsimp simp: ipc_of_fields_def ipc_fields_def ipc_tables list_all2_Cons1 split: if_splits)
    (simp add: conforms_optional conforms_required)

lemma p2p_fields_of_fields: "p2p_of_fields vs = Some m \<Longrightarrow> p2p_fields m = vs"
  by (clarsimp simp: p2p_of_fields_def p2p_fields_def p2p_tables list_all2_Cons1 split: if_splits)
    (simp add: conforms_optional conforms_required)

lemma ipc_fields_inject [simp]: "ipc_fields m = ipc_fields m' \<longleftrightarrow> m = m'"
  by (metis ipc_of_fields_fields option.inject)

lemma p2p_fields_inject [simp]: "p2p_fields m = p2p_fields m' \<longleftrightarrow> m = m'"
  by (metis p2p_of_fields_fields option.inject)

definition ipc_statuses :: "IpcMessage__Status list" where
  "ipc_statuses = [IPC_MESSAGE__STATUS__TEST, IPC_MESSAGE__STATUS__OK, IPC_MESSAGE__STATUS__ERROR,
     IPC_MESSAGE__STATUS__FINISH, IPC_MESSAGE__STATUS__WAIT, IPC_MESSAGE__STATUS__ASK_NEED_MSG,
     IPC_MESSAGE__STATUS__NEED_MORE, IPC_MESSAGE__STATUS__ACKN_OK, IPC_MESSAGE__STATUS__MESSAGE_SENDED,
     IPC_MESSAGE__STATUS__ENOUGH, IPC_MESSAGE__STATUS__ALL_BLOCK_MSG_SENDED, IPC_MESSAGE__STATUS__ALL_BLOCK_RECEIVED]"

definition p2p_statuses :: "P2pIpcMessage__Status list" where
  "p2p_statuses = [P2P__IPC_MESSAGE__STATUS__TEST, P2P__IPC_MESSAGE__STATUS__OK, P2P__IPC_MESSAGE__STATUS__ERROR,
     P2P__IPC_MESSAGE__STATUS__FINISH, P2P__IPC_MESSAGE__STATUS__WAIT, P2P__IPC_MESSAGE__STATUS__BLOCK,
     P2P__IPC_MESSAGE__STATUS__PING, P2P__IPC_MESSAGE__STATUS__PONG, P2P__IPC_MESSAGE__STATUS__ASK_IF_BLOCK_READY,
     P2P__IPC_MESSAGE__STATUS__BLOCK_READY, P2P__IPC_MESSAGE__STATUS__BLOCK_NOT_READY, P2P__IPC_MESSAGE__STATUS__ACKN]"

text \<open>
  C24.  The generated tables of both message types are well formed (numbers and names strictly ordered,
  the index tables permutations that name the right entries, the ranges covering exactly the numbers, every
  optional field with its presence flag, the status field with its enumeration), they type exactly the
  messages of the program: a list of values conforms to the field descriptors if and only if it is the
  content of one message, and the numbers of the enumerations are the codes of the status constants.
\<close>

theorem descriptors_type_messages:
  "message_descriptor_wf ipc_message__descriptor \<and> message_descriptor_wf p2p__ipc_message__descriptor \<and>
   (\<forall>vs. list_all2 conforms (md_fields ipc_message__descriptor) vs \<longleftrightarrow> (\<exists>!m. ipc_fields m = vs)) \<and>
   (\<forall>vs. list_all2 conforms (md_fields p2p__ipc_message__descriptor) vs \<longleftrightarrow> (\<exists>!m. p2p_fields m = vs)) \<and>
   map ev_value (ed_values ipc_message__status__descriptor) = map (uint \<circ> ipc_code) ipc_statuses \<and>
   map ev_value (ed_values p2p__ipc_message__status__descriptor) = map (uint \<circ> p2p_code) p2p_statuses"
proof (intro conjI allI)
  show "list_all2 conforms (md_fields ipc_message__descriptor) vs \<longleftrightarrow> (\<exists>!m. ipc_fields m = vs)" for vs
    using ipc_fields_conform ipc_fields_of_fields [of vs] by (metis ipc_fields_inject ipc_of_fields_def)
  show "list_all2 conforms (md_fields p2p__ipc_message__descriptor) vs \<longleftrightarrow> (\<exists>!m. p2p_fields m = vs)" for vs
    using p2p_fields_conform p2p_fields_of_fields [of vs] by (metis p2p_fields_inject p2p_of_fields_def)
qed (simp_all add: ipc_descriptor_wf p2p_descriptor_wf ipc_status_tables p2p_status_tables ipc_statuses_def p2p_statuses_def)

end
