(* ===== verification/WireFormat.thy ===== *)
theory WireFormat
  imports Descriptors
begin

text \<open>
  The documented protobuf encoding, driven by the descriptor tables: a field is a varint tag (number and
  wire type) followed by a varint or by a length and bytes; fields come in the order of their numbers,
  unset optional fields are left out; a reader skips fields it does not know, takes the last value of a
  field that occurs several times, and gives no message if the bytes are malformed, if a field has the
  wrong wire type or if a required field is missing.  \<open>wire_pb\<close> instantiates the library parameter of the
  model with it, so that the laws supposed of the library are seen to be satisfiable together; it is not the library itself.  Its
  freed messages stay readable and the memory behind its strings is zero, which is one possibility among all that
  \<open>with_reads\<close> gives.
\<close>

section \<open>Varints\<close>

fun varint :: "nat \<Rightarrow> bytes" where
  "varint n = (if n < 128 then [of_nat n] else of_nat (n mod 128 + 128) # varint (n div 128))"

declare varint.simps [simp del]

fun get_varint :: "nat \<Rightarrow> bytes \<Rightarrow> (nat \<times> bytes) option" where
  "get_varint (Suc k) (b # bs) =
     (if unat b < 128 then Some (unat b, bs)
      else do {
        (n, bs) \<leftarrow> get_varint k bs;
        Some (unat b - 128 + 128 * n, bs)
      })"
| "get_varint k bs = None"

lemma get_varint_varint: "n < 128 ^ k \<Longrightarrow> 0 < k \<Longrightarrow> get_varint k (varint n @ r) = Some (n, r)"
proof (induction n arbitrary: k rule: varint.induct)
  case (1 n)
  obtain j where k: "k = Suc j" using 1(3) by (cases k) auto
  show ?case
  proof (cases "n < 128")
    case True
    then have "unat (of_nat n :: byte) = n" by (simp add: unat_of_nat)
    then show ?thesis using True k by (simp add: varint.simps)
  next
    case False
    have b: "unat (of_nat (n mod 128 + 128) :: byte) = n mod 128 + 128"
      by (simp add: unat_of_nat take_bit_nat_eq_self_iff del: of_nat_add)
    have "n div 128 < 128 ^ j" using 1(2) k by (simp add: less_mult_imp_div_less mult.commute)
    moreover have "0 < j" using False 1(2) k by (cases j) auto
    ultimately show ?thesis using 1(1) [OF False] False k b by (subst varint.simps) simp
  qed
qed

lemma length_varint_le: "n < 128 ^ k \<Longrightarrow> 0 < k \<Longrightarrow> length (varint n) \<le> k"
proof (induction k arbitrary: n)
  case (Suc k)
  show ?case
  proof (cases "n < 128")
    case False
    then have "n div 128 < 128 ^ k" "0 < k" using Suc(2) by (cases k; auto simp: less_mult_imp_div_less mult.commute)+
    then show ?thesis using Suc(1) False by (subst varint.simps) simp
  qed (simp add: varint.simps)
qed simp

lemma varint_nonempty [simp]: "varint n \<noteq> []"
  by (subst varint.simps) simp

lemma get_varint_shorter: "get_varint k bs = Some (n, r) \<Longrightarrow> length r < length bs"
  by (induction k bs arbitrary: n r rule: get_varint.induct) (force split: if_splits simp: bind_eq_Some_conv)+

lemma get_varint_append: "get_varint k bs = Some (n, r) \<Longrightarrow> get_varint k (bs @ xs) = Some (n, r @ xs)"
  by (induction k bs arbitrary: n r rule: get_varint.induct) (auto split: if_splits simp: bind_eq_Some_conv)

section \<open>Fields\<close>

datatype raw_value = RVarint u64 | RFixed64 bytes | RBytes bytes | RFixed32 bytes

definition get_chunk :: "nat \<Rightarrow> bytes \<Rightarrow> (bytes \<times> bytes) option" where
  "get_chunk n bs = (if n \<le> length bs then Some (take n bs, drop n bs) else None)"

definition get_value :: "nat \<Rightarrow> bytes \<Rightarrow> (raw_value \<times> bytes) option" where
  "get_value wire_type bs =
     (if wire_type = 0 then do { (n, bs) \<leftarrow> get_varint 10 bs; Some (RVarint (of_nat n), bs) }
      else if wire_type = 1 then do { (c, bs) \<leftarrow> get_chunk 8 bs; Some (RFixed64 c, bs) }
      else if wire_type = 2 then do { (n, bs) \<leftarrow> get_varint 5 bs; (c, bs) \<leftarrow> get_chunk n bs; Some (RBytes c, bs) }
      else if wire_type = 5 then do { (c, bs) \<leftarrow> get_chunk 4 bs; Some (RFixed32 c, bs) }
      else None)"

definition get_field :: "bytes \<Rightarrow> ((nat \<times> raw_value) \<times> bytes) option" where
  "get_field bs = do {
     (tag, bs) \<leftarrow> get_varint 5 bs;
     (v, bs) \<leftarrow> get_value (tag mod 8) bs;
     Some ((tag div 8, v), bs)
   }"

lemma get_chunk_shorter: "get_chunk n bs = Some (c, r) \<Longrightarrow> length r \<le> length bs"
  by (auto simp: get_chunk_def split: if_splits)

lemma get_chunk_append: "get_chunk n bs = Some (c, r) \<Longrightarrow> get_chunk n (bs @ xs) = Some (c, r @ xs)"
  by (auto simp: get_chunk_def split: if_splits)

lemma get_value_shorter: "get_value w bs = Some (v, r) \<Longrightarrow> length r \<le> length bs"
  by (auto simp: get_value_def bind_eq_Some_conv split: if_splits
      dest!: get_varint_shorter get_chunk_shorter)

lemma get_value_append: "get_value w bs = Some (v, r) \<Longrightarrow> get_value w (bs @ xs) = Some (v, r @ xs)"
  by (auto simp: get_value_def bind_eq_Some_conv get_varint_append get_chunk_append split: if_splits)

lemma get_field_shorter: "get_field bs = Some (x, r) \<Longrightarrow> length r < length bs"
  by (auto simp: get_field_def bind_eq_Some_conv dest!: get_varint_shorter get_value_shorter)

lemma get_field_append: "get_field bs = Some (x, r) \<Longrightarrow> get_field (bs @ xs) = Some (x, r @ xs)"
  by (auto simp: get_field_def bind_eq_Some_conv get_varint_append get_value_append)

function get_fields :: "bytes \<Rightarrow> (nat \<times> raw_value) list option" where
  "get_fields bs =
     (if bs = [] then Some []
      else (case get_field bs of None \<Rightarrow> None
        | Some (x, r) \<Rightarrow> map_option ((#) x) (get_fields r)))"
  by pat_completeness auto

termination
  by (relation "measure length") (auto dest: get_field_shorter)

declare get_fields.simps [simp del]

lemma get_fields_Nil [simp]: "get_fields [] = Some []"
  by (simp add: get_fields.simps)

lemma get_fields_step: "get_field bs = Some (x, r) \<Longrightarrow> get_fields bs = map_option ((#) x) (get_fields r)"
  by (subst get_fields.simps) (auto dest: get_field_shorter)

lemma get_fields_append:
  "get_fields bs = Some xs \<Longrightarrow> get_fields (bs @ cs) = map_option ((@) xs) (get_fields cs)"
proof (induction bs arbitrary: xs rule: get_fields.induct)
  case (1 bs)
  show ?case
  proof (cases "bs = []")
    case False
    then obtain x r ys where f: "get_field bs = Some (x, r)" "get_fields r = Some ys" "xs = x # ys"
      using 1(2) by (subst (asm) get_fields.simps) (auto split: option.splits)
    then have "get_fields (r @ cs) = map_option ((@) ys) (get_fields cs)" using 1(1) False by simp
    then show ?thesis
      using f get_fields_step [OF get_field_append [OF f(1)]] by (simp add: option.map_comp comp_def)
  qed (use 1(2) in \<open>simp add: option.map_ident\<close>)
qed

text \<open>The raw value of a field: a number is a varint, an enumeration a sign-extended one, a string goes up
  to its terminator.\<close>

primrec raw_of :: "field_value \<Rightarrow> raw_value" where
  "raw_of (FBytes b) = RBytes b"
| "raw_of (FString s) = RBytes (cstr s)"
| "raw_of (FUInt64 n) = RVarint n"
| "raw_of (FEnum c) = RVarint (scast c)"

fun value_of :: "ProtobufCType \<Rightarrow> raw_value \<Rightarrow> field_value option" where
  "value_of PROTOBUF_C_TYPE_BYTES (RBytes b) = Some (FBytes b)"
| "value_of PROTOBUF_C_TYPE_STRING (RBytes b) = Some (FString (cstr b))"
| "value_of PROTOBUF_C_TYPE_UINT64 (RVarint n) = Some (FUInt64 n)"
| "value_of PROTOBUF_C_TYPE_ENUM (RVarint n) = Some (FEnum (ucast n))"
| "value_of t r = None"

primrec put_raw :: "nat \<Rightarrow> raw_value \<Rightarrow> bytes" where
  "put_raw number (RVarint n) = varint (8 * number) @ varint (unat n)"
| "put_raw number (RFixed64 c) = varint (8 * number + 1) @ c"
| "put_raw number (RBytes c) = varint (8 * number + 2) @ varint (length c) @ c"
| "put_raw number (RFixed32 c) = varint (8 * number + 5) @ c"

text \<open>Values that are written without loss.\<close>

primrec value_ok :: "field_value \<Rightarrow> bool" where
  "value_ok (FBytes b) \<longleftrightarrow> length b < 2 ^ 32"
| "value_ok (FString s) \<longleftrightarrow> length s < 2 ^ 32 \<and> 0 \<notin> set s"
| "value_ok (FUInt64 n) \<longleftrightarrow> True"
| "value_ok (FEnum c) \<longleftrightarrow> True"

lemma cstr_self: "0 \<notin> set s \<Longrightarrow> cstr s = s"
  unfolding cstr_def by (induction s) auto

lemma ucast_scast_code: "ucast (scast c :: u64) = (c :: u32)"
  by (rule bit_word_eqI) (simp add: bit_simps)

lemma value_of_raw_of: "value_ok v \<Longrightarrow> value_of (value_type v) (raw_of v) = Some v"
  by (cases v) (simp_all add: cstr_self ucast_scast_code)

lemma value_of_type: "value_of t r = Some v \<Longrightarrow> value_type v = t"
  by (cases "(t, r)" rule: value_of.cases) auto

lemma unat_less_weaken: "2 ^ 64 \<le> k \<Longrightarrow> unat (n :: u64) < k"
  using unsigned_less [of n] by (rule less_le_trans) simp

lemma get_field_put_raw:
  assumes "number < 2 ^ 29" "value_ok v"
  shows "get_field (put_raw number (raw_of v) @ r) = Some ((number, raw_of v), r)"
proof -
  have tag: "get_varint 5 (varint (8 * number + t) @ x) = Some (8 * number + t, x)" if "t < 8" for t x
    using assms(1) that by (intro get_varint_varint) auto
  have num: "get_varint 10 (varint (unat n) @ x) = Some (unat n, x)" for n :: u64 and x
    by (intro get_varint_varint) (simp_all add: unat_less_weaken)
  have len: "get_varint 5 (varint (length c) @ x) = Some (length c, x)" if "length c < 2 ^ 32" for c x :: bytes
    using that by (intro get_varint_varint) auto
  have "Suc (Suc (8 * number)) mod 8 = 2" "Suc (Suc (8 * number)) div 8 = number" by presburger+
  then show ?thesis
    using assms(2) tag [of 0] tag [of 2]
    by (cases v) (simp_all add: get_field_def get_value_def get_chunk_def num len cstr_self)
qed

section \<open>Messages\<close>

definition put_field :: "ProtobufCFieldDescriptor \<Rightarrow> field_value option \<Rightarrow> bytes" where
  "put_field f v = (case v of None \<Rightarrow> [] | Some x \<Rightarrow> put_raw (fd_id f) (raw_of x))"

definition encode :: "ProtobufCFieldDescriptor list \<Rightarrow> field_value option list \<Rightarrow> bytes" where
  "encode fs vs = concat (map2 put_field fs vs)"

text \<open>One value of the values read for a field: none may be ill typed, the last one counts.\<close>

definition pick :: "ProtobufCLabel \<Rightarrow> 'a option list \<Rightarrow> 'a option option" where
  "pick l vs = (if None \<in> set vs then None
     else if vs = [] then (if l = PROTOBUF_C_LABEL_OPTIONAL then Some None else None)
     else Some (last vs))"

definition field_of :: "(nat \<times> raw_value) list \<Rightarrow> ProtobufCFieldDescriptor \<Rightarrow> field_value option option" where
  "field_of raws f = pick (fd_label f) (map (value_of (fd_type f) \<circ> snd) (filter (\<lambda>x. fst x = fd_id f) raws))"

definition decode :: "ProtobufCFieldDescriptor list \<Rightarrow> bytes \<Rightarrow> field_value option list option" where
  "decode fs bs = do {
     raws \<leftarrow> get_fields bs;
     those (map (field_of raws) fs)
   }"

definition raws_of :: "ProtobufCFieldDescriptor \<Rightarrow> field_value option \<Rightarrow> (nat \<times> raw_value) list" where
  "raws_of f v = (case v of None \<Rightarrow> [] | Some x \<Rightarrow> [(fd_id f, raw_of x)])"

lemma get_fields_put_field:
  assumes "fd_id f < 2 ^ 29" "pred_option value_ok v"
  shows "get_fields (put_field f v) = Some (raws_of f v)"
proof (cases v)
  case (Some x)
  then show ?thesis
    using assms get_fields_step [OF get_field_put_raw [where r = "[]"]] by (simp add: put_field_def raws_of_def)
qed (simp add: put_field_def raws_of_def)

lemma get_fields_encode:
  assumes "length fs = length vs" "list_all (\<lambda>f. fd_id f < 2 ^ 29) fs" "list_all (pred_option value_ok) vs"
  shows "get_fields (encode fs vs) = Some (concat (map2 raws_of fs vs))"
  using assms
proof (induction fs vs rule: list_induct2)
  case (Cons f fs v vs)
  then have "get_fields (encode fs vs) = Some (concat (map2 raws_of fs vs))" by simp
  with get_fields_append [OF get_fields_put_field [of f v]] Cons(3,4) show ?case
    by (simp add: encode_def)
qed (simp add: encode_def)

lemma those_eq: "those (map g fs) = Some vs \<longleftrightarrow> list_all2 (\<lambda>f v. g f = Some v) fs vs"
proof (induction fs arbitrary: vs)
  case (Cons f fs)
  show ?case by (cases vs; cases "g f") (auto simp: Cons)
qed auto

lemma filter_raws:
  assumes "length fs = length vs" "distinct (map fd_id fs)" "(f, v) \<in> set (zip fs vs)"
  shows "filter (\<lambda>x. fst x = fd_id f) (concat (map2 raws_of fs vs)) = raws_of f v"
  using assms
proof (induction fs vs rule: list_induct2)
  case (Cons g gs w ws)
  have none: "filter (\<lambda>x. fst x = n) (concat (map2 raws_of gs ws)) = []" if "n \<notin> fd_id ` set gs" for n
    using that by (auto simp: raws_of_def filter_empty_conv split: option.splits dest: set_zip_leftD)
  have one: "filter (\<lambda>x. fst x = n) (raws_of g w) = (if n = fd_id g then raws_of g w else [])" for n
    by (cases w) (simp_all add: raws_of_def)
  show ?case
  proof (cases "(f, v) = (g, w)")
    case True
    then show ?thesis using none [of "fd_id g"] one Cons by simp
  next
    case False
    then have "(f, v) \<in> set (zip gs ws)" using Cons by auto
    moreover have "fd_id f \<noteq> fd_id g" using imageI [OF set_zip_leftD [OF calculation], of fd_id] Cons by auto
    ultimately show ?thesis using one Cons by simp
  qed
qed simp

lemma field_of_raws:
  "conforms f v \<Longrightarrow> pred_option value_ok v \<Longrightarrow> filter (\<lambda>x. fst x = fd_id f) raws = raws_of f v \<Longrightarrow> field_of raws f = Some v"
  using value_of_raw_of [of "the v"] by (cases v) (auto simp: field_of_def pick_def raws_of_def conforms_def)

lemma decode_encode:
  assumes "list_all2 conforms fs vs" "distinct (map fd_id fs)" "list_all (\<lambda>f. fd_id f < 2 ^ 29) fs"
    and "list_all (pred_option value_ok) vs"
  shows "decode fs (encode fs vs) = Some vs"
proof -
  let ?raws = "concat (map2 raws_of fs vs)"
  have "field_of ?raws f = Some v" if "(f, v) \<in> set (zip fs vs)" for f v
    using filter_raws [OF list_all2_lengthD [OF assms(1)] assms(2) that] that assms(1,4) list_all2_iff [of conforms fs vs]
    by (intro field_of_raws) (auto simp: list_all_iff dest: set_zip_rightD)
  then have "list_all2 (\<lambda>f v. field_of ?raws f = Some v) fs vs"
    using list_all2_lengthD [OF assms(1)] by (auto simp: list_all2_iff)
  then show ?thesis
    using get_fields_encode [OF list_all2_lengthD [OF assms(1)] assms(3,4)] by (simp add: decode_def those_eq)
qed

lemma pick_cases:
  assumes "pick l vs = Some v"
  obtains "vs = []" "v = None" "l = PROTOBUF_C_LABEL_OPTIONAL" | x us where "vs = us @ [Some x]" "v = Some x" "None \<notin> set us"
  using assms by (cases vs rule: rev_cases; cases v) (auto simp: pick_def split: if_splits)

lemma field_of_conforms: "field_of raws f = Some v \<Longrightarrow> conforms f v"
  unfolding field_of_def
  by (erule pick_cases) (auto simp: conforms_def map_eq_append_conv dest: value_of_type [OF sym])

lemma decode_conforms: "decode fs bs = Some vs \<Longrightarrow> list_all2 conforms fs vs"
  by (auto simp: decode_def bind_eq_Some_conv those_eq intro: list_all2_mono field_of_conforms)

text \<open>Concatenated encodings are read as one message: the later value of each field wins.\<close>

definition merge_value :: "'a option \<Rightarrow> 'a option \<Rightarrow> 'a option" where
  "merge_value a b = (case b of None \<Rightarrow> a | Some y \<Rightarrow> Some y)"

lemma merge_value_simps [simp]:
  "merge_value a None = a" "merge_value a (Some y) = Some y"
  "map_option g (merge_value a b) = merge_value (map_option g a) (map_option g b)"
  by (simp_all add: merge_value_def split: option.split)

lemma pick_append: "pick l us = Some a \<Longrightarrow> pick l vs = Some b \<Longrightarrow> pick l (us @ vs) = Some (merge_value a b)"
  by (elim pick_cases) (auto simp: pick_def)

lemma field_of_append: "field_of xs f = Some a \<Longrightarrow> field_of ys f = Some b \<Longrightarrow> field_of (xs @ ys) f = Some (merge_value a b)"
  by (simp add: field_of_def pick_append)

lemma decode_append:
  assumes "decode fs bs = Some us" "decode fs cs = Some vs"
  shows "decode fs (bs @ cs) = Some (map2 merge_value us vs)"
proof -
  obtain xs ys where r: "get_fields bs = Some xs" "get_fields cs = Some ys"
      "list_all2 (\<lambda>f v. field_of xs f = Some v) fs us" "list_all2 (\<lambda>f v. field_of ys f = Some v) fs vs"
    using assms by (auto simp: decode_def bind_eq_Some_conv those_eq)
  have "list_all2 (\<lambda>f v. field_of (xs @ ys) f = Some v) fs (map2 merge_value us vs)"
    using r(3,4) by (auto simp: list_all2_conv_all_nth intro: field_of_append)
  then show ?thesis using get_fields_append [OF r(1), of cs] r(2) by (simp add: decode_def those_eq)
qed

section \<open>Message types\<close>

text \<open>What a codec needs of a message type: its field table, and that its messages are exactly the lists of
  values the table types.\<close>

locale message_type =
  fixes fields :: "ProtobufCFieldDescriptor list"
    and to_fields :: "'m \<Rightarrow> field_value option list"
    and of_fields :: "field_value option list \<Rightarrow> 'm option"
  assumes to_conforms: "list_all2 conforms fields (to_fields m)"
    and of_to: "of_fields (to_fields m) = Some m"
    and to_of: "of_fields vs = Some m \<Longrightarrow> to_fields m = vs"
    and ids_distinct: "distinct (map fd_id fields)"
    and ids_small: "list_all (\<lambda>f. fd_id f < 2 ^ 29) fields"
    and last_required: "fields \<noteq> [] \<and> fd_label (last fields) = PROTOBUF_C_LABEL_REQUIRED"
begin

lemma decode_encoded:
  "list_all (pred_option value_ok) (to_fields m) \<Longrightarrow> (decode fields (encode fields (to_fields m)) \<bind> of_fields) = Some m"
  using decode_encode [OF to_conforms ids_distinct ids_small] by (simp add: of_to)

lemma decode_appended:
  assumes "(decode fields x \<bind> of_fields) = Some a" "(decode fields y \<bind> of_fields) = Some b"
  shows "(decode fields (x @ y) \<bind> of_fields) = of_fields (map2 merge_value (to_fields a) (to_fields b))"
proof -
  have "decode fields x = Some (to_fields a)" "decode fields y = Some (to_fields b)"
    using assms by (auto simp: bind_eq_Some_conv dest: to_of)
  then show ?thesis using decode_append by simp
qed

lemma encoded_nonempty: "encode fields (to_fields m) \<noteq> []"
proof -
  obtain fs g where f: "fields = fs @ [g]" "fd_label g = PROTOBUF_C_LABEL_REQUIRED"
    using last_required by (cases fields rule: rev_cases) auto
  then obtain vs v where v: "to_fields m = vs @ [v]" "length fs = length vs" "conforms g v"
    using to_conforms [of m] by (auto simp: list_all2_append1 list_all2_Cons1 dest: list_all2_lengthD)
  then obtain x where "v = Some x" using f(2) by (cases v) (auto simp: conforms_def)
  then show ?thesis using f(1) v(1,2) by (cases x) (auto simp: encode_def put_field_def)
qed

end

interpretation ipc_type: message_type "md_fields ipc_message__descriptor" ipc_fields ipc_of_fields
  by unfold_locales (simp_all add: ipc_fields_conform ipc_fields_of_fields, simp_all add: ipc_tables)

interpretation p2p_type: message_type "md_fields p2p__ipc_message__descriptor" p2p_fields p2p_of_fields
  by unfold_locales (simp_all add: p2p_fields_conform p2p_fields_of_fields, simp_all add: p2p_tables)

section \<open>The library with this encoding\<close>

definition ipc_encode :: "IpcMessage \<Rightarrow> bytes" where
  "ipc_encode m = encode (md_fields ipc_message__descriptor) (ipc_fields m)"

definition ipc_decode :: "bytes \<Rightarrow> IpcMessage option" where
  "ipc_decode bs = do {
     vs \<leftarrow> decode (md_fields ipc_message__descriptor) bs;
     ipc_of_fields vs
   }"

definition p2p_encode :: "P2pIpcMessage \<Rightarrow> bytes" where
  "p2p_encode m = encode (md_fields p2p__ipc_message__descriptor) (p2p_fields m)"

definition p2p_decode :: "bytes \<Rightarrow> P2pIpcMessage option" where
  "p2p_decode bs = do {
     vs \<leftarrow> decode (md_fields p2p__ipc_message__descriptor) bs;
     p2p_of_fields vs
   }"

definition wire_pb :: protobuf where
  "wire_pb = \<lparr>pb_ipc_pack = ipc_encode, pb_ipc_unpack = ipc_decode, pb_p2p_pack = p2p_encode,
     pb_p2p_unpack = p2p_decode, pb_freed_status = Some \<circ> pm_status_code,
     pb_behind = (\<lambda>_. Some (\<lambda>_. 0))\<rparr>"

lemma wire_pb_simps [simp]:
  "pb_ipc_pack wire_pb = ipc_encode" "pb_ipc_unpack wire_pb = ipc_decode"
  "pb_p2p_pack wire_pb = p2p_encode" "pb_p2p_unpack wire_pb = p2p_decode"
  "pb_freed_status wire_pb = Some \<circ> pm_status_code" "pb_behind wire_pb = (\<lambda>_. Some (\<lambda>_. 0))"
  by (simp_all add: wire_pb_def)

lemma ipc_values_ok:
  "0 \<notin> set (im_timestamp m) \<Longrightarrow> ipc_size m < 2 ^ 31 \<Longrightarrow> list_all (pred_option value_ok) (ipc_fields m)"
  by (cases "im_transaction_msg m"; cases "im_pubkey m") (auto simp: ipc_fields_def ipc_size_def)

lemma p2p_values_ok:
  assumes "0 \<notin> set (pm_date m)" "p2p_size m < 2 ^ 31"
  shows "list_all (pred_option value_ok) (p2p_fields m)"
proof -
  have "pred_option value_ok (map_option FBytes b)" if "opt_len b < 2 ^ 31" for b
    using that by (cases b) auto
  moreover have "pred_option value_ok (map_option FUInt64 n)" for n by (cases n) auto
  ultimately show ?thesis using assms by (auto simp: p2p_fields_def p2p_size_def)
qed

lemma ipc_decode_encode:
  assumes "0 \<notin> set (im_timestamp m)" "ipc_size m < 2 ^ 31"
  shows "ipc_decode (ipc_encode m) = Some m"
  unfolding ipc_decode_def ipc_encode_def by (rule ipc_type.decode_encoded [OF ipc_values_ok [OF assms]])

lemma p2p_decode_encode:
  assumes "0 \<notin> set (pm_date m)" "p2p_size m < 2 ^ 31"
  shows "p2p_decode (p2p_encode m) = Some m"
  unfolding p2p_decode_def p2p_encode_def by (rule p2p_type.decode_encoded [OF p2p_values_ok [OF assms]])

text \<open>Lengths: a tag of the two descriptors takes one byte, a number at most ten, a length at most five.\<close>

lemma put_field_length:
  assumes "fd_id f < 16"
  shows "length (put_field f (Some (FUInt64 n))) \<le> 11" "length (put_field f (map_option FUInt64 u)) \<le> 11"
    and "length (put_field f (Some (FEnum c))) \<le> 11"
    and "length b < 2 ^ 31 \<Longrightarrow> length (put_field f (Some (FBytes b))) \<le> 6 + length b"
    and "opt_len v < 2 ^ 31 \<Longrightarrow> length (put_field f (map_option FBytes v)) \<le> 6 + opt_len v"
    and "length s < 2 ^ 31 \<Longrightarrow> length (put_field f (Some (FString s))) \<le> 6 + length s"
proof -
  have tag: "length (varint (8 * fd_id f)) = 1" "length (varint (Suc (Suc (8 * fd_id f)))) = 1"
    using assms by (simp_all add: varint.simps)
  have num: "length (varint (unat w)) \<le> 10" for w :: u64
    by (rule length_varint_le) (simp_all add: unat_less_weaken)
  have len: "length (varint k) \<le> 5" if "k < 2 ^ 31" for k
    using that by (intro length_varint_le) auto
  show "length (put_field f (Some (FUInt64 n))) \<le> 11" "length (put_field f (map_option FUInt64 u)) \<le> 11"
      "length (put_field f (Some (FEnum c))) \<le> 11"
    using num [of n] num [of "scast c"] num [of "the u"] tag by (cases u; simp add: put_field_def)+
  show bytes: "length (put_field f (Some (FBytes b))) \<le> 6 + length b" if "length b < 2 ^ 31" for b
    using len [OF that] tag by (simp add: put_field_def)
  show "length (put_field f (map_option FBytes v)) \<le> 6 + opt_len v" if "opt_len v < 2 ^ 31"
    using bytes [of "the v"] that by (cases v) (simp_all add: put_field_def)
  show "length (put_field f (Some (FString s))) \<le> 6 + length s" if "length s < 2 ^ 31"
    using len [of "length (cstr s)"] length_cstr_le [of s] tag that by (simp add: put_field_def)
qed

lemma ipc_encode_length: "ipc_size m < 2 ^ 31 \<Longrightarrow> length (ipc_encode m) \<le> 80 + ipc_size m"
proof -
  assume "ipc_size m < 2 ^ 31"
  then have l: "opt_len (im_transaction_msg m) < 2 ^ 31" "opt_len (im_pubkey m) < 2 ^ 31" "length (im_timestamp m) < 2 ^ 31"
    by (auto simp: ipc_size_def)
  show ?thesis
    using put_field_length(5) [OF _ l(1), of "md_fields ipc_message__descriptor ! 0"]
      put_field_length(5) [OF _ l(2), of "md_fields ipc_message__descriptor ! 1"]
      put_field_length(6) [OF _ l(3), of "md_fields ipc_message__descriptor ! 2"]
      put_field_length(1) [of "md_fields ipc_message__descriptor ! 3" "im_time_num m"]
      put_field_length(3) [of "md_fields ipc_message__descriptor ! 4" "im_status_code m"]
    by (simp add: ipc_encode_def encode_def ipc_fields_def ipc_tables ipc_size_def)
qed

lemma p2p_encode_length: "p2p_size m < 2 ^ 31 \<Longrightarrow> length (p2p_encode m) \<le> 80 + p2p_size m"
proof -
  assume "p2p_size m < 2 ^ 31"
  then have l: "length (pm_date m) < 2 ^ 31" "opt_len (pm_merkle_root m) < 2 ^ 31" "opt_len (pm_nonce m) < 2 ^ 31"
      "opt_len (pm_prev_block m) < 2 ^ 31"
    by (auto simp: p2p_size_def)
  show ?thesis
    using put_field_length(6) [OF _ l(1), of "md_fields p2p__ipc_message__descriptor ! 0"]
      put_field_length(2) [of "md_fields p2p__ipc_message__descriptor ! 1" "pm_timestamp_begin m"]
      put_field_length(2) [of "md_fields p2p__ipc_message__descriptor ! 2" "pm_timestamp_end m"]
      put_field_length(2) [of "md_fields p2p__ipc_message__descriptor ! 3" "pm_difficulty m"]
      put_field_length(5) [OF _ l(2), of "md_fields p2p__ipc_message__descriptor ! 4"]
      put_field_length(5) [OF _ l(3), of "md_fields p2p__ipc_message__descriptor ! 5"]
      put_field_length(5) [OF _ l(4), of "md_fields p2p__ipc_message__descriptor ! 6"]
      put_field_length(3) [of "md_fields p2p__ipc_message__descriptor ! 7" "pm_status_code m"]
    by (simp add: p2p_encode_def encode_def p2p_fields_def p2p_tables p2p_size_def)
qed

lemma wire_pb_ok: "protobuf_ok wire_pb"
  using ipc_type.encoded_nonempty p2p_type.encoded_nonempty
  by (simp add: protobuf_ok_def ipc_decode_encode p2p_decode_encode ipc_encode_length p2p_encode_length
      ipc_encode_def [symmetric] p2p_encode_def [symmetric])

text \<open>Two messages one behind the other are read as one: what the second one sets, it overrides.\<close>

definition ipc_merge :: "IpcMessage \<Rightarrow> IpcMessage \<Rightarrow> IpcMessage" where
  "ipc_merge a b = b\<lparr>im_transaction_msg := merge_value (im_transaction_msg a) (im_transaction_msg b),
     im_pubkey := merge_value (im_pubkey a) (im_pubkey b)\<rparr>"

definition p2p_merge :: "P2pIpcMessage \<Rightarrow> P2pIpcMessage \<Rightarrow> P2pIpcMessage" where
  "p2p_merge a b = b\<lparr>pm_timestamp_begin := merge_value (pm_timestamp_begin a) (pm_timestamp_begin b),
     pm_timestamp_end := merge_value (pm_timestamp_end a) (pm_timestamp_end b),
     pm_difficulty := merge_value (pm_difficulty a) (pm_difficulty b),
     pm_merkle_root := merge_value (pm_merkle_root a) (pm_merkle_root b),
     pm_nonce := merge_value (pm_nonce a) (pm_nonce b),
     pm_prev_block := merge_value (pm_prev_block a) (pm_prev_block b)\<rparr>"

text \<open>The documented law of concatenation.\<close>

definition protobuf_merges :: "protobuf \<Rightarrow> bool" where
  "protobuf_merges PB \<longleftrightarrow>
     (\<forall>x y a b. pb_ipc_unpack PB x = Some a \<longrightarrow> pb_ipc_unpack PB y = Some b \<longrightarrow>
        pb_ipc_unpack PB (x @ y) = Some (ipc_merge a b)) \<and>
     (\<forall>x y a b. pb_p2p_unpack PB x = Some a \<longrightarrow> pb_p2p_unpack PB y = Some b \<longrightarrow>
        pb_p2p_unpack PB (x @ y) = Some (p2p_merge a b))"

lemma merge_fields:
  "map2 merge_value (ipc_fields a) (ipc_fields b) = ipc_fields (ipc_merge a b)"
  "map2 merge_value (p2p_fields c) (p2p_fields d) = p2p_fields (p2p_merge c d)"
  by (simp_all add: ipc_fields_def ipc_merge_def p2p_fields_def p2p_merge_def)

lemma wire_pb_merges: "protobuf_merges wire_pb"
  using ipc_type.decode_appended p2p_type.decode_appended
  by (simp add: protobuf_merges_def ipc_decode_def p2p_decode_def merge_fields)

text \<open>
  The field tables of the program describe a codec: with the documented encoding driven by them, every
  message of either type whose string is a C string is read back as it was written, with at most 80 bytes
  of overhead, and messages that arrive one behind the other are read as one message in which the fields of
  the later one win.
\<close>

theorem field_tables_give_codec:
  "protobuf_ok wire_pb \<and> protobuf_merges wire_pb \<and>
   pb_ipc_pack wire_pb = (\<lambda>m. encode (md_fields ipc_message__descriptor) (ipc_fields m)) \<and>
   pb_p2p_pack wire_pb = (\<lambda>m. encode (md_fields p2p__ipc_message__descriptor) (p2p_fields m))"
  by (simp add: wire_pb_ok wire_pb_merges ipc_encode_def p2p_encode_def fun_eq_iff)

end
