(* ===== verification/Truncation.thy ===== *)
theory Truncation
  imports WireFormat
begin

text \<open>
  Truncated messages in the encoding of \<open>WireFormat\<close>: a proper prefix of an encoded message is no message,
  because the last field of both message types, the status, is required.
\<close>

lemma get_varint_prefix: "k < length (varint n) \<Longrightarrow> get_varint j (take k (varint n)) = None"
proof (induction n arbitrary: k j rule: varint.induct)
  case (1 n)
  show ?case
  proof (cases "n < 128 \<or> k = 0 \<or> j = 0")
    case True
    then show ?thesis using 1(2) by (cases j; cases "take k (varint n)") (auto simp: varint.simps [of n])
  next
    case False
    then obtain k' j' where kj: "k = Suc k'" "j = Suc j'" by (metis not0_implies_Suc)
    have "unat (of_nat (n mod 128 + 128) :: byte) = n mod 128 + 128"
      by (simp add: unat_of_nat take_bit_nat_eq_self_iff del: of_nat_add)
    moreover have v: "varint n = of_nat (n mod 128 + 128) # varint (n div 128)" using False by (subst varint.simps) simp
    moreover have "get_varint j' (take k' (varint (n div 128))) = None" using 1 False kj v by simp
    ultimately show ?thesis using kj by (simp del: of_nat_add)
  qed
qed

text \<open>A field cut off in its tag, or in its value.\<close>

lemma get_field_prefix:
  assumes "get_varint 5 (tag @ take (k - length tag) val) = Some (t, take (k - length tag) val)"
    and "\<And>j. k < length tag \<Longrightarrow> get_varint 5 (take k tag) = None"
    and "\<not> k < length tag \<Longrightarrow> get_value (t mod 8) (take (k - length tag) val) = None"
  shows "get_field (take k (tag @ val)) = None"
  using assms by (cases "k < length tag") (simp_all add: get_field_def)

lemma put_raw_prefix:
  assumes "number < 2 ^ 29" "value_ok v" "k < length (put_raw number (raw_of v))"
  shows "get_field (take k (put_raw number (raw_of v))) = None"
proof -
  have tag: "get_varint 5 (varint (8 * number + t) @ x) = Some (8 * number + t, x)" if "t < 8" for t x
    using assms(1) that by (intro get_varint_varint) auto
  have num: "get_field (take k (varint (8 * number) @ varint n)) = None" if "k < length (varint (8 * number) @ varint n)" for n
    using that tag [of 0]
    by (intro get_field_prefix) (auto simp: get_varint_prefix get_value_def)
  have bytes: "get_field (take k (varint (8 * number + 2) @ varint (length c) @ c)) = None"
    if "k < length (varint (8 * number + 2) @ varint (length c) @ c)" "length c < 2 ^ 32" for c
  proof (rule get_field_prefix)
    let ?k = "k - length (varint (8 * number + 2))"
    have two: "(8 * number + 2) mod 8 = 2" by presburger
    show "get_value ((8 * number + 2) mod 8) (take ?k (varint (length c) @ c)) = None"
      if "\<not> k < length (varint (8 * number + 2))"
    proof (cases "?k < length (varint (length c))")
      case False
      have "get_varint 5 (varint (length c) @ x) = Some (length c, x)" for x
        using \<open>length c < 2 ^ 32\<close> by (intro get_varint_varint) auto
      then show ?thesis
        using False that \<open>k < length (varint (8 * number + 2) @ varint (length c) @ c)\<close>
        unfolding two by (auto simp: get_value_def get_chunk_def)
    qed (simp only: two, simp add: get_value_def get_varint_prefix)
  qed (use tag [of 2] in \<open>auto simp: get_varint_prefix\<close>)
  show ?thesis using num bytes assms(2,3) by (cases v) (auto simp: cstr_self)
qed

lemma put_field_prefix:
  assumes "fd_id f < 2 ^ 29" "pred_option value_ok v" "0 < k" "k < length (put_field f v)"
  shows "get_fields (take k (put_field f v)) = None"
proof -
  obtain x where x: "v = Some x" "value_ok x" using assms(2,4) by (cases v) (simp_all add: put_field_def)
  then have "get_field (take k (put_field f v)) = None" using put_raw_prefix [of "fd_id f" x k] assms(1,4) by (simp add: put_field_def)
  moreover have "take k (put_field f v) \<noteq> []" using assms(3,4) by auto
  ultimately show ?thesis by (subst get_fields.simps) simp
qed

text \<open>What is left of the values of a message that was cut off.\<close>

abbreviation cut_of :: "'a option list \<Rightarrow> 'a option list \<Rightarrow> bool" where
  "cut_of \<equiv> list_all2 (\<lambda>w v. w = None \<or> w = v)"

lemma cut_of_None: "cut_of (replicate (length vs) None) vs"
  by (induction vs) simp_all

lemma encode_None: "encode fs (replicate (length fs) None) = []"
  by (induction fs) (simp_all add: encode_def put_field_def)

lemma encode_Cons: "encode (f # fs) (v # vs) = put_field f v @ encode fs vs"
  by (simp add: encode_def)

lemma encode_prefix:
  assumes "length fs = length vs" "list_all (\<lambda>f. fd_id f < 2 ^ 29) fs" "list_all (pred_option value_ok) vs"
    and "get_fields (take k (encode fs vs)) \<noteq> None"
  shows "\<exists>ws. cut_of ws vs \<and> take k (encode fs vs) = encode fs ws"
  using assms
proof (induction fs vs arbitrary: k rule: list_induct2)
  case (Cons f fs v vs)
  let ?n = "length (put_field f v)"
  have ok: "fd_id f < 2 ^ 29" "pred_option value_ok v" using Cons.prems by simp_all
  have none: "cut_of (replicate (length (v # vs)) None) (v # vs)" "encode (f # fs) (replicate (length (v # vs)) None) = []"
    using cut_of_None [of "v # vs"] encode_None [of "f # fs"] Cons.hyps by simp_all
  show ?case
  proof (cases "k < ?n")
    case True
    then have "k = 0" using put_field_prefix [OF ok] Cons.prems(3) by (cases "k = 0") (simp_all add: encode_Cons)
    then show ?thesis using none by (intro exI [of _ "replicate (length (v # vs)) None"]) simp
  next
    case False
    then have "get_fields (take (k - ?n) (encode fs vs)) \<noteq> None"
      using Cons.prems(3) get_fields_append [OF get_fields_put_field [OF ok]] by (simp add: encode_Cons)
    then obtain ws where "cut_of ws vs" "take (k - ?n) (encode fs vs) = encode fs ws" using Cons.IH Cons.prems by auto
    then show ?thesis using False by (intro exI [of _ "v # ws"]) (simp add: encode_Cons)
  qed
qed (simp add: encode_def)

lemma cut_of_ok: "cut_of ws vs \<Longrightarrow> list_all (pred_option value_ok) vs \<Longrightarrow> list_all (pred_option value_ok) ws"
  by (induction rule: list_all2_induct) auto

lemma encode_append:
  "length fs = length vs \<Longrightarrow> encode (fs @ [g]) (vs @ [v]) = encode fs vs @ put_field g v"
  by (simp add: encode_def)

text \<open>The required last field is lost with the first byte that is cut off.\<close>

lemma encode_cut_last:
  assumes "length fs = length vs" "list_all (\<lambda>f. fd_id f < 2 ^ 29) (fs @ [g])" "list_all (pred_option value_ok) (vs @ [v])"
    and "k < length (encode (fs @ [g]) (vs @ [v]))" "get_fields (take k (encode (fs @ [g]) (vs @ [v]))) \<noteq> None"
  shows "\<exists>ws. cut_of ws vs \<and> take k (encode (fs @ [g]) (vs @ [v])) = encode (fs @ [g]) (ws @ [None])"
proof -
  let ?n = "length (encode fs vs)"
  have e: "encode (fs @ [g]) (vs @ [v]) = encode fs vs @ put_field g v" using assms(1) by (rule encode_append)
  have ok: "list_all (\<lambda>f. fd_id f < 2 ^ 29) fs" "list_all (pred_option value_ok) vs" using assms(2,3) by simp_all
  have "take k (encode fs vs @ put_field g v) = take k (encode fs vs)"
  proof (cases "k \<le> ?n")
    case False
    then have "get_fields (take (k - ?n) (put_field g v)) = None"
      using put_field_prefix [of g v "k - ?n"] assms(2-4) e by simp
    then show ?thesis using False assms(5) e get_fields_append [OF get_fields_encode [OF assms(1) ok]] by simp
  qed simp
  then obtain ws where "cut_of ws vs" "take k (encode (fs @ [g]) (vs @ [v])) = encode fs ws"
    using encode_prefix [OF assms(1) ok, of k] assms(5) e by auto
  then show ?thesis
    using assms(1) encode_append [of fs ws g None] list_all2_lengthD [of _ ws vs] by (auto simp: put_field_def)
qed

lemma decode_prefix:
  assumes "list_all2 conforms (fs @ [g]) (vs @ [v])" "distinct (map fd_id (fs @ [g]))"
    and "list_all (\<lambda>f. fd_id f < 2 ^ 29) (fs @ [g])" "list_all (pred_option value_ok) (vs @ [v])"
    and "fd_label g = PROTOBUF_C_LABEL_REQUIRED" "length fs = length vs" "k < length (encode (fs @ [g]) (vs @ [v]))"
  shows "decode (fs @ [g]) (take k (encode (fs @ [g]) (vs @ [v]))) = None"
proof (cases "get_fields (take k (encode (fs @ [g]) (vs @ [v])))")
  case (Some raws)
  then obtain ws where ws: "cut_of ws vs" "take k (encode (fs @ [g]) (vs @ [v])) = encode (fs @ [g]) (ws @ [None])"
    using encode_cut_last [OF assms(6,3,4,7)] by auto
  have len: "length (fs @ [g]) = length (ws @ [None])" using ws(1) assms(6) by (simp add: list_all2_lengthD)
  have "list_all (pred_option value_ok) (ws @ [None])" using cut_of_ok [OF ws(1)] assms(4) by simp
  from get_fields_encode [OF len assms(3) this] Some ws(2) have r: "raws = concat (map2 raws_of (fs @ [g]) (ws @ [None]))" by simp
  have "(g, None) \<in> set (zip (fs @ [g]) (ws @ [None]))" using len by simp
  from filter_raws [OF len assms(2) this] r have "field_of raws g = None"
    using assms(5) by (simp add: field_of_def pick_def raws_of_def)
  then have "those (map (field_of raws) (fs @ [g])) \<noteq> Some us" for us
    unfolding those_eq by (auto simp: list_all2_append1 list_all2_Cons1)
  then show ?thesis using Some by (cases "those (map (field_of raws) (fs @ [g]))") (simp_all add: decode_def)
qed (simp add: decode_def)

text \<open>A message with part of another one behind it: what has arrived of the second one wins.\<close>

lemma decode_with_part:
  assumes "list_all2 conforms fs us" "list_all2 conforms fs vs" "cut_of ws vs" "distinct (map fd_id fs)"
    and "list_all (\<lambda>f. fd_id f < 2 ^ 29) fs" "list_all (pred_option value_ok) us" "list_all (pred_option value_ok) vs"
  shows "decode fs (encode fs us @ encode fs ws) = Some (map2 merge_value us ws)"
proof -
  have len: "length fs = length us" "length fs = length ws" "length fs = length vs"
    using assms(1-3) by (auto dest!: list_all2_lengthD)
  have wok: "list_all (pred_option value_ok) ws" using cut_of_ok [OF assms(3,7)] .
  let ?raws = "\<lambda>vs. concat (map2 raws_of fs vs)"
  have "get_fields (encode fs us @ encode fs ws) = Some (?raws us @ ?raws ws)"
    using get_fields_append [OF get_fields_encode [OF len(1) assms(5,6)]] get_fields_encode [OF len(2) assms(5) wok] by simp
  moreover have "field_of (?raws us @ ?raws ws) (fs ! i) = Some (merge_value (us ! i) (ws ! i))" if i: "i < length fs" for i
  proof -
    have mem: "(fs ! i, us ! i) \<in> set (zip fs us)" "(fs ! i, ws ! i) \<in> set (zip fs ws)"
      using i len by (auto simp: set_zip)
    have w: "ws ! i = None \<or> ws ! i = vs ! i" "conforms (fs ! i) (us ! i)" "conforms (fs ! i) (vs ! i)"
        "pred_option value_ok (us ! i)" "pred_option value_ok (ws ! i)"
      using i len assms(1-3,6) wok by (simp_all add: list_all2_conv_all_nth list_all_length)
    have own: "filter (\<lambda>x. fst x = fd_id f) (raws_of f v) = raws_of f v" for f v by (cases v) (simp_all add: raws_of_def)
    have raws: "field_of (raws_of (fs ! i) x) (fs ! i) = Some x" if "conforms (fs ! i) x" "pred_option value_ok x" for x
      using that own by (rule field_of_raws)
    have "field_of (?raws us @ ?raws ws) (fs ! i) = field_of (raws_of (fs ! i) (us ! i) @ raws_of (fs ! i) (ws ! i)) (fs ! i)"
      using filter_raws [OF len(1) assms(4) mem(1)] filter_raws [OF len(2) assms(4) mem(2)]
      by (simp only: field_of_def filter_append own)
    then show ?thesis
      using w raws field_of_append by (cases "ws ! i") (fastforce simp: raws_of_def)+
  qed
  ultimately show ?thesis
    using len by (simp add: decode_def those_eq list_all2_conv_all_nth)
qed

section \<open>Message types\<close>

context message_type
begin

lemma split_last:
  obtains fs g vs v where "fields = fs @ [g]" "to_fields m = vs @ [v]" "length fs = length vs"
    "fd_label g = PROTOBUF_C_LABEL_REQUIRED"
proof -
  have "to_fields m \<noteq> []" using to_conforms [of m] last_required by auto
  then show ?thesis
    using that [of "butlast fields" "last fields" "butlast (to_fields m)" "last (to_fields m)"] to_conforms [of m] last_required
    by (simp add: list_all2_lengthD)
qed

lemma decode_truncated:
  assumes "list_all (pred_option value_ok) (to_fields m)" "k < length (encode fields (to_fields m))"
  shows "(decode fields (take k (encode fields (to_fields m))) \<bind> of_fields) = None"
proof -
  obtain fs g vs v where s: "fields = fs @ [g]" "to_fields m = vs @ [v]" "length fs = length vs"
      "fd_label g = PROTOBUF_C_LABEL_REQUIRED" by (rule split_last)
  then show ?thesis
    using decode_prefix [of fs g vs v k] to_conforms [of m] ids_distinct ids_small assms by simp
qed

text \<open>A message and part of another one.\<close>

lemma decode_part:
  assumes "list_all (pred_option value_ok) (to_fields a)" "list_all (pred_option value_ok) (to_fields b)" "cut_of ws (to_fields b)"
  shows "decode fields (encode fields (to_fields a) @ encode fields ws) = Some (map2 merge_value (to_fields a) ws)"
  using decode_with_part [OF to_conforms to_conforms assms(3) ids_distinct ids_small assms(1,2)] .

lemma decode_cut_second:
  assumes "list_all (pred_option value_ok) (to_fields a)" "list_all (pred_option value_ok) (to_fields b)"
    and "k < length (encode fields (to_fields b))"
    and "(decode fields (encode fields (to_fields a) @ take k (encode fields (to_fields b))) \<bind> of_fields) = Some m"
  shows "\<exists>ws. cut_of ws (butlast (to_fields b)) \<and> to_fields m = map2 merge_value (to_fields a) (ws @ [None])"
proof -
  obtain fs g vs v where s: "fields = fs @ [g]" "to_fields b = vs @ [v]" "length fs = length vs" by (rule split_last)
  have len: "length fields = length (to_fields a)" using to_conforms by (rule list_all2_lengthD)
  have "get_fields (take k (encode fields (to_fields b))) \<noteq> None"
    using assms(4) get_fields_append [OF get_fields_encode [OF len ids_small assms(1)]] by (auto simp: decode_def bind_eq_Some_conv)
  with encode_cut_last [OF s(3), of g v k] ids_small assms(2,3) s obtain ws where
    ws: "cut_of ws vs" "take k (encode fields (to_fields b)) = encode fields (ws @ [None])" by auto
  then have "cut_of (ws @ [None]) (to_fields b)" using s(2) by (simp add: list_all2_appendI)
  from decode_part [OF assms(1,2) this] assms(4) ws s(2) show ?thesis by (auto dest: to_of)
qed

end

lemma ipc_decode_prefix:
  assumes "0 \<notin> set (im_timestamp m)" "ipc_size m < 2 ^ 31" "k < length (ipc_encode m)"
  shows "ipc_decode (take k (ipc_encode m)) = None"
  using ipc_type.decode_truncated [OF ipc_values_ok [OF assms(1,2)]] assms(3) by (simp add: ipc_decode_def ipc_encode_def)

lemma p2p_decode_prefix:
  assumes "0 \<notin> set (pm_date m)" "p2p_size m < 2 ^ 31" "k < length (p2p_encode m)"
  shows "p2p_decode (take k (p2p_encode m)) = None"
  using p2p_type.decode_truncated [OF p2p_values_ok [OF assms(1,2)]] assms(3) by (simp add: p2p_decode_def p2p_encode_def)

section \<open>Part of a second message between peers\<close>

text \<open>\<open>m\<close> is \<open>a\<close>, except for some of the fields that \<open>b\<close> sets.\<close>

definition p2p_mixed :: "P2pIpcMessage \<Rightarrow> P2pIpcMessage \<Rightarrow> P2pIpcMessage \<Rightarrow> bool" where
  "p2p_mixed a b m \<longleftrightarrow> pm_status_code m = pm_status_code a \<and> pm_date m \<in> {pm_date a, pm_date b} \<and>
     pm_timestamp_begin m \<in> {pm_timestamp_begin a, merge_value (pm_timestamp_begin a) (pm_timestamp_begin b)} \<and>
     pm_timestamp_end m \<in> {pm_timestamp_end a, merge_value (pm_timestamp_end a) (pm_timestamp_end b)} \<and>
     pm_difficulty m \<in> {pm_difficulty a, merge_value (pm_difficulty a) (pm_difficulty b)} \<and>
     pm_merkle_root m \<in> {pm_merkle_root a, merge_value (pm_merkle_root a) (pm_merkle_root b)} \<and>
     pm_nonce m \<in> {pm_nonce a, merge_value (pm_nonce a) (pm_nonce b)} \<and>
     pm_prev_block m \<in> {pm_prev_block a, merge_value (pm_prev_block a) (pm_prev_block b)}"

text \<open>The documented law: the status is written last, so a cut-off second message cannot change it.\<close>

definition protobuf_mixes :: "protobuf \<Rightarrow> bool" where
  "protobuf_mixes PB \<longleftrightarrow>
     (\<forall>a b k m. 0 \<notin> set (pm_date a) \<and> p2p_size a < 2 ^ 31 \<and> 0 \<notin> set (pm_date b) \<and> p2p_size b < 2 ^ 31 \<and>
        k < length (pb_p2p_pack PB b) \<and> pb_p2p_unpack PB (pb_p2p_pack PB a @ take k (pb_p2p_pack PB b)) = Some m \<longrightarrow>
        p2p_mixed a b m)"

lemma merge_cut:
  assumes "map_option c x = merge_value (map_option c y) w" "w = None \<or> w = map_option c z" "inj c"
  shows "x \<in> {y, merge_value y z}"
proof -
  have "map_option c x \<in> {map_option c y, map_option c (merge_value y z)}" using assms(1,2) by auto
  then show ?thesis using option.inj_map [OF assms(3), THEN inj_eq] by blast
qed

lemma field_value_inj: "inj FBytes" "inj FUInt64"
  by (simp_all add: inj_def)

lemma wire_pb_mixes: "protobuf_mixes wire_pb"
proof -
  have "p2p_mixed a b m" if "list_all (pred_option value_ok) (p2p_fields a)" "list_all (pred_option value_ok) (p2p_fields b)"
      "k < length (p2p_encode b)" "p2p_decode (p2p_encode a @ take k (p2p_encode b)) = Some m" for a b k m
  proof -
    note cut = that
    obtain ws where "cut_of ws (butlast (p2p_fields b))" "p2p_fields m = map2 merge_value (p2p_fields a) (ws @ [None])"
      using p2p_type.decode_cut_second [OF cut(1,2), of k m] cut(3,4) by (auto simp: p2p_encode_def p2p_decode_def)
    then obtain w1 w2 w3 w4 w5 w6 w7 where
      w: "ws = [w1, w2, w3, w4, w5, w6, w7]" "w1 = None \<or> w1 = Some (FString (pm_date b))"
      and ns: "w2 = None \<or> w2 = map_option FUInt64 (pm_timestamp_begin b)" "w3 = None \<or> w3 = map_option FUInt64 (pm_timestamp_end b)"
        "w4 = None \<or> w4 = map_option FUInt64 (pm_difficulty b)"
      and bs: "w5 = None \<or> w5 = map_option FBytes (pm_merkle_root b)" "w6 = None \<or> w6 = map_option FBytes (pm_nonce b)"
        "w7 = None \<or> w7 = map_option FBytes (pm_prev_block b)"
      and m: "p2p_fields m = map2 merge_value (p2p_fields a) (ws @ [None])"
      unfolding p2p_fields_def by (force simp: list_all2_Cons2)
    note eq = m [unfolded w(1) p2p_fields_def, simplified]
    have "pm_date m \<in> {pm_date a, pm_date b}" "pm_status_code m = pm_status_code a" using eq w(2) by auto
    then show ?thesis
      using merge_cut [OF _ ns(1) field_value_inj(2)] merge_cut [OF _ ns(2) field_value_inj(2)]
        merge_cut [OF _ ns(3) field_value_inj(2)] merge_cut [OF _ bs(1) field_value_inj(1)]
        merge_cut [OF _ bs(2) field_value_inj(1)] merge_cut [OF _ bs(3) field_value_inj(1)] eq
      unfolding p2p_mixed_def by metis
  qed
  then show ?thesis using p2p_values_ok by (auto simp: protobuf_mixes_def)
qed

end
