(* ===== verification/Coalescing.thy ===== *)
theory Coalescing
  imports Truncation P2P
begin

text \<open>
  TCP keeps no boundaries between frames, while every event loop takes what one receive delivers for one
  message.  The serving thread sends FINISH as soon as its block was sent, so that one receive of the asking
  thread may deliver both frames; the protobuf library reads concatenated messages as one.  And a frame may
  arrive in pieces.
\<close>

section \<open>Joined frames\<close>

lemma unpack_frames:
  assumes "protobuf_merges PB" "p2p__ipc_message__unpack PB n x = Some a" "p2p__ipc_message__unpack PB k y = Some b"
  shows "p2p__ipc_message__unpack PB (n + k) (take n x @ take k y @ rest) = Some (p2p_merge a b)"
  using assms by (auto simp: p2p__ipc_message__unpack_def protobuf_merges_def split: if_splits)

text \<open>Status and block of two joined frames: the second frame's status, whatever the read of the freed message yields, decides
  that there is no block.\<close>

lemma no_block_in_frames:
  assumes "protobuf_merges PB" "p2p__ipc_message__unpack PB n x = Some a" "p2p__ipc_message__unpack PB k y = Some b"
    and "pm_status_code b \<noteq> p2p_code P2P__IPC_MESSAGE__STATUS__BLOCK"
  shows "deserialize_block PB (take n x @ take k y @ rest) (n + k) = Some None"
  using unpack_frames [OF assms(1-3)] assms(4) by (simp add: deserialize_block_def p2p_merge_def del: p2p_code.simps)

lemma send_keeps_received: "cl_p2p_send_STATUS PB E m st pl = Some pl' \<Longrightarrow> pl_received pl' = pl_received pl"
  by (auto simp: cl_p2p_send_STATUS_def bind_eq_Some_conv)

lemma process_keeps_received:
  assumes "deserialize_block PB (pl_buffer pl) (unat r) = Some None" "process_response PB E r pl = Some pl'"
  shows "pl_received pl' = pl_received pl"
  using assms send_keeps_received
  by (auto simp: process_response_def bind_eq_Some_conv simp del: p2p_code.simps split: if_splits)

lemma listen_processes:
  assumes "\<not> sh_kill_thread_p2p sh" "unat fd < 2 ^ 31"
  shows "p2p_listen_step PB E sh \<lparr>cq_res = r, cq_user_data = make_request_data fd (cl_num PROCESS_RESPONSE)\<rparr> pl =
    map_option (\<lambda>pl. pl\<lparr>pl_cycle := pl_cycle pl + 1\<rparr>) (process_response PB E r pl)"
  using assms(1) by (cases "process_response PB E r pl")
    (simp_all add: p2p_listen_step_def request_type_roundtrip [OF fd_nonneg [OF assms(2)]] Let_def)

text \<open>
  C13.  A block can get lost between peers: when the frame of a block and the FINISH the serving thread
  sends right behind it arrive in one receive, the asking thread stores no block, whatever its read of the freed
  message yields; it faults or goes on without.  And if that read yields the status that was sent last, FINISH, it posts no further
  operation either, so that nothing on its ring would ever give it the block.
\<close>

theorem coalesced_block_lost:
  assumes "protobuf_ok PB" "protobuf_merges PB" "clock_ok E"
    and "block_wf b" "0 \<in> set (blk_date b)" "length x = SOCK_BUF" "length y = SOCK_BUF"
    and "\<not> sh_kill_thread_p2p sh" "unat fd < 2 ^ 31"
  shows "\<exists>n x' k y' h'. P2P_serialize_block_to_sock PB b x = Some (n, x') \<and>
    P2P_send_status PB E P2P__IPC_MESSAGE__STATUS__FINISH y h = Some (k, y', h') \<and> n + k \<le> SOCK_BUF \<and>
    (\<forall>pl rest. let c = \<lparr>cq_res = of_nat (n + k), cq_user_data = make_request_data fd (cl_num PROCESS_RESPONSE)\<rparr>;
        buf = take n x' @ take k y' @ rest; pl0 = pl\<lparr>pl_buffer := buf\<rparr> in
      (\<forall>freed behind pl'. p2p_listen_step (with_reads PB freed behind) E sh c pl0 = Some pl' \<longrightarrow>
        pl_received pl' = pl_received pl) \<and>
      (P2P_deserialize_STATUS PB buf (n + k) = Some (p2p_code P2P__IPC_MESSAGE__STATUS__FINISH) \<longrightarrow>
        p2p_listen_step PB E sh c pl0 = Some (pl0\<lparr>pl_cycle := pl_cycle pl + 1\<rparr>)))"
proof -
  obtain n x' m where s: "P2P_serialize_block_to_sock PB b x = Some (n, x')" "n \<le> 194"
      "p2p__ipc_message__unpack PB n x' = Some m"
    using block_wire [OF assms(1,4-6)] by blast
  obtain k y' m' where t: "P2P_send_status PB E P2P__IPC_MESSAGE__STATUS__FINISH y h = Some (k, y', tick h)" "k \<le> 115"
      "p2p__ipc_message__unpack PB k y' = Some m'" "pm_status_code m' = p2p_code P2P__IPC_MESSAGE__STATUS__FINISH"
    using p2p_send_status [OF assms(1,3,7), of P2P__IPC_MESSAGE__STATUS__FINISH h] by (auto simp: status_message_def)
  let ?c = "\<lparr>cq_res = of_nat (n + k), cq_user_data = make_request_data fd (cl_num PROCESS_RESPONSE)\<rparr>"
  have len: "unat (of_nat (n + k) :: u32) = n + k" using s(2) t(2) by (simp add: unat_of_nat take_bit_nat_eq_self_iff del: of_nat_add)
  have lost: "pl_received pl' = pl_received pl" if "p2p_listen_step (with_reads PB freed behind) E sh ?c
      (pl\<lparr>pl_buffer := take n x' @ take k y' @ rest\<rparr>) = Some pl'" for pl pl' rest freed behind
  proof -
    have "protobuf_merges (with_reads PB freed behind)" using assms(2) by (simp add: protobuf_merges_def)
    then have "deserialize_block (with_reads PB freed behind) (take n x' @ take k y' @ rest) (n + k) = Some None"
      using no_block_in_frames [of _ n x' m k y' m' rest] s(3) t(3,4) by simp
    then show ?thesis
      using that process_keeps_received [of "with_reads PB freed behind" "pl\<lparr>pl_buffer := take n x' @ take k y' @ rest\<rparr>" "of_nat (n + k)" E] len
      unfolding listen_processes [OF assms(8,9)] by (auto simp del: of_nat_add)
  qed
  have "p2p_listen_step PB E sh ?c (pl\<lparr>pl_buffer := buf\<rparr>) = Some (pl\<lparr>pl_buffer := buf, pl_cycle := pl_cycle pl + 1\<rparr>)"
    if "P2P_deserialize_STATUS PB buf (n + k) = Some (p2p_code P2P__IPC_MESSAGE__STATUS__FINISH)" for pl buf
    unfolding listen_processes [OF assms(8,9)] process_response_def using len that by (simp del: of_nat_add p2p_code.simps)
  with lost show ?thesis using s(1,2) t(1,2) unfolding Let_def by (intro exI conjI allI impI) auto
qed

theorem coalesced_block_lost_witness:
  "\<exists>n x' k y' h'. P2P_serialize_block_to_sock wire_pb block_zero (calloc 4096) = Some (n, x') \<and>
    P2P_send_status wire_pb demo_env P2P__IPC_MESSAGE__STATUS__FINISH (calloc 4096) empty_heap = Some (k, y', h') \<and>
    (\<exists>pl'. p2p_listen_step wire_pb demo_env shared_init
        \<lparr>cq_res = of_nat (n + k), cq_user_data = make_request_data 7 (cl_num PROCESS_RESPONSE)\<rparr>
        (setup_p2p_listening 7 empty_heap\<lparr>pl_ring := [], pl_buffer := take n x' @ take k y' @ calloc (4096 - n - k)\<rparr>) = Some pl' \<and>
      pl_received pl' = [] \<and> pl_ring pl' = [])"
proof -
  have b: "block_wf block_zero" "0 \<in> set (blk_date block_zero)" by (simp_all add: block_wf_def block_zero_def calloc_def)
  have sh: "\<not> sh_kill_thread_p2p shared_init" by (simp add: shared_init_def)
  obtain n x' k y' h' where w: "P2P_serialize_block_to_sock wire_pb block_zero (calloc 4096) = Some (n, x')"
      "P2P_send_status wire_pb demo_env P2P__IPC_MESSAGE__STATUS__FINISH (calloc 4096) empty_heap = Some (k, y', h')"
      "\<And>pl rest. P2P_deserialize_STATUS wire_pb (take n x' @ take k y' @ rest) (n + k) = Some (p2p_code P2P__IPC_MESSAGE__STATUS__FINISH) \<Longrightarrow>
        p2p_listen_step wire_pb demo_env shared_init
         \<lparr>cq_res = of_nat (n + k), cq_user_data = make_request_data 7 (cl_num PROCESS_RESPONSE)\<rparr>
         (pl\<lparr>pl_buffer := take n x' @ take k y' @ rest\<rparr>) =
        Some (pl\<lparr>pl_buffer := take n x' @ take k y' @ rest, pl_cycle := pl_cycle pl + 1\<rparr>)"
    using coalesced_block_lost [OF wire_pb_ok wire_pb_merges demo_clock_ok b _ _ sh, of "calloc 4096" "calloc 4096" 7 empty_heap]
    unfolding Let_def by auto
  obtain m where m: "p2p__ipc_message__unpack wire_pb n x' = Some m"
    using block_wire [OF wire_pb_ok b, of "calloc 4096"] w(1) by auto
  obtain d where d: "p2p__ipc_message__unpack wire_pb k y' = Some (status_message d P2P__IPC_MESSAGE__STATUS__FINISH)"
    using p2p_send_status [OF wire_pb_ok demo_clock_ok, of "calloc 4096" P2P__IPC_MESSAGE__STATUS__FINISH empty_heap] w(2) by auto
  have "P2P_deserialize_STATUS wire_pb (take n x' @ take k y' @ rest) (n + k) = Some (p2p_code P2P__IPC_MESSAGE__STATUS__FINISH)" for rest
    using unpack_frames [OF wire_pb_merges m d] by (simp add: P2P_deserialize_STATUS_def p2p_merge_def status_message_def)
  from w(3) [OF this, of "calloc (4096 - n - k)" "setup_p2p_listening 7 empty_heap\<lparr>pl_ring := []\<rparr>"] w(1,2) show ?thesis
    by (auto simp: setup_p2p_listening_def)
qed

section \<open>Reading freed memory\<close>



section \<open>Split frames\<close>

text \<open>The documented reading of required fields, for messages cut off: both types end with one.\<close>

definition protobuf_rejects_prefixes :: "protobuf \<Rightarrow> bool" where
  "protobuf_rejects_prefixes PB \<longleftrightarrow>
     (\<forall>m k. 0 \<notin> set (im_timestamp m) \<and> ipc_size m < 2 ^ 31 \<and> k < length (pb_ipc_pack PB m) \<longrightarrow>
        pb_ipc_unpack PB (take k (pb_ipc_pack PB m)) = None) \<and>
     (\<forall>m k. 0 \<notin> set (pm_date m) \<and> p2p_size m < 2 ^ 31 \<and> k < length (pb_p2p_pack PB m) \<longrightarrow>
        pb_p2p_unpack PB (take k (pb_p2p_pack PB m)) = None)"

lemma wire_pb_rejects_prefixes: "protobuf_rejects_prefixes wire_pb"
  by (simp add: protobuf_rejects_prefixes_def ipc_decode_prefix p2p_decode_prefix)

lemma res_small: "0 < k \<Longrightarrow> k \<le> 4096 \<Longrightarrow> 0 < sint (of_nat k :: u32)"
  by (simp add: signed_of_nat signed_take_bit_int_eq_self)

lemma server_reads_garbage:
  assumes "pb_ipc_unpack PB f = None" "f \<noteq> []" "length f \<le> 4096" "unat fd < 1000" "sv_buffers sv ! unat fd = f @ rest"
  shows "event_loop_step PB E \<lparr>cq_res = of_nat (length f), cq_user_data = make_request_data fd (flag_num TEST_RESPONSE)\<rparr> sv = None"
proof -
  have "\<not> bit fd 31" using assms(4) by (intro fd_nonneg) simp
  moreover have "read_ONLY_STATUS_response PB (f @ rest) (unat (of_nat (length f) :: u32)) = None"
    using assms(1) small_res(1) [OF assms(3)] by (simp add: read_ONLY_STATUS_response_def ipc_message__unpack_def)
  ultimately show ?thesis
    using res_small [of "length f"] assms(2-5)
    by (simp add: event_loop_step_def test_response_def request_type_roundtrip ucast_request get_client_buffer_def Let_def)
qed

lemma client_reads_garbage:
  assumes "pb_ipc_unpack PB f = None" "length f \<le> 4096" "\<not> sh_kill_thread_p2p (cl_shared st)" "\<not> cl_block_filled st"
  shows "client_step PB E f (of_nat (length f)) st = None"
  using assms small_res [OF assms(2)]
  by (simp add: client_step_def read_response_ONLY_STATUS_def ipc_message__unpack_def Let_def)

lemma peers_read_garbage:
  assumes "pb_p2p_unpack PB f = None" "f \<noteq> []" "length f \<le> 4096" "\<not> sh_kill_thread_p2p sh"
  shows "unat fd < 100 \<Longrightarrow> ps_buffers ps ! unat fd = f @ rest \<Longrightarrow>
      event_loop_p2p_step PB E sh \<lparr>cq_res = of_nat (length f), cq_user_data = make_request_data fd (p2p_num FLAG_TEST_RESPONSE)\<rparr> ps = None"
    and "unat s < 2 ^ 31 \<Longrightarrow> pl_buffer pl = f @ rest \<Longrightarrow>
      p2p_listen_step PB E sh \<lparr>cq_res = of_nat (length f), cq_user_data = make_request_data s (cl_num PROCESS_RESPONSE)\<rparr> pl = None"
proof -
  have r: "P2P_deserialize_STATUS PB (f @ rest) (unat (of_nat (length f) :: u32)) = None"
    using assms(1) small_res(1) [OF assms(3)] by (simp add: P2P_deserialize_STATUS_def p2p__ipc_message__unpack_def)
  show "event_loop_p2p_step PB E sh \<lparr>cq_res = of_nat (length f), cq_user_data = make_request_data fd (p2p_num FLAG_TEST_RESPONSE)\<rparr> ps = None"
    if "unat fd < 100" "ps_buffers ps ! unat fd = f @ rest"
  proof -
    have "\<not> bit fd 31" using that(1) by (intro fd_nonneg) simp
    then show ?thesis
      using r that res_small [of "length f"] assms(2-4)
      by (simp add: event_loop_p2p_step_def p2p_test_response_def request_type_roundtrip ucast_request p2p_get_client_buffer_def Let_def)
  qed
  show "p2p_listen_step PB E sh \<lparr>cq_res = of_nat (length f), cq_user_data = make_request_data s (cl_num PROCESS_RESPONSE)\<rparr> pl = None"
    if "unat s < 2 ^ 31" "pl_buffer pl = f @ rest"
    using r that(2) assms(4) by (simp add: p2p_listen_step_def process_response_def request_type_roundtrip [OF fd_nonneg [OF that(1)]] Let_def)
qed

text \<open>
  C15.  No event loop survives a frame that arrives in two pieces: a receive that delivers a proper part of a
  frame makes the server, the client thread and both peer threads dereference the null pointer that the
  protobuf library returns for it.
\<close>

theorem split_frame_crashes:
  assumes "protobuf_rejects_prefixes PB"
    and "0 \<notin> set (im_timestamp im)" "ipc_size im < 2 ^ 31" "0 < k" "k \<le> BUFFER_SIZE" "k < length (pb_ipc_pack PB im)"
    and "0 \<notin> set (pm_date pm)" "p2p_size pm < 2 ^ 31" "0 < j" "j \<le> BUFFER_SIZE" "j < length (pb_p2p_pack PB pm)"
    and "unat fd < 100" "unat s < 2 ^ 31" "\<not> sh_kill_thread_p2p sh"
    and "\<not> sh_kill_thread_p2p (cl_shared st)" "\<not> cl_block_filled st"
    and "sv_buffers sv ! unat fd = take k (pb_ipc_pack PB im) @ rest"
    and "ps_buffers ps ! unat fd = take j (pb_p2p_pack PB pm) @ rest'"
    and "pl_buffer pl = take j (pb_p2p_pack PB pm) @ rest'"
  shows "event_loop_step PB E \<lparr>cq_res = of_nat k, cq_user_data = make_request_data fd (flag_num TEST_RESPONSE)\<rparr> sv = None \<and>
    client_step PB E (take k (pb_ipc_pack PB im)) (of_nat k) st = None \<and>
    event_loop_p2p_step PB E sh \<lparr>cq_res = of_nat j, cq_user_data = make_request_data fd (p2p_num FLAG_TEST_RESPONSE)\<rparr> ps = None \<and>
    p2p_listen_step PB E sh \<lparr>cq_res = of_nat j, cq_user_data = make_request_data s (cl_num PROCESS_RESPONSE)\<rparr> pl = None"
proof -
  let ?f = "take k (pb_ipc_pack PB im)" and ?g = "take j (pb_p2p_pack PB pm)"
  have none: "pb_ipc_unpack PB ?f = None" "pb_p2p_unpack PB ?g = None"
    using assms(1-3,6-8,11) by (simp_all add: protobuf_rejects_prefixes_def)
  have len: "length ?f = k" "length ?g = j" "?f \<noteq> []" "?g \<noteq> []" using assms(4,6,9,11) by auto
  have le: "length ?f \<le> 4096" "length ?g \<le> 4096" using len(1,2) assms(5,10) by simp_all
  have "unat fd < 1000" using assms(12) by simp
  from server_reads_garbage [OF none(1) len(3) le(1) this assms(17)]
    client_reads_garbage [OF none(1) le(1) assms(15,16)]
    peers_read_garbage [OF none(2) len(4) le(2) assms(14)] assms(12,13,18,19)
  show ?thesis unfolding len(1,2) by blast
qed

theorem split_frame_crashes_witness:
  "client_step wire_pb demo_env (take 3 (pb_ipc_pack wire_pb ipc_message__init)) 3 (client_start 5 shared_init empty_heap) = None"
proof -
  have l: "3 < length (pb_ipc_pack wire_pb ipc_message__init)" "3 < length (pb_p2p_pack wire_pb p2p__ipc_message__init)"
    by code_simp+
  let ?sv = "(setup_buffers demo_env empty_heap)\<lparr>sv_buffers := replicate 9 (take 3 (pb_ipc_pack wire_pb ipc_message__init))\<rparr>"
  let ?ps = "(p2p_setup_buffers demo_env empty_heap)\<lparr>ps_buffers := replicate 9 (take 3 (pb_p2p_pack wire_pb p2p__ipc_message__init))\<rparr>"
  let ?pl = "(setup_p2p_listening 6 empty_heap)\<lparr>pl_buffer := take 3 (pb_p2p_pack wire_pb p2p__ipc_message__init)\<rparr>"
  from split_frame_crashes [OF wire_pb_rejects_prefixes _ _ _ _ l(1) _ _ _ _ l(2), of 5 6 shared_init
      "client_start 5 shared_init empty_heap" ?sv "[]" ?ps "[]" ?pl demo_env]
  show ?thesis
    by (simp add: ipc_message__init_def p2p__ipc_message__init_def ipc_size_def p2p_size_def shared_init_def client_start_def)
qed

end
