(* ===== verification/AskInv.thy ===== *)
theory AskInv
  imports ServeInv PeerProps Coalescing
begin

text \<open>
  The asking peer thread against whatever it is connected to, and together with the serving thread of a
  neighbour.  Every read of a freed message, and every read behind the date of one, yields anything or
  faults, anew at each step.  What is shown needs none of these reads to go well: it is about what the thread can ever
  send and store, not about what it gets to.
\<close>

section \<open>Runs\<close>

text \<open>\<open>ag_frames\<close> are the bytes of its receives, the empty one standing for the end of the stream.\<close>

record asking =
  ag_lst :: p2p_listener
  ag_frames :: "bytes list"
  ag_sent :: "(u32 \<times> bytes) list"

inductive ask_reach :: "protobuf \<Rightarrow> env \<Rightarrow> u32 \<Rightarrow> heap \<Rightarrow> asking \<Rightarrow> bool" for PB E s h0 where
  start: "ask_reach PB E s h0 \<lparr>ag_lst = setup_p2p_listening s h0, ag_frames = [], ag_sent = []\<rparr>"
| receive: "ask_reach PB E s h0 g \<Longrightarrow> (Op_recv fd, d) \<in> set (pl_ring (ag_lst g)) \<Longrightarrow> length f \<le> BUFFER_SIZE \<Longrightarrow>
    lst_complete (with_reads PB freed behind) E sh (Op_recv fd) d (of_nat (length f)) (lst_store f (ag_lst g)) = Some pl \<Longrightarrow>
    ask_reach PB E s h0 (g\<lparr>ag_lst := pl, ag_frames := ag_frames g @ [f]\<rparr>)"
| failed: "ask_reach PB E s h0 g \<Longrightarrow> (Op_recv fd, d) \<in> set (pl_ring (ag_lst g)) \<Longrightarrow> sint r < 0 \<Longrightarrow>
    lst_complete (with_reads PB freed behind) E sh (Op_recv fd) d r (ag_lst g) = Some pl \<Longrightarrow>
    ask_reach PB E s h0 (g\<lparr>ag_lst := pl\<rparr>)"
| complete: "ask_reach PB E s h0 g \<Longrightarrow> (op, d) \<in> set (pl_ring (ag_lst g)) \<Longrightarrow> \<not> is_Op_recv op \<Longrightarrow>
    lst_complete (with_reads PB freed behind) E sh op d r (ag_lst g) = Some pl \<Longrightarrow>
    ask_reach PB E s h0 (g\<lparr>ag_lst := pl, ag_sent := ag_sent g @ completed op\<rparr>)"

section \<open>The invariant\<close>

definition questions :: "P2pIpcMessage__Status set" where
  "questions = {P2P__IPC_MESSAGE__STATUS__PONG, P2P__IPC_MESSAGE__STATUS__ASK_IF_BLOCK_READY}"

definition ask_entry :: "protobuf \<Rightarrow> u32 \<Rightarrow> sqe \<Rightarrow> bool" where
  "ask_entry PB s e \<longleftrightarrow> (case e of
       (Op_recv fd, d) \<Rightarrow> fd = s \<and> d = make_request_data s (cl_num PROCESS_RESPONSE)
     | (Op_send fd f, d) \<Rightarrow> fd = s \<and> d = make_request_data s (cl_num CL_READ_RESPONSE) \<and> (\<exists>m \<in> questions. carries PB m f)
     | (Op_unprepared, d) \<Rightarrow> d = 0
     | (Op_accept, d) \<Rightarrow> False)"

text \<open>The operations on the connection.\<close>

definition pending :: "p2p_listener \<Rightarrow> sqe list" where
  "pending pl = filter (\<lambda>e. fst e \<noteq> Op_unprepared) (pl_ring pl)"

text \<open>A block read from a frame.\<close>

definition read_from :: "protobuf \<Rightarrow> env \<Rightarrow> bytes \<Rightarrow> block_t \<times> string \<Rightarrow> bool" where
  "read_from PB E f x \<longleftrightarrow> (\<exists>freed behind. deserialize_block (with_reads PB freed behind) f (length f) = Some (Some (fst x))) \<and>
     print_block_data E (fst x) = Some (snd x)"

definition lst_inv :: "protobuf \<Rightarrow> u32 \<Rightarrow> p2p_listener \<Rightarrow> bool" where
  "lst_inv PB s pl \<longleftrightarrow> lst_ok s pl \<and> (\<forall>e \<in> set (pl_ring pl). ask_entry PB s e) \<and> length (pending pl) + length (pl_received pl) \<le> 1"

definition ask_inv :: "protobuf \<Rightarrow> env \<Rightarrow> u32 \<Rightarrow> asking \<Rightarrow> bool" where
  "ask_inv PB E s g \<longleftrightarrow> lst_inv PB s (ag_lst g) \<and>
     (\<forall>x \<in> set (pl_received (ag_lst g)). \<exists>f \<in> set (ag_frames g). read_from PB E f x) \<and>
     (\<forall>x \<in> set (ag_sent g). fst x = s \<and> (\<exists>m \<in> questions. carries PB m (snd x)))"

lemma listen_step_kill:
  "p2p_listen_step PB E sh c pl = (if sh_kill_thread_p2p sh then Some pl else p2p_listen_step PB E shared_init c pl)"
  by (simp add: p2p_listen_step_def shared_init_def)

text \<open>What one iteration may do to a thread whose connection has no operation outstanding and that has no block.\<close>

definition moved :: "protobuf \<Rightarrow> env \<Rightarrow> u32 \<Rightarrow> bytes \<Rightarrow> nat \<Rightarrow> p2p_listener \<Rightarrow> p2p_listener \<Rightarrow> bool" where
  "moved PB E s buf n pl pl' \<longleftrightarrow> lst_ok s pl' \<and>
     (pl_received pl' = pl_received pl \<and> (pl_ring pl' = pl_ring pl \<or> (\<exists>e. ask_entry PB s e \<and> pl_ring pl' = pl_ring pl @ [e])) \<or>
      pl_ring pl' = pl_ring pl \<and> (\<exists>b out. pl_received pl' = pl_received pl @ [(b, out)] \<and>
        deserialize_block PB buf n = Some (Some b) \<and> print_block_data E b = Some out))"

lemma sends_question:
  assumes "protobuf_ok PB" "clock_ok E" "lst_ok s pl" "m \<in> questions" "cl_p2p_send_STATUS PB E m CL_READ_RESPONSE pl = Some pl'"
  shows "moved PB E s buf n pl pl'"
proof -
  from cl_p2p_send_STATUS_ok [OF assms(1-3), of m CL_READ_RESPONSE] assms(5) obtain f where
    "lst_ok s pl'" "peer_frame PB m f" "pl_received pl' = pl_received pl"
    "pl_ring pl' = pl_ring pl @ [(Op_send s f, make_request_data s (cl_num CL_READ_RESPONSE))]" by auto
  moreover from this have "ask_entry PB s (Op_send s f, make_request_data s (cl_num CL_READ_RESPONSE))"
    using assms(4) peer_frame_carries by (auto simp: ask_entry_def)
  ultimately show ?thesis by (auto simp: moved_def)
qed

lemma process_response_moved:
  assumes "protobuf_ok PB" "clock_ok E" "lst_ok s pl" "process_response PB E r pl = Some pl'"
  shows "moved PB E s (pl_buffer pl) (unat r) pl pl'"
proof -
  have q: "P2P__IPC_MESSAGE__STATUS__PONG \<in> questions" "P2P__IPC_MESSAGE__STATUS__ASK_IF_BLOCK_READY \<in> questions"
    by (simp_all add: questions_def)
  have flag: "moved PB E s buf n pl (pl1\<lparr>pl_flag_ready_count := True\<rparr>) = moved PB E s buf n pl pl1" for buf n pl1
    by (simp add: moved_def lst_ok_def)
  have block: "moved PB E s (pl_buffer pl) n pl (pl\<lparr>pl_received := pl_received pl @ [(b, out)]\<rparr>)"
    if "deserialize_block PB (pl_buffer pl) n = Some (Some b)" "print_block_data E b = Some out" for n b out
    using that assms(3) by (simp add: moved_def lst_ok_def)
  have same: "moved PB E s buf n pl pl" for buf n using assms(3) by (simp add: moved_def)
  show ?thesis
    using assms(4) sends_question [OF assms(1-3)] q flag block same
    by (auto simp: process_response_def bind_eq_Some_conv simp del: p2p_code.simps split: if_splits)
qed
text \<open>The entry of a completion leaves the ring, and the thread moves.\<close>

lemma pending_remove:
  assumes "e \<in> set (pl_ring pl)" "fst e \<noteq> Op_unprepared"
  shows "length (pending pl) = Suc (length (pending (pl\<lparr>pl_ring := remove1 e (pl_ring pl)\<rparr>)))"
proof -
  have "e \<in> set (pending pl)" using assms by (simp add: pending_def)
  moreover have "pending (pl\<lparr>pl_ring := remove1 e (pl_ring pl)\<rparr>) = remove1 e (pending pl)"
    by (simp add: pending_def filter_remove1)
  ultimately show ?thesis by (simp add: length_remove1) (metis Suc_pred length_pos_if_in_set)
qed

lemma lst_inv_moved:
  assumes "lst_inv PB s pl" "e \<in> set (pl_ring pl)" "fst e \<noteq> Op_unprepared"
    and "moved PB E s buf n (pl0\<lparr>pl_ring := remove1 e (pl_ring pl)\<rparr>) pl'" "pl_received pl0 = pl_received pl"
  shows "lst_inv PB s pl' \<and> pl_received pl = [] \<and> (pl_received pl' = [] \<or>
    (\<exists>b out. pl_received pl' = [(b, out)] \<and> deserialize_block PB buf n = Some (Some b) \<and> print_block_data E b = Some out))"
proof -
  let ?pl = "pl\<lparr>pl_ring := remove1 e (pl_ring pl)\<rparr>"
  have none: "pending ?pl = []" "pl_received pl = []"
    using assms(1) pending_remove [OF assms(2,3)] by (simp_all add: lst_inv_def)
  have ring: "\<forall>x \<in> set (remove1 e (pl_ring pl)). ask_entry PB s x"
    using assms(1) set_remove1_subset [of e "pl_ring pl"] by (auto simp: lst_inv_def)
  have p: "pending x = filter (\<lambda>e. fst e \<noteq> Op_unprepared) (pl_ring x)" for x by (simp add: pending_def)
  from assms(4) consider
    (same) "lst_ok s pl'" "pl_received pl' = []" "pl_ring pl' = remove1 e (pl_ring pl)"
    | (posted) x where "lst_ok s pl'" "pl_received pl' = []" "ask_entry PB s x" "pl_ring pl' = remove1 e (pl_ring pl) @ [x]"
    | (block) b out where "lst_ok s pl'" "pl_ring pl' = remove1 e (pl_ring pl)" "pl_received pl' = [(b, out)]"
        "deserialize_block PB buf n = Some (Some b)" "print_block_data E b = Some out"
    using none(2) assms(5) by (auto simp: moved_def)
  then show ?thesis
    using ring none by cases (auto simp: lst_inv_def p)
qed

lemma lst_inv_complete:
  assumes "protobuf_ok PB" "clock_ok E" "\<not> bit s 31" "lst_inv PB s pl" "(op, d) \<in> set (pl_ring pl)"
    and "lst_ok s pl0" "pl_ring pl0 = pl_ring pl" "pl_received pl0 = pl_received pl"
    and "lst_complete PB E sh op d r pl0 = Some pl'"
  shows "lst_inv PB s pl' \<and> (pl_received pl' = pl_received pl \<or>
    (\<exists>b out. is_Op_recv op \<and> pl_received pl' = [(b, out)] \<and> deserialize_block PB (pl_buffer pl0) (unat r) = Some (Some b) \<and>
      print_block_data E b = Some out))"
proof -
  let ?pl = "pl0\<lparr>pl_ring := remove1 (op, d) (pl_ring pl)\<rparr>"
  have e: "ask_entry PB s (op, d)" using assms(4,5) by (simp add: lst_inv_def)
  have ok: "lst_ok s ?pl" "lst_ok s (x\<lparr>pl_cycle := c\<rparr>) = lst_ok s x" for x c using assms(6) by (simp_all add: lst_ok_def)
  have cyc: "moved PB E s buf n ?pl (x\<lparr>pl_cycle := c\<rparr>) = moved PB E s buf n ?pl x" for buf n x c by (simp add: moved_def ok(2))
  note st = assms(9) [unfolded lst_complete_def listen_step_kill [of PB E sh] assms(7)]
  show ?thesis
  proof (cases op)
    case (Op_recv fd)
    then have d: "d = make_request_data s (cl_num PROCESS_RESPONSE)" using e by (simp add: ask_entry_def)
    have same: "moved PB E s (pl_buffer pl0) (unat r) ?pl ?pl" using ok(1) by (simp add: moved_def)
    have "moved PB E s (pl_buffer pl0) (unat r) ?pl x" if "process_response PB E r ?pl = Some x" for x
      using process_response_moved [OF assms(1,2) ok(1) that] by simp
    then have "moved PB E s (pl_buffer pl0) (unat r) ?pl pl'"
      using st same cyc unfolding d lst_dispatch(1) [OF assms(3)] by (auto simp del: cl_num.simps split: if_splits)
    then show ?thesis using lst_inv_moved [OF assms(4,5) _ _ assms(8)] Op_recv assms(8) by auto
  next
    case (Op_send fd f)
    then have d: "d = make_request_data s (cl_num CL_READ_RESPONSE)" using e by (simp add: ask_entry_def)
    have "ask_entry PB s (Op_recv s, make_request_data s (cl_num PROCESS_RESPONSE))" by (simp add: ask_entry_def)
    moreover have "pl_sock pl0 = s" using assms(6) by (simp add: lst_ok_def)
    ultimately have "moved PB E s [] 0 ?pl pl'"
      using st lst_dispatch(2) [OF assms(3)] ok(1) unfolding d by (auto simp: moved_def lst_ok_def split: if_splits)
    moreover have "pl_received pl' = pl_received pl"
      using st lst_dispatch(2) [OF assms(3)] assms(8) unfolding d by (auto split: if_splits)
    ultimately show ?thesis using lst_inv_moved [OF assms(4,5) _ _ assms(8)] Op_send by auto
  next
    case Op_unprepared
    then have "d = 0" using e by (simp add: ask_entry_def)
    then have "pl' = ?pl \<or> pl' = ?pl\<lparr>pl_cycle := pl_cycle ?pl + 1\<rparr>"
      using st lst_dispatch(3) [OF assms(3)] by (auto split: if_splits)
    moreover have "pending ?pl = pending pl" by (simp add: pending_def filter_remove1 Op_unprepared)
    ultimately show ?thesis
      using assms(4,6,8) set_remove1_subset [of "(op, d)" "pl_ring pl"] by (auto simp: lst_inv_def ok(2) lst_ok_def pending_def)
  qed (use e in \<open>simp add: ask_entry_def\<close>)
qed

lemma with_reads_ask [simp]: "lst_inv (with_reads PB freed behind) = lst_inv PB"
proof -
  have "ask_entry (with_reads PB freed behind) = ask_entry PB" unfolding ask_entry_def [abs_def] with_reads_frames by (rule refl)
  then show ?thesis by (simp add: lst_inv_def [abs_def])
qed

lemma ask_inv_keep:
  assumes "ask_inv PB E s g" "lst_inv PB s pl" "pl_received pl = pl_received (ag_lst g)"
  shows "ask_inv PB E s (g\<lparr>ag_lst := pl, ag_frames := ag_frames g @ fs\<rparr>)"
  using assms by (auto simp: ask_inv_def)

text \<open>An error code taken for a length is beyond every buffer.\<close>

lemma failed_receive_faults:
  assumes "length buf = BUFFER_SIZE" "sint (r :: u32) < 0"
  shows "deserialize_block PB buf (unat r) = None"
proof -
  have "\<not> unat r \<le> 4096"
  proof
    assume "unat r \<le> 4096"
    moreover obtain k where k: "r = of_nat k" "unat r = k" using unsigned_word_eqI [of r "of_nat (unat r)"] by fastforce
    ultimately have "sint r = int k" unfolding k(1) by (simp add: signed_of_nat signed_take_bit_int_eq_self)
    then show False using assms(2) by simp
  qed
  then show ?thesis using assms(1) by (simp add: deserialize_block_def p2p__ipc_message__unpack_def)
qed

lemma ask_reach_inv:
  assumes "protobuf_ok PB" "clock_ok E" "\<not> bit s 31"
  shows "ask_reach PB E s h0 g \<Longrightarrow> ask_inv PB E s g"
proof (induction rule: ask_reach.induct)
  case start
  show ?case
    by (simp add: ask_inv_def lst_inv_def setup_p2p_listening_def ask_entry_def pending_def lst_ok_def)
next
  case (receive g fd d f freed behind sh pl)
  let ?PB = "with_reads PB freed behind" and ?pl = "lst_store f (ag_lst g)"
  have inv: "lst_inv PB s (ag_lst g)" using receive.IH by (simp add: ask_inv_def)
  then have ok: "lst_ok s ?pl" using receive.hyps(3) by (simp add: lst_inv_def lst_ok_def lst_store_def length_store_frame)
  have len: "unat (of_nat (length f) :: u32) = length f" using small_res(1) receive.hyps(3) by simp
  have buf: "pl_buffer ?pl = f @ drop (length f) (pl_buffer (ag_lst g))" by (simp add: lst_store_def store_frame_def)
  from lst_inv_complete [of ?PB E s "ag_lst g" "Op_recv fd" d ?pl sh "of_nat (length f)" pl] assms inv receive.hyps ok
  have pl: "lst_inv PB s pl" and
    "pl_received pl = pl_received (ag_lst g) \<or> (\<exists>b out. pl_received pl = [(b, out)] \<and>
      deserialize_block ?PB (pl_buffer ?pl) (length f) = Some (Some b) \<and> print_block_data E b = Some out)"
    by (auto simp: lst_store_def len)
  moreover have "deserialize_block ?PB (pl_buffer ?pl) (length f) = deserialize_block ?PB f (length f)"
    unfolding buf using deserialize_block_take [of "length f" "f @ drop (length f) (pl_buffer (ag_lst g))" ?PB] by simp
  ultimately consider "pl_received pl = pl_received (ag_lst g)"
    | b out where "pl_received pl = [(b, out)]" "read_from PB E f (b, out)"
    unfolding read_from_def fst_conv snd_conv by metis
  then show ?case
  proof cases
    case 1
    then show ?thesis using ask_inv_keep [OF receive.IH pl] by simp
  next
    case 2
    then show ?thesis using pl receive.IH by (auto simp: ask_inv_def)
  qed
next
  case (failed g fd d r freed behind sh pl)
  let ?PB = "with_reads PB freed behind"
  have inv: "lst_inv PB s (ag_lst g)" using failed.IH by (simp add: ask_inv_def)
  then have "deserialize_block ?PB (pl_buffer (ag_lst g)) (unat r) = None"
    using failed_receive_faults failed.hyps(3) by (simp add: lst_inv_def lst_ok_def)
  with lst_inv_complete [of ?PB E s "ag_lst g" "Op_recv fd" d "ag_lst g" sh r pl] assms inv failed.hyps
  have "lst_inv PB s pl" "pl_received pl = pl_received (ag_lst g)" by (auto simp: lst_inv_def)
  then show ?case using ask_inv_keep [OF failed.IH, of pl "[]"] by simp
next
  case (complete g op d freed behind sh r pl)
  let ?PB = "with_reads PB freed behind"
  have inv: "lst_inv PB s (ag_lst g)" using complete.IH by (simp add: ask_inv_def)
  with lst_inv_complete [of ?PB E s "ag_lst g" op d "ag_lst g" sh r pl] assms complete.hyps
  have "lst_inv PB s pl" "pl_received pl = pl_received (ag_lst g)" by (auto simp: lst_inv_def)
  then have "ask_inv PB E s (g\<lparr>ag_lst := pl\<rparr>)" using ask_inv_keep [OF complete.IH, of pl "[]"] by simp
  moreover have "fst x = s \<and> (\<exists>m \<in> questions. carries PB m (snd x))" if "x \<in> set (completed op)" for x
    using inv complete.hyps(2) that by (cases op) (auto simp: lst_inv_def ask_entry_def completed_def)
  ultimately show ?case by (auto simp: ask_inv_def)
qed

text \<open>
  C12.  Whatever the asking peer thread receives, from whatever it is connected to, and whatever its reads of freed
  memory and behind a string yield: it only ever sends PONG and ASK_IF_BLOCK_READY on its own socket, it has at most one
  operation outstanding there, it stores at most one block, after which none is outstanding, and that block is what
  \<open>deserialize_block\<close> reads from bytes it received.
\<close>

theorem asking_peer_invariant:
  assumes "protobuf_ok PB" "clock_ok E" "unat s < 2 ^ 31" "ask_reach PB E s h0 g"
  shows "(\<forall>(fd, f) \<in> set (ag_sent g). fd = s \<and>
      (carries PB P2P__IPC_MESSAGE__STATUS__PONG f \<or> carries PB P2P__IPC_MESSAGE__STATUS__ASK_IF_BLOCK_READY f)) \<and>
    (\<forall>e \<in> set (pl_ring (ag_lst g)). ask_entry PB s e) \<and>
    length (pending (ag_lst g)) + length (pl_received (ag_lst g)) \<le> 1 \<and>
    (\<forall>(b, out) \<in> set (pl_received (ag_lst g)). print_block_data E b = Some out \<and>
      (\<exists>f \<in> set (ag_frames g). \<exists>freed behind. deserialize_block (with_reads PB freed behind) f (length f) = Some (Some b)))"
  using ask_reach_inv [OF assms(1,2) fd_nonneg [OF assms(3)] assms(4)]
  unfolding ask_inv_def lst_inv_def read_from_def questions_def by fastforce

section \<open>Two nodes\<close>

lemma deserialize_block_status:
  assumes "deserialize_block PB f (length f) = Some (Some b)"
  shows "\<exists>m. pb_p2p_unpack PB f = Some m \<and> pm_status_code m = p2p_code P2P__IPC_MESSAGE__STATUS__BLOCK"
  using assms by (auto simp: deserialize_block_def p2p__ipc_message__unpack_def bind_eq_Some_conv simp del: p2p_code.simps split: if_splits)

text \<open>A frame of the serving thread, or the beginning of one, from which a block is read is the block.\<close>

lemma frame_ok_packed: "frame_ok PB b f \<Longrightarrow> f = [] \<or> (\<exists>m. p2p_packed PB m f)"
  by (auto simp: frame_ok_def block_frame_def peer_frame_def)

lemma block_from_frame:
  assumes "protobuf_ok PB" "protobuf_rejects_prefixes PB" "frame_ok PB b f'"
    and "deserialize_block (with_reads PB freed behind) (take k f') (length (take k f')) = Some (Some b')"
  shows "block_frame PB b f' \<and> same_block b b'"
proof -
  obtain m where m: "pb_p2p_unpack PB (take k f') = Some m" "pm_status_code m = p2p_code P2P__IPC_MESSAGE__STATUS__BLOCK"
    using deserialize_block_status [OF assms(4)] by auto
  let ?i = "p2p__ipc_message__init"
  have "0 \<notin> set (pm_date ?i)" "p2p_size ?i < 2 ^ 31" "0 < length (pb_p2p_pack PB ?i)"
    using assms(1) by (simp_all add: p2p__ipc_message__init_def p2p_size_def protobuf_ok_def)
  then have "pb_p2p_unpack PB (take 0 (pb_p2p_pack PB ?i)) = None"
    using assms(2) unfolding protobuf_rejects_prefixes_def by blast
  then have "f' \<noteq> []" using m(1) by auto
  then obtain pm where pm: "p2p_packed PB pm f'" using frame_ok_packed [OF assms(3)] by blast
  have "\<not> k < length f'" using m(1) pm assms(2) by (auto simp: p2p_packed_def protobuf_rejects_prefixes_def)
  then have f: "take k f' = f'" by simp
  have "\<not> peer_frame PB st f'" if "st \<in> replies" for st
    using m f that by (auto simp: peer_frame_def p2p_packed_def status_message_def replies_def)
  then have b: "block_frame PB b f'" using assms(3) \<open>f' \<noteq> []\<close> by (auto simp: frame_ok_def)
  moreover have "same_block b b'"
    using block_frame_read [of "with_reads PB freed behind" b f' "[]"] assms(4) b unfolding f by auto
  ultimately show ?thesis by blast
qed

lemma stored_block_facts:
  assumes "protobuf_ok PB" "protobuf_rejects_prefixes PB" "clock_ok E" "clock_ok E'" "unat s < 2 ^ 31"
    and "serve_reach PB E b h v" "ask_reach PB E' s h' g"
    and "\<forall>f \<in> set (ag_frames g). f = [] \<or> (\<exists>f' k. (fd, f') \<in> set (sg_sent v) \<and> f = take k f')"
    and "pl_received (ag_lst g) \<noteq> []"
  shows "holds_block PB b (sg_shared v) \<and> pending (ag_lst g) = [] \<and>
    (\<exists>b' out. pl_received (ag_lst g) = [(b', out)] \<and> print_block_data E' b' = Some out \<and> same_block b b')"
proof -
  have inv: "ask_inv PB E' s g" using ask_reach_inv [OF assms(1,4) fd_nonneg [OF assms(5)] assms(7)] .
  then obtain b' out where g: "pl_received (ag_lst g) = [(b', out)]" "pending (ag_lst g) = []"
    using assms(9) by (cases "pl_received (ag_lst g)") (auto simp: ask_inv_def lst_inv_def)
  with inv obtain f where f: "f \<in> set (ag_frames g)" "read_from PB E' f (b', out)" by (auto simp: ask_inv_def)
  then obtain freed behind where d: "deserialize_block (with_reads PB freed behind) f (length f) = Some (Some b')"
      "print_block_data E' b' = Some out" by (auto simp: read_from_def)
  have frame: "frame_ok PB c f'" if "serve_inv PB c v" "(fd, f') \<in> set (sg_sent v)" for c f'
    using that by (auto simp: serve_inv_def)
  have "\<exists>f' k. frame_ok PB c f' \<and> f = take k f'" if "serve_inv PB c v" for c
  proof -
    have "frame_ok PB c []" "f = [] \<Longrightarrow> f = take 0 []" by (simp_all add: frame_ok_def)
    then show ?thesis using assms(8) f(1) frame [OF that] by metis
  qed
  then have read: "\<exists>f'. block_frame PB c f' \<and> same_block c b'" if "serve_inv PB c v" for c
    using block_from_frame [OF assms(1,2), of c] d(1) that by blast
  have "\<not> serve_inv PB (b\<lparr>blk_nonce := []\<rparr>) v"
    using read [of "b\<lparr>blk_nonce := []\<rparr>"] by (auto simp: block_frame_def block_wf_def)
  then have "holds_block PB b (sg_shared v)" using serve_reach_unpublished [OF assms(1,3,6)] by blast
  moreover have "same_block b b'" using read serve_reach_inv [OF assms(1,3,6)] by blast
  ultimately show ?thesis using g d(2) by auto
qed

text \<open>
  C8.  Agreement between peers: let a node serve any number of neighbours, and let each receive of the asking thread of
  one of them deliver a frame that was sent to it, the beginning of one, or the end of the stream.  Then, whatever either
  thread's reads of freed memory and behind a string yield, if a block is ever stored, the serving node has published its
  block by then, only one is stored, nothing is outstanding after it, and it is the published block in every field, of the date
  the string up to its terminator.
\<close>

theorem stored_block_is_published:
  assumes "protobuf_ok PB" "protobuf_rejects_prefixes PB" "clock_ok E" "clock_ok E'" "unat s < 2 ^ 31"
    and "serve_reach PB E b h v" "ask_reach PB E' s h' g"
    and "\<forall>f \<in> set (ag_frames g). f = [] \<or> (\<exists>f' k. (fd, f') \<in> set (sg_sent v) \<and> f = take k f')"
    and "pl_received (ag_lst g) \<noteq> []"
  shows "holds_block PB b (sg_shared v) \<and> pending (ag_lst g) = [] \<and>
    (\<exists>b' out. pl_received (ag_lst g) = [(b', out)] \<and> print_block_data E' b' = Some out \<and>
      blk_nonce b' = blk_nonce b \<and> blk_merkle_root b' = blk_merkle_root b \<and> blk_previous_block b' = blk_previous_block b \<and>
      blk_difficulty b' = blk_difficulty b \<and> blk_timestamp_begin b' = blk_timestamp_begin b \<and>
      blk_timestamp_end b' = blk_timestamp_end b \<and> cstr (blk_date b') = cstr (blk_date b))"
  using stored_block_facts [OF assms] by (auto simp: same_block_def)

text \<open>The composition of two nodes is such a pair of runs.\<close>

lemma serve_completeI:
  "serve_reach PB E b h0 v \<Longrightarrow> (op, d) \<in> set (ps_ring (sg_srv v)) \<Longrightarrow> srv_complete PB E (sg_shared v) op d r (sg_srv v) = Some ps \<Longrightarrow>
    serve_reach PB E b h0 (v\<lparr>sg_srv := ps, sg_sent := sg_sent v @ completed op\<rparr>)"
  using serve_reach.complete [of PB E b h0 v op d "pb_freed_status PB" "pb_behind PB" r ps] by simp

lemma ask_receiveI:
  "ask_reach PB E s h0 g \<Longrightarrow> (Op_recv fd, d) \<in> set (pl_ring (ag_lst g)) \<Longrightarrow> length f \<le> BUFFER_SIZE \<Longrightarrow>
    lst_complete PB E sh (Op_recv fd) d (of_nat (length f)) (lst_store f (ag_lst g)) = Some pl \<Longrightarrow>
    ask_reach PB E s h0 (g\<lparr>ag_lst := pl, ag_frames := ag_frames g @ [f]\<rparr>)"
  using ask_reach.receive [of PB E s h0 g fd d f "pb_freed_status PB" "pb_behind PB" sh pl] by simp

lemma ask_completeI:
  "ask_reach PB E s h0 g \<Longrightarrow> (op, d) \<in> set (pl_ring (ag_lst g)) \<Longrightarrow> \<not> is_Op_recv op \<Longrightarrow>
    lst_complete PB E sh op d r (ag_lst g) = Some pl \<Longrightarrow>
    ask_reach PB E s h0 (g\<lparr>ag_lst := pl, ag_sent := ag_sent g @ completed op\<rparr>)"
  using ask_reach.complete [of PB E s h0 g op d "pb_freed_status PB" "pb_behind PB" sh r pl] by simp

definition paired :: "protobuf \<Rightarrow> env \<Rightarrow> env \<Rightarrow> block_t \<Rightarrow> u32 \<Rightarrow> u32 \<Rightarrow> heap \<Rightarrow> heap \<Rightarrow> peers \<Rightarrow> serving \<Rightarrow> asking \<Rightarrow> bool" where
  "paired PB E E' b fd s h h' p v g \<longleftrightarrow> serve_reach PB E b h v \<and> ask_reach PB E' s h' g \<and>
     sg_srv v = pe_srv p \<and> sg_shared v = pe_sh p \<and> ag_lst g = pe_lst p \<and>
     (\<forall>f \<in> set (pe_to_lst p) \<union> set (ag_frames g). (fd, f) \<in> set (sg_sent v)) \<and>
     (\<forall>f \<in> set (pe_to_srv p). length f \<le> BUFFER_SIZE)"

lemma frame_ok_length: "frame_ok PB b f \<Longrightarrow> length f \<le> BUFFER_SIZE"
  using peer_frame_carries by (auto simp: frame_ok_def block_frame_def carries_def)

lemma paired_step:
  assumes "protobuf_ok PB" "clock_ok E" "clock_ok E'" "\<not> bit s 31" "paired PB E E' b fd s h h' p v g" "peer_step PB E E' b fd p p'"
  shows "\<exists>v' g'. paired PB E E' b fd s h h' p' v' g'"
proof -
  note P = assms(5) [unfolded paired_def]
  have sv: "serve_inv PB b v" using serve_reach_inv [OF assms(1,2)] P by blast
  have lv: "ask_inv PB E' s g" using ask_reach_inv [OF assms(1,3,4)] P by blast
  from assms(6) show ?thesis
  proof cases
    case (accept d ps')
    with P serve_completeI [of PB E b h v Op_accept d fd ps'] show ?thesis
      by (intro exI [of _ "v\<lparr>sg_srv := ps'\<rparr>"] exI [of _ g]) (auto simp: paired_def completed_def)
  next
    case (srv_sent f d ps')
    with P serve_completeI [of PB E b h v "Op_send fd f" d "of_nat (length f)" ps'] show ?thesis
      by (intro exI [of _ "v\<lparr>sg_srv := ps', sg_sent := sg_sent v @ [(fd, f)]\<rparr>"] exI [of _ g]) (auto simp: paired_def completed_def)
  next
    case (srv_received d f fs ps')
    let ?v = "v\<lparr>sg_srv := srv_store fd f (sg_srv v)\<rparr>"
    have "serve_reach PB E b h ?v" using P srv_received serve_reach.receive [of PB E b h v fd d f] by simp
    with P srv_received serve_completeI [of PB E b h ?v "Op_recv fd" d "of_nat (length f)" ps'] show ?thesis
      by (intro exI [of _ "v\<lparr>sg_srv := ps'\<rparr>"] exI [of _ g]) (auto simp: paired_def completed_def srv_store_def)
  next
    case (lst_noop d pl')
    with P ask_completeI [of PB E' s h' g Op_unprepared d shared_init 0 pl'] show ?thesis
      by (intro exI [of _ v] exI [of _ "g\<lparr>ag_lst := pl'\<rparr>"]) (auto simp: paired_def completed_def)
  next
    case (lst_sent s' f d pl')
    have "ask_entry PB s (Op_send s' f, d)" using lv lst_sent P by (simp add: ask_inv_def lst_inv_def)
    then have "length f \<le> BUFFER_SIZE" by (auto simp: ask_entry_def carries_def)
    with P lst_sent ask_completeI [of PB E' s h' g "Op_send s' f" d shared_init "of_nat (length f)" pl'] show ?thesis
      by (intro exI [of _ v] exI [of _ "g\<lparr>ag_lst := pl', ag_sent := ag_sent g @ [(s', f)]\<rparr>"]) (auto simp: paired_def completed_def)
  next
    case (lst_received s' d f fs pl')
    have "(fd, f) \<in> set (sg_sent v)" using P lst_received by auto
    then have "length f \<le> BUFFER_SIZE" using sv frame_ok_length by (fastforce simp: serve_inv_def)
    with P lst_received ask_receiveI [of PB E' s h' g s' d f shared_init pl'] show ?thesis
      by (intro exI [of _ v] exI [of _ "g\<lparr>ag_lst := pl', ag_frames := ag_frames g @ [f]\<rparr>"]) (auto simp: paired_def)
  next
    case (block_made sh')
    with P serve_reach.publish [of PB E b h v sh'] show ?thesis
      by (intro exI [of _ "v\<lparr>sg_shared := sh'\<rparr>"] exI [of _ g]) (auto simp: paired_def)
  qed
qed

lemma peer_run_paired:
  assumes "protobuf_ok PB" "clock_ok E" "clock_ok E'" "\<not> bit s 31"
    and "(peer_step PB E E' b fd)\<^sup>*\<^sup>* (peers_init E s (shared_init\<lparr>sh_block_created_mtx := True\<rparr>) h h') p"
  shows "\<exists>v g. paired PB E E' b fd s h h' p v g"
  using assms(5)
proof (induction rule: rtranclp_induct)
  case base
  have "paired PB E E' b fd s h h' (peers_init E s (shared_init\<lparr>sh_block_created_mtx := True\<rparr>) h h')
    \<lparr>sg_shared = shared_init\<lparr>sh_block_created_mtx := True\<rparr>, sg_srv = event_loop_p2p_start (p2p_setup_buffers E h), sg_sent = []\<rparr>
    \<lparr>ag_lst = setup_p2p_listening s h', ag_frames = [], ag_sent = []\<rparr>"
    using serve_reach.lock [OF serve_reach.start, of PB E b h] ask_reach.start [of PB E' s h'] by (simp add: paired_def peers_init_def)
  then show ?case by blast
next
  case (step p1 p2)
  then show ?case using paired_step [OF assms(1-4)] by blast
qed

section \<open>Witnesses\<close>

lemma wire_peer_ok: "peer_ok wire_pb demo_env demo_env 5 6"
  using wire_pb_ok demo_clock_ok fd_nonneg [of 6] by (simp add: peer_ok_def freed_readable_def)

lemma demo_pair:
  assumes "holds_block wire_pb b sh" "\<not> sh_block_created_mtx sh" "\<not> sh_kill_thread_p2p sh"
  shows "\<exists>v g. serve_reach wire_pb demo_env b empty_heap v \<and> ask_reach wire_pb demo_env 6 empty_heap g \<and>
     (\<forall>f \<in> set (ag_frames g). f = [] \<or> (\<exists>f' k. (5, f') \<in> set (sg_sent v) \<and> f = take k f')) \<and> pl_received (ag_lst g) \<noteq> []"
proof -
  obtain p where p: "(peer_step wire_pb demo_env demo_env b 5)\<^sup>*\<^sup>* (peers_init demo_env 6 demo_locked empty_heap empty_heap) p"
      "stored b True (pe_lst p)" using delivery [OF wire_peer_ok assms] by blast
  then obtain v g where vg: "paired wire_pb demo_env demo_env b 5 6 empty_heap empty_heap p v g"
    using peer_run_paired [OF wire_pb_ok demo_clock_ok demo_clock_ok fd_nonneg [of 6], of b 5 empty_heap empty_heap p]
    by (auto simp: demo_locked_def)
  then have "\<forall>f \<in> set (ag_frames g). f = [] \<or> (\<exists>f' k. (5, f') \<in> set (sg_sent v) \<and> f = take k f')"
    unfolding paired_def by (metis UnI2 order_refl take_all)
  moreover have "pl_received (ag_lst g) \<noteq> []" using vg p(2) by (auto simp: paired_def stored_def)
  ultimately show ?thesis using vg unfolding paired_def by blast
qed

theorem stored_block_is_published_witness:
  "\<exists>v g b' out. serve_reach wire_pb demo_env block_zero empty_heap v \<and> ask_reach wire_pb demo_env 6 empty_heap g \<and>
     holds_block wire_pb block_zero (sg_shared v) \<and> pl_received (ag_lst g) = [(b', out)] \<and>
     blk_merkle_root b' = blk_merkle_root block_zero"
proof -
  obtain v g where vg: "serve_reach wire_pb demo_env block_zero empty_heap v" "ask_reach wire_pb demo_env 6 empty_heap g"
      "\<forall>f \<in> set (ag_frames g). f = [] \<or> (\<exists>f' k. (5, f') \<in> set (sg_sent v) \<and> f = take k f')" "pl_received (ag_lst g) \<noteq> []"
    using demo_pair demo_published [OF wire_pb_ok] by blast
  from stored_block_is_published [OF wire_pb_ok wire_pb_rejects_prefixes demo_clock_ok demo_clock_ok _ vg] vg(1,2)
  show ?thesis by auto
qed

theorem asking_peer_invariant_witness:
  "\<exists>g b out f. ask_reach wire_pb demo_env 6 empty_heap g \<and> pl_received (ag_lst g) = [(b, out)] \<and> f \<in> set (ag_frames g) \<and>
     print_block_data demo_env b = Some out \<and>
     (\<exists>freed behind. deserialize_block (with_reads wire_pb freed behind) f (length f) = Some (Some b))"
proof -
  obtain g where g: "ask_reach wire_pb demo_env 6 empty_heap g" "pl_received (ag_lst g) \<noteq> []"
    using demo_pair demo_published [OF wire_pb_ok] by blast
  note inv = asking_peer_invariant [OF wire_pb_ok demo_clock_ok _ g(1)]
  obtain b out where "pl_received (ag_lst g) = [(b, out)]"
    using g(2) inv by (cases "pl_received (ag_lst g)") auto
  then show ?thesis using g(1) inv by fastforce
qed

end
