(* ===== verification/EndToEnd.thy ===== *)
theory EndToEnd
  imports Session AskInv
begin

text \<open>
  The whole network: the message server, a client node with its message thread and its serving peer thread,
  and the asking thread of a neighbour.
\<close>

text \<open>
  C4.  End to end over three machines: let a client be served by the message server, among other clients and not disturbed by
  one that has finished, until it has its block; let its serving peer thread talk to any number of neighbours; and let each
  receive of the asking thread of one of them deliver a frame sent to it, the beginning of one, or the end of the stream.  Then the
  block is in the shared buffer and the mutex free, so that publishing it is a step of the node whenever the mutex is held, and
  whatever reads of freed memory and behind strings yield, a block the neighbour ever stores carries the hash of the Merkle root over
  the 512 messages in the buffer of the server and a nonce that solves the puzzle for that root, and it is the only one.
\<close>

theorem server_to_neighbour:
  assumes "in_session PB Es E fd s" "\<not> ss_disturbed s" "cl_block_filled (ss_cl s)" "cl_block (ss_cl s) = Some b"
    and "protobuf_rejects_prefixes PB" "clock_ok E'" "unat sk < 2 ^ 31"
    and "serve_reach PB E b h1 v" "ask_reach PB E' sk h2 g"
    and "\<forall>f \<in> set (ag_frames g). f = [] \<or> (\<exists>f' k. (pfd, f') \<in> set (sg_sent v) \<and> f = take k f')"
    and "(b', out) \<in> set (pl_received (ag_lst g))"
  shows "holds_block PB b (cl_shared (ss_cl s)) \<and>
    (\<forall>v'. serve_reach PB E b h1 v' \<and> sh_block_created_mtx (sg_shared v') \<longrightarrow>
      serve_reach PB E b h1 (v'\<lparr>sg_shared := cl_shared (ss_cl s)\<rparr>)) \<and>
    pl_received (ag_lst g) = [(b', out)] \<and>
    blk_merkle_root b' = env_generichash E (block_root E (map fst (slot_list (ss_srv s) 512))) \<and>
    puzzle_solved (env_generichash E) (block_root E (map fst (slot_list (ss_srv s) 512))) 3 (blk_nonce b')"
proof -
  have ok: "protobuf_ok PB" "clock_ok E" using assms(1) by (simp_all add: in_session_def session_ok_def)
  have p: "published PB E (map fst (slot_list (ss_srv s) 512)) (ss_cl s)" using block_of_session [OF assms(1-3)] by blast
  then have b: "holds_block PB b (cl_shared (ss_cl s))" "\<not> sh_block_created_mtx (cl_shared (ss_cl s))"
      "\<not> sh_kill_thread_p2p (cl_shared (ss_cl s))"
      "blk_merkle_root b = env_generichash E (block_root E (map fst (slot_list (ss_srv s) 512)))"
      "puzzle_solved (env_generichash E) (block_root E (map fst (slot_list (ss_srv s) 512))) 3 (blk_nonce b)"
    using assms(4) by (auto simp: published_def Let_def)
  have "pl_received (ag_lst g) \<noteq> []" using assms(11) by auto
  note stored_block_facts [OF ok(1) assms(5) ok(2) assms(6-10) this]
  then have "pl_received (ag_lst g) = [(b', out)]" "same_block b b'" using assms(11) by auto
  then show ?thesis using b serve_reach.publish [OF _ _ b(1-3)] by (auto simp: same_block_def)
qed

theorem server_to_neighbour_witness:
  "\<exists>s g b b' out. in_session wire_pb demo_env demo_env 5 s \<and> cl_block (ss_cl s) = Some b \<and>
     ask_reach wire_pb demo_env 6 empty_heap g \<and> pl_received (ag_lst g) = [(b', out)] \<and>
     blk_merkle_root b' = env_generichash demo_env (block_root demo_env (map fst (slot_list (ss_srv s) 512)))"
proof -
  have ok: "session_ok wire_pb demo_env demo_env 5" using demo_session_ok wire_pb_ok by (simp add: session_ok_def)
  obtain sv where sv: "server_inv demo_env sv" "sv_sended_N sv ! unat (5 :: u32) = 0" using demo_accepted by blast
  then obtain s where s: "in_session wire_pb demo_env demo_env 5 s" "\<not> ss_disturbed s" "session_done wire_pb demo_env demo_env 5 s"
    using whole_session [OF ok demo_indeterminate] by blast
  then obtain b where b: "cl_block (ss_cl s) = Some b" "cl_block_filled (ss_cl s)" "holds_block wire_pb b (cl_shared (ss_cl s))"
      "\<not> sh_block_created_mtx (cl_shared (ss_cl s))" "\<not> sh_kill_thread_p2p (cl_shared (ss_cl s))"
    by (auto simp: session_done_def published_def Let_def)
  obtain v g where vg: "serve_reach wire_pb demo_env b empty_heap v" "ask_reach wire_pb demo_env 6 empty_heap g"
      "\<forall>f \<in> set (ag_frames g). f = [] \<or> (\<exists>f' k. (5, f') \<in> set (sg_sent v) \<and> f = take k f')" "pl_received (ag_lst g) \<noteq> []"
    using demo_pair [OF b(3-5)] by blast
  then obtain b' out where r: "(b', out) \<in> set (pl_received (ag_lst g))" by (cases "pl_received (ag_lst g)") auto
  have "unat (6 :: u32) < 2 ^ 31" by simp
  from server_to_neighbour [OF s(1,2) b(2,1) wire_pb_rejects_prefixes demo_clock_ok this vg(1-3) r] s(1) b(1) vg(2)
  show ?thesis by blast
qed

end
