(* ===== verification/Segments.thy ===== *)
theory Segments
  imports AskInv
begin

text \<open>
  The two peer threads over a connection that is a stream of bytes: between any two steps what is in flight
  may be cut into other segments, and a receive delivers one segment.  Runs in which every receive delivers a
  frame are those of \<open>Peers\<close>.  In all runs the conversation is followed until a thread faults, or until a
  receive of the asking thread reaches into the FINISH behind the block.  Whatever the segments, the
  asking node stores at most one block, and all of it but the date is the published one.  All this supposes
  \<open>freed_readable\<close>, which \<open>peer_ok\<close> contains; without it there is \<open>AskInv\<close>.
\<close>

section \<open>Segments\<close>

definition resegments :: "bytes list \<Rightarrow> bytes list \<Rightarrow> bool" where
  "resegments cs ds \<longleftrightarrow> concat ds = concat cs \<and> (\<forall>d \<in> set ds. d \<noteq> [] \<and> length d \<le> BUFFER_SIZE)"

inductive tcp_step :: "protobuf \<Rightarrow> env \<Rightarrow> env \<Rightarrow> block_t \<Rightarrow> u32 \<Rightarrow> peers \<Rightarrow> peers \<Rightarrow> bool" for PB E E' b fd where
  thread: "peer_step PB E E' b fd p p' \<Longrightarrow> tcp_step PB E E' b fd p p'"
| to_lst: "resegments (pe_to_lst p) cs \<Longrightarrow> tcp_step PB E E' b fd p (p\<lparr>pe_to_lst := cs\<rparr>)"
| to_srv: "resegments (pe_to_srv p) cs \<Longrightarrow> tcp_step PB E E' b fd p (p\<lparr>pe_to_srv := cs\<rparr>)"

lemma resegments_trans: "resegments cs ds \<Longrightarrow> resegments ds es \<Longrightarrow> resegments cs es"
  by (simp add: resegments_def)

lemma resegments_snoc: "resegments cs ds \<Longrightarrow> f \<noteq> [] \<Longrightarrow> length f \<le> BUFFER_SIZE \<Longrightarrow> resegments (cs @ [f]) (ds @ [f])"
  by (auto simp: resegments_def)

lemma resegments_Nil: "resegments [] cs \<longleftrightarrow> cs = []"
  by (cases cs) (auto simp: resegments_def)

lemma resegments_ConsD: "resegments (f # cs) (f # ds) \<Longrightarrow> resegments cs ds"
  by (simp add: resegments_def)

text \<open>The first segment of one or two frames.\<close>

lemma resegments_one:
  assumes "resegments [g] (f # fs)"
  shows "(f = g \<and> fs = []) \<or> (\<exists>k. 0 < k \<and> k < length g \<and> f = take k g)"
proof (cases "concat fs = []")
  case True
  then have "fs = []" using assms by (cases fs) (auto simp: resegments_def)
  then show ?thesis using assms by (auto simp: resegments_def)
next
  case False
  have "g = f @ concat fs" "f \<noteq> []" using assms by (auto simp: resegments_def)
  then show ?thesis using False by (intro disjI2 exI [of _ "length f"]) auto
qed

lemma resegments_two:
  assumes "resegments [g, g'] (f # fs)"
  shows "(f = g \<and> resegments [g'] fs) \<or> (\<exists>k. 0 < k \<and> k < length g \<and> f = take k g) \<or>
    (\<exists>k. 0 < k \<and> k < length g' \<and> f = g @ take k g') \<or> f = g @ g'"
proof -
  have e: "f @ concat fs = g @ g'" "f \<noteq> []" using assms by (auto simp: resegments_def)
  then have f: "f = take (length f) (g @ g')" by (metis append_eq_conv_conj)
  consider "length f < length g" | "length f = length g" | "length g < length f" "length f < length g + length g'"
    | "length f = length g + length g'" using arg_cong [OF e(1), of length] by fastforce
  then show ?thesis
  proof cases
    case 1
    then show ?thesis using f e(2) by (intro disjI2 disjI1 exI [of _ "length f"]) simp
  next
    case 2
    then have "f = g" using f by simp
    then show ?thesis using assms by (auto simp: resegments_def)
  next
    case 3
    then show ?thesis using f by (intro disjI2 disjI2 disjI1 exI [of _ "length f - length g"]) simp
  next
    case 4
    then show ?thesis using f by simp
  qed
qed

section \<open>What the threads read from a segment\<close>

text \<open>The laws of the library that matter for segments.\<close>

definition stream_ok :: "protobuf \<Rightarrow> bool" where
  "stream_ok PB \<longleftrightarrow> protobuf_merges PB \<and> protobuf_rejects_prefixes PB \<and> protobuf_mixes PB"

lemma wire_pb_stream_ok: "stream_ok wire_pb"
  by (simp add: stream_ok_def wire_pb_merges wire_pb_rejects_prefixes wire_pb_mixes)

lemma packed_prefix: "stream_ok PB \<Longrightarrow> p2p_packed PB m g \<Longrightarrow> k < length g \<Longrightarrow> pb_p2p_unpack PB (take k g) = None"
  by (simp add: stream_ok_def p2p_packed_def protobuf_rejects_prefixes_def)

lemma packed_second:
  assumes "stream_ok PB" "p2p_packed PB a g" "p2p_packed PB b g'" "k < length g'" "pb_p2p_unpack PB (g @ take k g') = Some m"
  shows "p2p_mixed a b m"
  using assms unfolding stream_ok_def p2p_packed_def protobuf_mixes_def by blast

lemma packed_both:
  "stream_ok PB \<Longrightarrow> p2p_packed PB a g \<Longrightarrow> p2p_packed PB b g' \<Longrightarrow> pb_p2p_unpack PB (g @ g') = Some (p2p_merge a b)"
  unfolding stream_ok_def p2p_packed_def protobuf_merges_def by blast

lemma block_frame_packed: "block_frame PB b g \<Longrightarrow> p2p_packed PB (block_message b) g"
  by (simp add: block_frame_def)

lemma peer_frame_packed: "peer_frame PB m g \<Longrightarrow> \<exists>d. length d < 35 \<and> p2p_packed PB (status_message d m) g"
  by (simp add: peer_frame_def)

lemma mixed_block:
  assumes "p2p_mixed (block_message b) (status_message d s) m"
  shows "m = (block_message b)\<lparr>pm_date := pm_date m\<rparr>"
  using assms by (cases m) (simp add: p2p_mixed_def block_message_def status_message_def p2p__ipc_message__init_def)

lemma carries_bounds: "carries PB m f \<Longrightarrow> f \<noteq> [] \<and> length f \<le> BUFFER_SIZE"
  by (simp add: carries_def)

text \<open>Part of a frame is a fault of either thread.\<close>

lemma srv_reads_part:
  assumes "peer_ok PB E E' fd s" "peers_base PB b s r p" "pb_p2p_unpack PB f = None" "f \<noteq> []" "length f \<le> BUFFER_SIZE"
  shows "srv_complete PB E (pe_sh p) (Op_recv fd) (make_request_data fd (p2p_num FLAG_TEST_RESPONSE)) (of_nat (length f))
    (srv_store fd f (pe_srv p)) = None"
proof -
  have len: "length f \<le> 4096" "unat fd < 100" "\<not> sh_kill_thread_p2p (pe_sh p)" "unat fd < length (ps_buffers (pe_srv p))"
    using assms(1,2,5) by (simp_all add: peer_ok_def peers_base_def srv_ok_def)
  show ?thesis
    unfolding srv_complete_def
    by (rule peers_read_garbage(1) [OF assms(3,4) len(1,3,2)]) (use len(4) in \<open>simp add: srv_store_def store_frame_def\<close>)
qed

lemma lst_reads_part:
  assumes "peer_ok PB E E' fd s" "pb_p2p_unpack PB f = None" "f \<noteq> []" "length f \<le> BUFFER_SIZE"
  shows "lst_complete PB E' shared_init (Op_recv s) (make_request_data s (cl_num PROCESS_RESPONSE)) (of_nat (length f))
    (lst_store f pl) = None"
proof -
  have s: "\<not> bit s 31" "length f \<le> 4096" using assms(1,4) by (simp_all add: peer_ok_def)
  have "P2P_deserialize_STATUS PB (store_frame f (pl_buffer pl)) (unat (of_nat (length f) :: u32)) = None"
    using assms(2) small_res(1) [OF s(2)] by (simp add: P2P_deserialize_STATUS_def p2p__ipc_message__unpack_def store_frame_def)
  then show ?thesis
    unfolding lst_complete_def lst_dispatch(1) [OF s(1)] by (simp add: process_response_def lst_store_def)
qed

text \<open>The block with the first fields of FINISH behind it.\<close>

lemma process_mixed:
  assumes "freed_readable PB" "block_wf b" "pb_p2p_unpack PB f = Some ((block_message b)\<lparr>pm_date := d\<rparr>)"
    and "length f \<le> BUFFER_SIZE" "pl_buffer pl = f @ rest"
  shows "\<exists>b' out. process_response PB E (of_nat (length f)) pl = Some (pl\<lparr>pl_received := pl_received pl @ [(b', out)]\<rparr>) \<and>
    same_block (b\<lparr>blk_date := blk_date b'\<rparr>) b' \<and> (0 \<notin> set d \<and> length d < 35 \<longrightarrow> cstr (blk_date b') = d)"
proof -
  have len: "length f \<le> 4096" using assms(4) by simp
  have u: "p2p__ipc_message__unpack PB (length f) (pl_buffer pl) = Some ((block_message b)\<lparr>pm_date := d\<rparr>)"
    using assms(3,5) by (simp add: p2p__ipc_message__unpack_def)
  have behind: "pb_behind PB m \<noteq> None" for m using assms(1) by (simp add: freed_readable_def)
  obtain b' where b': "deserialize_block PB (pl_buffer pl) (length f) = Some (Some b')" "block_wf b'"
      "same_block (b\<lparr>blk_date := blk_date b'\<rparr>) b'" "0 \<notin> set d \<and> length d < 35 \<longrightarrow> cstr (blk_date b') = d"
    using deserialize_block_readable [OF u assms(2) behind] deserialize_block_Some [OF u assms(2)] by blast
  obtain out where out: "print_block_data E b' = Some out" using print_block_ok [OF b'(2)] by blast
  have "P2P_deserialize_STATUS PB (pl_buffer pl) (length f) = Some (p2p_code P2P__IPC_MESSAGE__STATUS__BLOCK)"
    using u assms(1) by (simp add: P2P_deserialize_STATUS_def freed_readable_def block_message_def)
  then show ?thesis
    using small_res(1) [OF len] b' out by (intro exI [of _ b'] exI [of _ out]) (simp add: process_response_def)
qed

lemma lst_reads_mixed:
  assumes "peer_ok PB E E' fd s" "block_wf b" "pb_p2p_unpack PB f = Some ((block_message b)\<lparr>pm_date := d\<rparr>)" "length f \<le> BUFFER_SIZE"
  shows "\<exists>b' out. lst_complete PB E' shared_init (Op_recv s) (make_request_data s (cl_num PROCESS_RESPONSE)) (of_nat (length f))
      (lst_store f pl) = Some (pl\<lparr>pl_buffer := store_frame f (pl_buffer pl), pl_ring := remove1 (L_recv s) (pl_ring pl),
        pl_received := pl_received pl @ [(b', out)], pl_cycle := pl_cycle pl + 1\<rparr>) \<and>
    same_block (b\<lparr>blk_date := blk_date b'\<rparr>) b'"
proof -
  have s: "\<not> bit s 31" "freed_readable PB" using assms(1) by (simp_all add: peer_ok_def)
  let ?pl = "(lst_store f pl)\<lparr>pl_ring := remove1 (L_recv s) (pl_ring pl)\<rparr>"
  have "pl_buffer ?pl = f @ drop (length f) (pl_buffer pl)" by (simp add: lst_store_def store_frame_def)
  from process_mixed [OF s(2) assms(2-4) this, of E'] obtain b' out where
    "process_response PB E' (of_nat (length f)) ?pl = Some (?pl\<lparr>pl_received := pl_received pl @ [(b', out)]\<rparr>)"
    "same_block (b\<lparr>blk_date := blk_date b'\<rparr>) b'" by (auto simp: lst_store_def)
  then show ?thesis
    unfolding lst_complete_def lst_dispatch(1) [OF s(1)] by (intro exI [of _ b'] exI [of _ out]) (simp add: lst_store_def)
qed

text \<open>The block with all of FINISH behind it.\<close>

lemma lst_reads_finish:
  assumes "peer_ok PB E E' fd s" "carries PB P2P__IPC_MESSAGE__STATUS__FINISH f"
  shows "lst_complete PB E' shared_init (Op_recv s) (make_request_data s (cl_num PROCESS_RESPONSE)) (of_nat (length f))
    (lst_store f pl) = Some (pl\<lparr>pl_buffer := store_frame f (pl_buffer pl), pl_ring := remove1 (L_recv s) (pl_ring pl),
      pl_cycle := pl_cycle pl + 1\<rparr>)"
proof -
  have s: "\<not> bit s 31" "freed_readable PB" using assms(1) by (simp_all add: peer_ok_def)
  show ?thesis
    unfolding lst_complete_def lst_dispatch(1) [OF s(1)]
    using lst_status_frame [OF s(2) assms(2), of "(lst_store f pl)\<lparr>pl_ring := remove1 (L_recv s) (pl_ring pl)\<rparr>" "pl_buffer pl" E']
    by (simp add: lst_store_def)
qed

section \<open>Simulation\<close>

text \<open>In step: with the frames put back together, the nodes are in a phase of the conversation.\<close>

definition segmented :: "peers \<Rightarrow> peers \<Rightarrow> bool" where
  "segmented q p \<longleftrightarrow> pe_srv q = pe_srv p \<and> pe_lst q = pe_lst p \<and> pe_sh q = pe_sh p \<and>
     resegments (pe_to_lst q) (pe_to_lst p) \<and> resegments (pe_to_srv q) (pe_to_srv p)"

definition in_step :: "protobuf \<Rightarrow> block_t \<Rightarrow> u32 \<Rightarrow> u32 \<Rightarrow> bool \<times> conv \<Rightarrow> peers \<Rightarrow> bool" where
  "in_step PB b fd s rc p \<longleftrightarrow> (\<exists>n q. peers_rel PB b fd s n rc q \<and> segmented q p)"

text \<open>Over: the asking thread has read the block together with what is behind it, and nothing that could
  change what it stored is pending.\<close>

definition redated :: "block_t \<Rightarrow> (block_t \<times> string) list \<Rightarrow> bool" where
  "redated b bs \<longleftrightarrow> bs = [] \<or> (\<exists>b' out. bs = [(b', out)] \<and> same_block (b\<lparr>blk_date := blk_date b'\<rparr>) b')"

definition over :: "block_t \<Rightarrow> u32 \<Rightarrow> peers \<Rightarrow> bool" where
  "over b fd p \<longleftrightarrow> (\<exists>n. rings n [S_recv fd] [] p) \<and> pe_to_srv p = [] \<and> ps_current_fd (pe_srv p) \<noteq> - 1 \<and>
     \<not> sh_block_created_mtx (pe_sh p) \<and> redated b (pl_received (pe_lst p))"

lemma over_step:
  assumes "peer_ok PB E E' fd s" "over b fd p" "tcp_step PB E E' b fd p p'"
  shows "over b fd p'"
  using assms(3)
proof cases
  case thread
  obtain n where n: "rings n [S_recv fd] [] p" using assms(2) by (auto simp: over_def)
  have s: "\<not> bit s 31" using assms(1) by (simp add: peer_ok_def)
  from thread show ?thesis
  proof cases
    case (lst_noop d pl')
    then have "n" "d = 0" "pl_ring (pe_lst p) = [(Op_unprepared, 0)]" using n by (auto simp: rings_def split: if_splits)
    then have "pl' = (pe_lst p)\<lparr>pl_ring := [], pl_cycle := pl_cycle (pe_lst p) + 1\<rparr>"
      using lst_noop lst_dispatch(3) [OF s, of PB E' 0 "(pe_lst p)\<lparr>pl_ring := []\<rparr>"] by (simp add: lst_complete_def)
    then show ?thesis using assms(2) lst_noop n by (auto simp: over_def rings_def)
  qed (use n assms(2) in \<open>auto simp: over_def rings_def split: if_splits\<close>)
qed (use assms(2) in \<open>auto simp: over_def rings_def resegments_Nil\<close>)

text \<open>Frames on a ring are not empty and fit into a buffer.\<close>

lemma sent_frame_bounds:
  assumes "peers_rel PB b fd s n (r, c) p"
  shows "(Op_send fd f, d) \<in> set (ps_ring (pe_srv p)) \<Longrightarrow> f \<noteq> [] \<and> length f \<le> BUFFER_SIZE"
    and "(Op_send s' f, d) \<in> set (pl_ring (pe_lst p)) \<Longrightarrow> f \<noteq> [] \<and> length f \<le> BUFFER_SIZE"
proof -
  obtain sr lr where R: "rings n sr lr p" "conv_shape PB b fd s c sr lr (pe_to_lst p) (pe_to_srv p)"
    using assms by (rule peers_relE)
  note frames = carries_bounds [OF peer_frame_carries] carries_bounds [OF block_frame_carries]
  show "f \<noteq> [] \<and> length f \<le> BUFFER_SIZE" if "(Op_send fd f, d) \<in> set (ps_ring (pe_srv p))"
    using R that by (cases c) (auto simp: rings_def split: if_splits dest!: frames)
  show "f \<noteq> [] \<and> length f \<le> BUFFER_SIZE" if "(Op_send s' f, d) \<in> set (pl_ring (pe_lst p))"
    using R that by (cases c) (auto simp: rings_def split: if_splits dest!: frames)
qed

lemma srv_received_segment:
  assumes "peer_ok PB E E' fd s" "stream_ok PB" "peers_rel PB b fd s n (r, c) q" "segmented q p"
    and "pe_to_srv p = f # fs" "(Op_recv fd, d) \<in> set (ps_ring (pe_srv p))"
    and "srv_complete PB E (pe_sh p) (Op_recv fd) d (of_nat (length f)) (srv_store fd f (pe_srv p)) = Some ps'"
  shows "\<exists>c'. conv_step (r, c) (r, c') \<and> in_step PB b fd s (r, c') (p\<lparr>pe_srv := ps', pe_to_srv := fs\<rparr>)"
proof -
  note seg = assms(4) [unfolded segmented_def assms(5)]
  obtain sr lr where R: "peers_base PB b s r q" "rings n sr lr q" "conv_shape PB b fd s c sr lr (pe_to_lst q) (pe_to_srv q)"
    using assms(3) by (rule peers_relE)
  have "pe_to_srv q \<noteq> []" using seg by (auto simp: resegments_Nil)
  then obtain m g where g: "c = L_sent m" "pe_to_srv q = [g]" "peer_frame PB m g" "sr = [S_recv fd]" using R(3) by (cases c) auto
  have d: "d = make_request_data fd (p2p_num FLAG_TEST_RESPONSE)" using assms(6) R(2) g(4) seg by (auto simp: rings_def)
  obtain dt where pk: "p2p_packed PB (status_message dt m) g" using peer_frame_packed [OF g(3)] by blast
  have f: "f \<noteq> []" "length f \<le> BUFFER_SIZE" using seg by (auto simp: resegments_def)
  have "pb_p2p_unpack PB f \<noteq> None"
    using srv_reads_part [OF assms(1) R(1) _ f] assms(7) d seg by auto
  then have fg: "f = g" "fs = []"
    using resegments_one [of g f fs] seg packed_prefix [OF assms(2) pk] g(2) by auto
  with sim_srv_received [OF assms(1,3), of d f fs ps'] assms(6,7) g(2) seg obtain c' where
    c': "conv_step (r, c) (r, c')" "peers_rel PB b fd s n (r, c') (q\<lparr>pe_srv := ps', pe_to_srv := fs\<rparr>)" by auto
  moreover have "segmented (q\<lparr>pe_srv := ps', pe_to_srv := fs\<rparr>) (p\<lparr>pe_srv := ps', pe_to_srv := fs\<rparr>)"
    using seg fg by (simp add: segmented_def resegments_Nil)
  ultimately show ?thesis unfolding in_step_def by blast
qed

text \<open>The first segment that reaches the asking thread: a whole frame, or the block and more.\<close>

lemma lst_received_segment:
  assumes "peer_ok PB E E' fd s" "stream_ok PB" "peers_rel PB b fd s n (r, c) q" "segmented q p"
    and "pe_to_lst p = f # fs" "(Op_recv s', d) \<in> set (pl_ring (pe_lst p))"
    and "lst_complete PB E' shared_init (Op_recv s') d (of_nat (length f)) (lst_store f (pe_lst p)) = Some pl'"
  shows "(\<exists>fs'. pe_to_lst q = f # fs' \<and> resegments fs' fs) \<or>
    (\<exists>g g'. c = Finished False \<and> pe_to_lst q = [g, g'] \<and> s' = s \<and> d = make_request_data s (cl_num PROCESS_RESPONSE) \<and>
      block_frame PB b g \<and> peer_frame PB P2P__IPC_MESSAGE__STATUS__FINISH g' \<and>
      ((\<exists>k. 0 < k \<and> k < length g' \<and> f = g @ take k g') \<or> f = g @ g'))"
proof -
  note seg = assms(4) [unfolded segmented_def assms(5)]
  obtain sr lr where R: "conv_ok c" "rings n sr lr q" "conv_shape PB b fd s c sr lr (pe_to_lst q) (pe_to_srv q)"
    using assms(3) by (rule peers_relE)
  have f: "f \<noteq> []" "length f \<le> BUFFER_SIZE" using seg by (auto simp: resegments_def)
  have whole: "pb_p2p_unpack PB f \<noteq> None" if "(Op_recv s', d) = L_recv s"
    using lst_reads_part [OF assms(1) _ f, of "pe_lst p"] assms(7) that by auto
  have "pe_to_lst q \<noteq> []" using seg by (auto simp: resegments_Nil)
  moreover have mem: "(Op_recv s', d) \<in> set lr" using assms(6) R(2) seg by (auto simp: rings_def split: if_splits)
  ultimately consider (one) g m where "pe_to_lst q = [g]" "peer_frame PB m g \<or> block_frame PB b g" "(Op_recv s', d) = L_recv s"
    | (two) g g' where "c = Finished False" "pe_to_lst q = [g, g']" "block_frame PB b g"
        "peer_frame PB P2P__IPC_MESSAGE__STATUS__FINISH g'" "(Op_recv s', d) = L_recv s"
    using R(3) by (cases c) (auto split: if_splits simp del: cl_num.simps)
  then show ?thesis
  proof cases
    case one
    obtain pm where "p2p_packed PB pm g" using one(2) peer_frame_packed block_frame_packed by blast
    then show ?thesis
      using whole [OF one(3)] resegments_one [of g f fs] seg packed_prefix [OF assms(2)] one(1) by (auto simp: resegments_Nil)
  next
    case two
    then show ?thesis
      using whole [OF two(5)] resegments_two [of g g' f fs] seg packed_prefix [OF assms(2) block_frame_packed [OF two(3)]] by auto
  qed
qed

text \<open>The block read together with what is behind it.\<close>

lemma lst_received_more:
  assumes "peer_ok PB E E' fd s" "stream_ok PB" "peers_rel PB b fd s n (r, Finished False) q" "segmented q p"
    and "block_frame PB b g" "peer_frame PB P2P__IPC_MESSAGE__STATUS__FINISH g'" "length f \<le> BUFFER_SIZE"
    and "(\<exists>k. 0 < k \<and> k < length g' \<and> f = g @ take k g') \<or> f = g @ g'"
    and "lst_complete PB E' shared_init (Op_recv s) (make_request_data s (cl_num PROCESS_RESPONSE)) (of_nat (length f))
      (lst_store f (pe_lst p)) = Some pl'"
  shows "over b fd (p\<lparr>pe_lst := pl', pe_to_lst := fs\<rparr>)"
proof -
  note seg = assms(4) [unfolded segmented_def]
  obtain sr lr where R: "block_phase (Finished False) \<longrightarrow> r" "peers_base PB b s r q"
      "ps_current_fd (pe_srv q) = - 1 \<longleftrightarrow> Finished False = Unconnected"
      "stored b (delivered (Finished False)) (pe_lst q)" "rings n sr lr q"
      "conv_shape PB b fd s (Finished False) sr lr (pe_to_lst q) (pe_to_srv q)"
    using assms(3) by (rule peers_relE)
  have lr: "sr = [S_recv fd]" "lr = [L_recv s]" "pe_to_srv p = []" "pl_received (pe_lst p) = []"
    using R(4,6) seg by (auto simp: resegments_Nil stored_def)
  have rest: "ps_current_fd (pe_srv p) \<noteq> - 1" "\<not> sh_block_created_mtx (pe_sh p)"
    using R(1-3) seg by (auto simp: peers_base_def)
  have ring: "remove1 (L_recv s) (pl_ring (pe_lst p)) = (if n then [(Op_unprepared, 0)] else [])"
    using rings_remove [of n sr "L_recv s" q] R(5) lr(2) seg by auto
  have overI: "over b fd (p\<lparr>pe_lst := pl', pe_to_lst := fs\<rparr>)"
    if "pl_ring pl' = remove1 (L_recv s) (pl_ring (pe_lst p))" "redated b (pl_received pl')"
    using that rest lr R(5) ring seg by (auto simp: over_def rings_def)
  obtain d where pk: "p2p_packed PB (block_message b) g" "p2p_packed PB (status_message d P2P__IPC_MESSAGE__STATUS__FINISH) g'"
    using block_frame_packed [OF assms(5)] peer_frame_packed [OF assms(6)] by blast
  from assms(8) show ?thesis
  proof
    assume "\<exists>k. 0 < k \<and> k < length g' \<and> f = g @ take k g'"
    then obtain k where k: "k < length g'" "f = g @ take k g'" by blast
    have ne: "f \<noteq> []" using k(2) pk(1) by (auto simp: p2p_packed_def)
    obtain m where m: "pb_p2p_unpack PB f = Some m"
      using lst_reads_part [OF assms(1) _ ne assms(7)] assms(9) by (cases "pb_p2p_unpack PB f") auto
    then have "m = (block_message b)\<lparr>pm_date := pm_date m\<rparr>"
      using packed_second [OF assms(2) pk k(1)] k(2) mixed_block by blast
    with m have "pb_p2p_unpack PB f = Some ((block_message b)\<lparr>pm_date := pm_date m\<rparr>)" by simp
    moreover have "block_wf b" using assms(5) by (simp add: block_frame_def)
    ultimately show ?thesis
      using lst_reads_mixed [OF assms(1) _ _ assms(7), of b "pm_date m" "pe_lst p"] assms(9) lr(4)
      by (intro overI) (auto simp: redated_def)
  next
    assume f: "f = g @ g'"
    have "f \<noteq> []" using f pk(1) by (auto simp: p2p_packed_def)
    then have "carries PB P2P__IPC_MESSAGE__STATUS__FINISH f"
      using packed_both [OF assms(2) pk] f assms(7)
      by (simp add: carries_def p2p__ipc_message__unpack_def p2p_merge_def status_message_def)
    from lst_reads_finish [OF assms(1) this, of "pe_lst p"] assms(9) lr(4) show ?thesis
      by (intro overI) (auto simp: redated_def)
  qed
qed

lemma in_stepI: "peers_rel PB b fd s n rc q \<Longrightarrow> segmented q p \<Longrightarrow> in_step PB b fd s rc p"
  by (auto simp: in_step_def)

text \<open>A step of a thread on segments is the same step on frames, or ends the conversation.\<close>

lemma srv_sent_segment:
  assumes "peer_ok PB E E' fd s" "peers_rel PB b fd s n (r, c) q" "segmented q p" "(Op_send fd f, d) \<in> set (ps_ring (pe_srv p))"
    and "srv_complete PB E (pe_sh p) (Op_send fd f) d (of_nat (length f)) (pe_srv p) = Some ps'"
  shows "\<exists>c'. conv_step (r, c) (r, c') \<and> in_step PB b fd s (r, c') (p\<lparr>pe_srv := ps', pe_to_lst := pe_to_lst p @ [f]\<rparr>)"
proof -
  note seg = assms(3) [unfolded segmented_def]
  let ?q = "q\<lparr>pe_srv := ps', pe_to_lst := pe_to_lst q @ [f]\<rparr>"
  have "f \<noteq> [] \<and> length f \<le> BUFFER_SIZE" using sent_frame_bounds(1) [OF assms(2)] assms(4) seg by simp
  then have "segmented ?q (p\<lparr>pe_srv := ps', pe_to_lst := pe_to_lst p @ [f]\<rparr>)"
    using seg resegments_snoc [of "pe_to_lst q" "pe_to_lst p" f] by (simp add: segmented_def)
  moreover obtain c' where "conv_step (r, c) (r, c')" "peers_rel PB b fd s n (r, c') ?q"
    using sim_srv_sent [OF assms(1,2), of f d ps'] assms(4,5) seg by auto
  ultimately show ?thesis using in_stepI by blast
qed

lemma lst_sent_segment:
  assumes "peer_ok PB E E' fd s" "peers_rel PB b fd s n (r, c) q" "segmented q p" "(Op_send s' f, d) \<in> set (pl_ring (pe_lst p))"
    and "lst_complete PB E' shared_init (Op_send s' f) d (of_nat (length f)) (pe_lst p) = Some pl'"
  shows "\<exists>c'. conv_step (r, c) (r, c') \<and> in_step PB b fd s (r, c') (p\<lparr>pe_lst := pl', pe_to_srv := pe_to_srv p @ [f]\<rparr>)"
proof -
  note seg = assms(3) [unfolded segmented_def]
  let ?q = "q\<lparr>pe_lst := pl', pe_to_srv := pe_to_srv q @ [f]\<rparr>"
  have "f \<noteq> [] \<and> length f \<le> BUFFER_SIZE" using sent_frame_bounds(2) [OF assms(2)] assms(4) seg by simp
  then have "segmented ?q (p\<lparr>pe_lst := pl', pe_to_srv := pe_to_srv p @ [f]\<rparr>)"
    using seg resegments_snoc [of "pe_to_srv q" "pe_to_srv p" f] by (simp add: segmented_def)
  moreover obtain c' where "conv_step (r, c) (r, c')" "peers_rel PB b fd s n (r, c') ?q"
    using sim_lst_sent [OF assms(1,2), of s' f d pl'] assms(4,5) seg by auto
  ultimately show ?thesis using in_stepI by blast
qed

lemma lst_received_segment_sim:
  assumes "peer_ok PB E E' fd s" "stream_ok PB" "peers_rel PB b fd s n (r, c) q" "segmented q p"
    and "pe_to_lst p = f # fs" "(Op_recv s', d) \<in> set (pl_ring (pe_lst p))"
    and "lst_complete PB E' shared_init (Op_recv s') d (of_nat (length f)) (lst_store f (pe_lst p)) = Some pl'"
  shows "over b fd (p\<lparr>pe_lst := pl', pe_to_lst := fs\<rparr>) \<or>
    (\<exists>c'. conv_step (r, c) (r, c') \<and> in_step PB b fd s (r, c') (p\<lparr>pe_lst := pl', pe_to_lst := fs\<rparr>))"
proof -
  note seg = assms(4) [unfolded segmented_def]
  have len: "length f \<le> BUFFER_SIZE" using seg assms(5) by (auto simp: resegments_def)
  from lst_received_segment [OF assms] consider
    (whole) fs' where "pe_to_lst q = f # fs'" "resegments fs' fs"
    | (more) g g' where "c = Finished False" "s' = s" "d = make_request_data s (cl_num PROCESS_RESPONSE)"
      "block_frame PB b g" "peer_frame PB P2P__IPC_MESSAGE__STATUS__FINISH g'"
      "(\<exists>k. 0 < k \<and> k < length g' \<and> f = g @ take k g') \<or> f = g @ g'" by blast
  then show ?thesis
  proof cases
    case whole
    then obtain c' where "conv_step (r, c) (r, c')" "peers_rel PB b fd s n (r, c') (q\<lparr>pe_lst := pl', pe_to_lst := fs'\<rparr>)"
      using sim_lst_received [OF assms(1,3), of s' d f fs' pl'] assms(6,7) seg by auto
    moreover have "segmented (q\<lparr>pe_lst := pl', pe_to_lst := fs'\<rparr>) (p\<lparr>pe_lst := pl', pe_to_lst := fs\<rparr>)"
      using seg whole by (simp add: segmented_def)
    ultimately show ?thesis using in_stepI by blast
  next
    case more
    then show ?thesis
      using lst_received_more [OF assms(1,2) _ assms(4) more(4,5) len more(6)] assms(3,7) by blast
  qed
qed

lemma segmented_thread_step:
  assumes "peer_ok PB E E' fd s" "stream_ok PB" "peers_rel PB b fd s n (r, c) q" "segmented q p" "peer_step PB E E' b fd p p'"
  shows "in_step PB b fd s (r, c) p' \<or> over b fd p' \<or> (\<exists>rc'. conv_step (r, c) rc' \<and> in_step PB b fd s rc' p')"
proof -
  note seg = assms(4) [unfolded segmented_def]
  show ?thesis
    using assms(5)
  proof cases
    case (accept d ps')
    then have "c = Unconnected" "peers_rel PB b fd s n (r, S_sends P2P__IPC_MESSAGE__STATUS__PING) (q\<lparr>pe_srv := ps'\<rparr>)"
      using sim_accept [OF assms(1,3), of d ps'] seg by auto
    moreover have "segmented (q\<lparr>pe_srv := ps'\<rparr>) p'" using seg accept by (simp add: segmented_def)
    ultimately show ?thesis using conv_step.connect in_stepI by blast
  next
    case (srv_sent f d ps')
    then show ?thesis using srv_sent_segment [OF assms(1,3,4)] by blast
  next
    case (srv_received d f fs ps')
    then show ?thesis using srv_received_segment [OF assms(1-4)] by blast
  next
    case (lst_noop d pl')
    then have "peers_rel PB b fd s False (r, c) (q\<lparr>pe_lst := pl'\<rparr>)" using sim_lst_noop [OF assms(1,3), of d pl'] seg by auto
    moreover have "segmented (q\<lparr>pe_lst := pl'\<rparr>) p'" using seg lst_noop by (simp add: segmented_def)
    ultimately show ?thesis using in_stepI by blast
  next
    case (lst_sent s' f d pl')
    then show ?thesis using lst_sent_segment [OF assms(1,3,4)] by blast
  next
    case (lst_received s' d f fs pl')
    then show ?thesis using lst_received_segment_sim [OF assms(1-4)] by blast
  next
    case (block_made sh')
    then have "\<not> r" using assms(3) seg by (auto simp: peers_rel_def peers_base_def)
    have "peers_rel PB b fd s n (True, c) (q\<lparr>pe_sh := sh'\<rparr>)"
      using assms(3) block_made by (auto simp: peers_rel_def peers_base_def rings_def)
    moreover have "segmented (q\<lparr>pe_sh := sh'\<rparr>) p'" using seg block_made by (simp add: segmented_def)
    ultimately have "in_step PB b fd s (True, c) p'" by (rule in_stepI)
    then show ?thesis using \<open>\<not> r\<close> conv_step.publish by auto
  qed
qed

lemma tcp_step_sim:
  assumes "peer_ok PB E E' fd s" "stream_ok PB" "in_step PB b fd s rc p \<or> over b fd p" "tcp_step PB E E' b fd p p'"
  shows "(in_step PB b fd s rc p' \<or> over b fd p') \<or>
    (\<exists>rc'. conv_step rc rc' \<and> (in_step PB b fd s rc' p' \<or> over b fd p'))"
proof (cases "over b fd p")
  case False
  then obtain n q where q: "peers_rel PB b fd s n rc q" "segmented q p" using assms(3) by (auto simp: in_step_def)
  from assms(4) show ?thesis
  proof cases
    case thread
    with q segmented_thread_step [OF assms(1,2), of b n "fst rc" "snd rc" q p p'] show ?thesis by auto
  qed (use q in \<open>auto simp: in_step_def segmented_def intro: resegments_trans\<close>)
qed (use over_step [OF assms(1) _ assms(4)] in blast)

interpretation tcp_sim: stutter_simulation conv_step
  "\<lambda>p p'. (peer_ok PB E E' fd s \<and> stream_ok PB) \<and> tcp_step PB E E' b fd p p'"
  "\<lambda>rc p. in_step PB b fd s rc p \<or> over b fd p" for PB E E' fd s b
  by unfold_locales (use tcp_step_sim in blast)

section \<open>What survives any segmentation\<close>

lemma tcp_run_sim:
  assumes "peer_ok PB E E' fd s" "stream_ok PB" "sh_block_created_mtx sh" "\<not> sh_kill_thread_p2p sh"
    and "(tcp_step PB E E' b fd)\<^sup>*\<^sup>* (peers_init E s sh h h') p"
  shows "\<exists>rc. conv_step\<^sup>*\<^sup>* (False, Unconnected) rc \<and> (in_step PB b fd s rc p \<or> over b fd p)"
proof -
  have "segmented (peers_init E s sh h h') (peers_init E s sh h h')"
    by (simp add: segmented_def peers_init_def resegments_Nil)
  then have "in_step PB b fd s (False, Unconnected) (peers_init E s sh h h')"
    using peers_init_rel [OF assms(3,4)] in_stepI by blast
  then show ?thesis
    using tcp_sim.run [of PB E E' fd s b "peers_init E s sh h h'" p "(False, Unconnected)"] assms(1,2,5) by simp
qed

text \<open>
  Agreement over a byte stream, where freed messages stay readable: however the connection cuts the bytes in flight into segments and however
  the steps of the two threads interleave, the asking node stores at most one block, only after the serving node
  has published it, and its root, nonce, predecessor, difficulty and both time stamps are those of the
  published block.
\<close>

theorem tcp_keeps_block:
  assumes "peer_ok PB E E' fd s" "stream_ok PB" "sh_block_created_mtx sh" "\<not> sh_kill_thread_p2p sh"
    and "(tcp_step PB E E' b fd)\<^sup>*\<^sup>* (peers_init E s sh h h') p" "pl_received (pe_lst p) \<noteq> []"
  shows "\<not> sh_block_created_mtx (pe_sh p) \<and>
    (\<exists>b' out. pl_received (pe_lst p) = [(b', out)] \<and> blk_merkle_root b' = blk_merkle_root b \<and> blk_nonce b' = blk_nonce b \<and>
      blk_previous_block b' = blk_previous_block b \<and> blk_difficulty b' = blk_difficulty b \<and>
      blk_timestamp_begin b' = blk_timestamp_begin b \<and> blk_timestamp_end b' = blk_timestamp_end b)"
proof -
  obtain r c where "in_step PB b fd s (r, c) p \<or> over b fd p" using tcp_run_sim [OF assms(1-5)] by auto
  then show ?thesis
  proof
    assume "in_step PB b fd s (r, c) p"
    then obtain n q where q: "peers_rel PB b fd s n (r, c) q" "pe_lst q = pe_lst p" "pe_sh q = pe_sh p"
      by (auto simp: in_step_def segmented_def)
    then have "delivered c" using assms(6) by (auto simp: peers_rel_def stored_def split: if_splits)
    moreover from this have "block_phase c" by (cases c) auto
    ultimately show ?thesis using q by (auto simp: peers_rel_def peers_base_def stored_def same_block_def)
  qed (use assms(6) in \<open>auto simp: over_def redated_def same_block_def\<close>)
qed

section \<open>What does not\<close>

text \<open>The date is the first field of a frame.\<close>

lemma date_field_first:
  assumes "0 \<notin> set d" "length d < 35"
  shows "\<exists>j. j < length (p2p_encode (status_message d m)) \<and>
    (\<forall>b. block_wf b \<longrightarrow> p2p_decode (p2p_encode (block_message b) @ take j (p2p_encode (status_message d m))) =
      Some ((block_message b)\<lparr>pm_date := d\<rparr>))"
proof -
  let ?sm = "status_message d m" and ?fs = "md_fields p2p__ipc_message__descriptor"
  let ?ws = "Some (FString d) # replicate 7 None"
  have fs: "?fs = hd ?fs # tl ?fs" "length (tl ?fs) = 7" by (simp_all add: p2p_tables)
  have fields: "p2p_fields ?sm = Some (FString d) # replicate 6 None @ [Some (FEnum (p2p_code m))]"
    by (simp add: p2p_fields_def status_message_def p2p__ipc_message__init_def numeral_eq_Suc)
  let ?j = "length (put_field (hd ?fs) (Some (FString d)))"
  have ws: "encode ?fs ?ws = put_field (hd ?fs) (Some (FString d))"
    using encode_None [of "tl ?fs"] fs by (metis append.right_neutral encode_Cons)
  have split: "p2p_encode ?sm = put_field (hd ?fs) (Some (FString d)) @ encode (tl ?fs) (replicate 6 None @ [Some (FEnum (p2p_code m))])"
    unfolding p2p_encode_def fields using fs(1) encode_Cons by metis
  have "encode (tl ?fs) (replicate 6 None @ [Some (FEnum (p2p_code m))]) \<noteq> []"
    by (simp add: p2p_tables encode_def put_field_def numeral_eq_Suc)
  then have j: "?j < length (p2p_encode ?sm)" unfolding split by simp
  have cut: "take ?j (p2p_encode ?sm) = encode ?fs ?ws" unfolding split by (simp add: ws)
  have "p2p_decode (p2p_encode (block_message b) @ take ?j (p2p_encode ?sm)) = Some ((block_message b)\<lparr>pm_date := d\<rparr>)"
    if "block_wf b" for b
  proof -
    have ok: "list_all (pred_option value_ok) (p2p_fields (block_message b))" "list_all (pred_option value_ok) (p2p_fields ?sm)"
      using block_message_size [OF that] assms
      by (intro p2p_values_ok; simp add: block_message_def status_message_def p2p_size_def p2p__ipc_message__init_def)+
    have "cut_of ?ws (p2p_fields ?sm)" unfolding fields by (simp add: numeral_eq_Suc)
    from p2p_type.decode_part [OF ok this] have
      "decode ?fs (p2p_encode (block_message b) @ take ?j (p2p_encode ?sm)) = Some (map2 merge_value (p2p_fields (block_message b)) ?ws)"
      unfolding cut by (simp add: p2p_encode_def)
    moreover have "map2 merge_value (p2p_fields (block_message b)) ?ws = p2p_fields ((block_message b)\<lparr>pm_date := d\<rparr>)"
      by (simp add: p2p_fields_def numeral_eq_Suc)
    ultimately show ?thesis by (simp add: p2p_decode_def p2p_type.of_to)
  qed
  then show ?thesis using j by blast
qed

text \<open>
  The date of a block is not safe: with the documented encoding, and with freed messages and the memory behind strings
  readable as in \<open>wire_pb\<close>, there is a point inside the FINISH frame, namely behind its first field, such that a receive that ends there makes the asking thread store the block with the
  date of the FINISH frame, whatever date the block had.
\<close>

theorem finish_overwrites_date:
  assumes "clock_ok E" "block_wf b" "0 \<in> set (blk_date b)" "length x = SOCK_BUF" "length y = SOCK_BUF"
    and "\<not> sh_kill_thread_p2p sh" "unat fd < 2 ^ 31"
  shows "\<exists>n x' k y' date len h' j. P2P_serialize_block_to_sock wire_pb b x = Some (n, x') \<and>
    P2P_send_status wire_pb E P2P__IPC_MESSAGE__STATUS__FINISH y h = Some (k, y', h') \<and>
    get_timestamp E (calloc 35) h = Some (date, len, h') \<and> j < k \<and>
    (\<forall>pl rest. \<exists>b' out. p2p_listen_step wire_pb E sh
        \<lparr>cq_res = of_nat (n + j), cq_user_data = make_request_data fd (cl_num PROCESS_RESPONSE)\<rparr>
        (pl\<lparr>pl_buffer := take n x' @ take j y' @ rest\<rparr>) =
      Some (pl\<lparr>pl_buffer := take n x' @ take j y' @ rest, pl_received := pl_received pl @ [(b', out)],
        pl_cycle := pl_cycle pl + 1\<rparr>) \<and>
      same_block (b\<lparr>blk_date := blk_date b'\<rparr>) b' \<and> cstr (blk_date b') = cstr date)"
proof -
  obtain n x' where s: "P2P_serialize_block_to_sock wire_pb b x = Some (n, x')" "n \<le> 194" "length x' = SOCK_BUF"
      "take n x' = p2p_encode (block_message b)"
    using block_wire [OF wire_pb_ok assms(2-4)] by (auto simp: p2p_packed_def)
  obtain k y' date where t: "P2P_send_status wire_pb E P2P__IPC_MESSAGE__STATUS__FINISH y h = Some (k, y', tick h)" "k \<le> 115"
      "length y' = SOCK_BUF" "length (cstr date) < 35" "get_timestamp E (calloc 35) h = Some (date, 23, tick h)"
      "take k y' = p2p_encode (status_message (cstr date) P2P__IPC_MESSAGE__STATUS__FINISH)"
    using p2p_send_status [OF wire_pb_ok assms(1,5), of P2P__IPC_MESSAGE__STATUS__FINISH h] by (auto simp: p2p_packed_def)
  obtain j where j: "j < length (take k y')"
      "p2p_decode (take n x' @ take j (take k y')) = Some ((block_message b)\<lparr>pm_date := cstr date\<rparr>)"
    using date_field_first [OF cstr_no_NUL t(4), of P2P__IPC_MESSAGE__STATUS__FINISH] assms(2) unfolding s(4) t(6) by blast
  let ?f = "take n x' @ take j y'"
  have f: "pb_p2p_unpack wire_pb ?f = Some ((block_message b)\<lparr>pm_date := cstr date\<rparr>)" "length ?f = n + j" "length ?f \<le> BUFFER_SIZE"
    using j s(2,3) t(2,3) by simp_all
  have fr: "freed_readable wire_pb" by (simp add: freed_readable_def)
  have "\<exists>b' out. p2p_listen_step wire_pb E sh
        \<lparr>cq_res = of_nat (n + j), cq_user_data = make_request_data fd (cl_num PROCESS_RESPONSE)\<rparr>
        (pl\<lparr>pl_buffer := take n x' @ take j y' @ rest\<rparr>) =
      Some (pl\<lparr>pl_buffer := take n x' @ take j y' @ rest, pl_received := pl_received pl @ [(b', out)],
        pl_cycle := pl_cycle pl + 1\<rparr>) \<and>
      same_block (b\<lparr>blk_date := blk_date b'\<rparr>) b' \<and> cstr (blk_date b') = cstr date" for pl rest
  proof -
    let ?pl = "pl\<lparr>pl_buffer := take n x' @ take j y' @ rest\<rparr>"
    obtain b' out where "process_response wire_pb E (of_nat (n + j)) ?pl = Some (?pl\<lparr>pl_received := pl_received pl @ [(b', out)]\<rparr>)"
        "same_block (b\<lparr>blk_date := blk_date b'\<rparr>) b'" "cstr (blk_date b') = cstr date"
      using process_mixed [OF fr assms(2) f(1,3), of ?pl rest E] t(4) unfolding f(2) by auto
    then show ?thesis
      using assms(6) by (intro exI [of _ b'] exI [of _ out])
        (simp add: p2p_listen_step_def request_type_roundtrip [OF fd_nonneg [OF assms(7)]] Let_def del: of_nat_add)
  qed
  moreover have "j < k" using j(1) by simp
  ultimately show ?thesis using s(1) t(1,5) by blast
qed

section \<open>Witnesses\<close>

theorem tcp_keeps_block_witness:
  "\<exists>p b' out. (tcp_step wire_pb demo_env demo_env block_zero 5)\<^sup>*\<^sup>* (peers_init demo_env 6 demo_locked empty_heap empty_heap) p \<and>
    pl_received (pe_lst p) = [(b', out)] \<and> blk_merkle_root b' = blk_merkle_root block_zero"
proof -
  let ?init = "peers_init demo_env 6 demo_locked empty_heap empty_heap"
  obtain p where p: "(peer_step wire_pb demo_env demo_env block_zero 5)\<^sup>*\<^sup>* ?init p" "stored block_zero True (pe_lst p)"
    using demo_delivery [OF wire_peer_ok] by blast
  have "(tcp_step wire_pb demo_env demo_env block_zero 5)\<^sup>*\<^sup>* ?init p"
    using p(1) by (rule rtranclp_mono [THEN predicate2D, rotated]) (auto intro: tcp_step.thread)
  moreover have "pl_received (pe_lst p) \<noteq> []" using p(2) by (auto simp: stored_def)
  ultimately show ?thesis using tcp_keeps_block [OF wire_peer_ok wire_pb_stream_ok demo_locked_ok] by blast
qed

lemma decimal_first: "decimal n \<noteq> [] \<and> hd (decimal n) \<in> digit ` {..<10}"
proof (induction n rule: decimal.induct)
  case (1 n)
  then show ?case by (subst (1 2) decimal.simps) simp
qed

lemma date_nonempty: "cstr (string_bytes (date_text tm) @ r) \<noteq> []"
proof -
  have "digit 0 \<in> digit ` {..<10}" by (rule imageI) simp
  then have "two_digits (tm_mday tm) \<noteq> [] \<and> hd (two_digits (tm_mday tm)) \<in> digit ` {..<10}"
    using decimal_first [of "tm_mday tm"] by (simp add: two_digits_def)
  then obtain c r' where c: "c \<in> digit ` {..<10}" "two_digits (tm_mday tm) = c # r'" by (metis list.exhaust_sel)
  have "of_char (digit d) \<noteq> (0 :: byte)" if "d < 10" for d
  proof -
    have "of_char (digit d) = (of_nat (48 + d) :: byte)"
      using that of_nat_of_char [of "digit d", where ?'a = byte] by (simp add: digit_def)
    then show ?thesis using that using nat_dvd_not_less [of "48 + d" 256] by (simp add: word_of_nat_eq_0_iff del: of_nat_add)
  qed
  then show ?thesis using c by (auto simp: date_text_def string_bytes_def cstr_def)
qed

lemma demo_date: "\<exists>date. get_timestamp demo_env (calloc 35) empty_heap = Some (date, 23, tick empty_heap) \<and> cstr date \<noteq> []"
  using get_timestamp_eq [of demo_env empty_heap "calloc 35"] date_nonempty demo_clock_ok by (simp add: clock_ok_def)

theorem finish_overwrites_date_witness:
  "\<exists>pl pl' c b' out. p2p_listen_step wire_pb demo_env shared_init c pl = Some pl' \<and> pl_received pl' = [(b', out)] \<and>
    blk_nonce b' = blk_nonce block_zero \<and> cstr (blk_date b') \<noteq> cstr (blk_date block_zero)"
proof -
  have b: "block_wf block_zero" "0 \<in> set (blk_date block_zero)" "cstr (blk_date block_zero) = []"
    by (simp_all add: block_wf_def block_zero_def calloc_def cstr_def)
  have k: "\<not> sh_kill_thread_p2p shared_init" by (simp add: shared_init_def)
  obtain date where d: "get_timestamp demo_env (calloc 35) empty_heap = Some (date, 23, tick empty_heap)" "cstr date \<noteq> []"
    using demo_date by blast
  from finish_overwrites_date [OF demo_clock_ok b(1,2) _ _ k, of "calloc 4096" "calloc 4096" 6 empty_heap] d(1)
  obtain n x' y' j where "\<forall>pl rest. \<exists>b' out. p2p_listen_step wire_pb demo_env shared_init
        \<lparr>cq_res = of_nat (n + j), cq_user_data = make_request_data 6 (cl_num PROCESS_RESPONSE)\<rparr>
        (pl\<lparr>pl_buffer := take n x' @ take j y' @ rest\<rparr>) =
      Some (pl\<lparr>pl_buffer := take n x' @ take j y' @ rest, pl_received := pl_received pl @ [(b', out)],
        pl_cycle := pl_cycle pl + 1\<rparr>) \<and>
      same_block (block_zero\<lparr>blk_date := blk_date b'\<rparr>) b' \<and> cstr (blk_date b') = cstr date"
    by fastforce
  from spec [OF spec [OF this, of "setup_p2p_listening 6 empty_heap"], of "[]"] d(2) b(3) show ?thesis
    by (fastforce simp: same_block_def setup_p2p_listening_def)
qed

end
