(* ===== verification/SessionStream.thy ===== *)
theory SessionStream
  imports Session Segments
begin

text \<open>
  A client and the message server over a connection that is a stream of bytes, interleaved with all other
  connections.  At most one frame is in flight, so that a segment is a frame or part of one; a reader
  survives only the former.  Every run therefore follows the transfer for as long as it goes on and is not
  disturbed by a finished client.
\<close>

inductive stream_step :: "protobuf \<Rightarrow> env \<Rightarrow> env \<Rightarrow> u32 \<Rightarrow> session \<Rightarrow> session \<Rightarrow> bool" for PB E E' fd where
  own: "own_step PB E E' fd s s' \<Longrightarrow> stream_step PB E E' fd s s'"
| others: "other_step PB E fd s s' \<Longrightarrow> stream_step PB E E' fd s s'"
| to_cl: "resegments (ss_to_cl s) cs \<Longrightarrow> stream_step PB E E' fd s (s\<lparr>ss_to_cl := cs\<rparr>)"
| to_srv: "resegments (ss_to_srv s) cs \<Longrightarrow> stream_step PB E E' fd s (s\<lparr>ss_to_srv := cs\<rparr>)"

text \<open>The session with its frames put back together.\<close>

definition session_segmented :: "session \<Rightarrow> session \<Rightarrow> bool" where
  "session_segmented q s \<longleftrightarrow> ss_srv q = ss_srv s \<and> ss_cl q = ss_cl s \<and> ss_disturbed q = ss_disturbed s \<and>
     resegments (ss_to_cl q) (ss_to_cl s) \<and> resegments (ss_to_srv q) (ss_to_srv s)"

definition in_transfer :: "protobuf \<Rightarrow> env \<Rightarrow> env \<Rightarrow> u32 \<Rightarrow> nat \<times> phase \<Rightarrow> session \<Rightarrow> bool" where
  "in_transfer PB E E' fd a s \<longleftrightarrow> (\<exists>q. session_rel PB E E' fd a q \<and> session_segmented q s)"

text \<open>What is on the wire in any phase.\<close>

definition wire_frame :: "protobuf \<Rightarrow> bytes \<Rightarrow> bool" where
  "wire_frame PB f \<longleftrightarrow> f \<noteq> [] \<and> length f \<le> BUFFER_SIZE \<and> ipc_packed PB f"

lemma frames_on_wire: "asks PB f \<Longrightarrow> wire_frame PB f" "status_frame PB st f \<Longrightarrow> wire_frame PB f" "brings PB m f \<Longrightarrow> wire_frame PB f"
  by (simp_all add: asks_def status_frame_def brings_def wire_frame_def message_frame_def)

lemma wire_shape_frames:
  assumes "wire_shape PB fd m p e tc ts"
  shows "e = (Op_send fd f, d) \<Longrightarrow> wire_frame PB f \<and> tc = [] \<and> ts = []"
    and "(\<forall>f \<in> set tc. wire_frame PB f) \<and> (\<forall>f \<in> set ts. wire_frame PB f)"
  using assms by (cases p; auto dest: frames_on_wire)+

lemma frames_resegment: "\<forall>f \<in> set fs. wire_frame PB f \<Longrightarrow> resegments fs fs"
  by (simp add: resegments_def wire_frame_def)

lemma frame_part: "protobuf_rejects_prefixes PB \<Longrightarrow> wire_frame PB g \<Longrightarrow> k < length g \<Longrightarrow> pb_ipc_unpack PB (take k g) = None"
  by (auto simp: protobuf_rejects_prefixes_def wire_frame_def ipc_packed_def)

lemma session_relE:
  assumes "session_rel PB E E' fd (k, p) q"
  obtains "server_inv E (ss_srv q)" "owns PB E' p (slot_list (ss_srv q) (held k p)) (ss_cl q)"
    "wire_shape PB fd (slot_data (ss_srv q) k) p (last (ops_of fd (ss_srv q))) (ss_to_cl q) (ss_to_srv q)"
  using assms by (simp add: session_rel_def Let_def)

text \<open>A segment that a reader survives is the frame.\<close>

lemma client_reads_frame:
  assumes "protobuf_rejects_prefixes PB" "session_rel PB E E' fd a q" "session_segmented q s" "ss_to_cl s = f # fs"
    and "client_step PB E' f (of_nat (length f)) (ss_cl s) = Some cl'"
  shows "ss_to_cl q = [f] \<and> ss_to_srv q = [] \<and> fs = []"
proof -
  obtain k p where a: "a = (k, p)" by (cases a)
  obtain inv: "owns PB E' p (slot_list (ss_srv q) (held k p)) (ss_cl q)"
    and shape: "wire_shape PB fd (slot_data (ss_srv q) k) p (last (ops_of fd (ss_srv q))) (ss_to_cl q) (ss_to_srv q)"
    using assms(2) unfolding a by (rule session_relE)
  note seg = assms(3) [unfolded session_segmented_def assms(4)]
  have "ss_to_cl q \<noteq> []" using seg by (auto simp: resegments_Nil)
  then have p: "p = Asked \<or> p = Served" using shape by (cases p) auto
  then have "client_inv (slot_list (ss_srv q) (held k p)) (ss_cl s)" using inv seg by (auto simp: owns_def)
  then have cl: "\<not> sh_kill_thread_p2p (cl_shared (ss_cl s))" "\<not> cl_block_filled (ss_cl s)" by (simp_all add: client_inv_def)
  obtain g where g: "ss_to_cl q = [g]" "wire_frame PB g" "ss_to_srv q = []" using p shape by (auto dest!: frames_on_wire)
  have "length f \<le> 4096" using seg by (auto simp: resegments_def)
  then have "pb_ipc_unpack PB f \<noteq> None" using client_reads_garbage [OF _ _ cl] assms(5) by force
  then show ?thesis using resegments_one [of g f fs] seg g frame_part [OF assms(1) g(2)] by auto
qed

lemma server_reads_frame:
  assumes "protobuf_rejects_prefixes PB" "session_rel PB E E' fd a q" "session_segmented q s" "ss_to_srv s = f # fs"
    and "unat fd \<le> 10" "last (ops_of fd (ss_srv s)) = (Op_recv fd, d)"
    and "event_loop_step PB E \<lparr>cq_res = of_nat (length f), cq_user_data = d\<rparr> (sv_store fd f (ss_srv s)) = Some sv'"
  shows "ss_to_srv q = [f] \<and> fs = []"
proof -
  obtain k p where a: "a = (k, p)" by (cases a)
  obtain inv: "server_inv E (ss_srv q)"
    and shape: "wire_shape PB fd (slot_data (ss_srv q) k) p (last (ops_of fd (ss_srv q))) (ss_to_cl q) (ss_to_srv q)"
    using assms(2) unfolding a by (rule session_relE)
  note seg = assms(3) [unfolded session_segmented_def assms(4)]
  have "ss_to_srv q \<noteq> []" using seg by (auto simp: resegments_Nil)
  then obtain g where g: "ss_to_srv q = [g]" "wire_frame PB g" "d = make_request_data fd (flag_num TEST_RESPONSE)"
    using shape seg assms(6) by (cases p) (auto dest: frames_on_wire)
  have f: "f \<noteq> []" "length f \<le> 4096" using seg by (auto simp: resegments_def)
  have fd: "unat fd < 1000" "unat fd < length (sv_buffers (ss_srv s))" using inv seg assms(5) by (simp_all add: server_inv_def)
  have "sv_buffers (sv_store fd f (ss_srv s)) ! unat fd = f @ drop (length f) (sv_buffers (ss_srv s) ! unat fd)"
    using fd(2) by (simp add: sv_store_def)
  from server_reads_garbage [OF _ f fd(1) this, of PB E] assms(7) g(3) have "pb_ipc_unpack PB f \<noteq> None" by auto
  then show ?thesis using resegments_one [of g f fs] seg g frame_part [OF assms(1) g(2)] by auto
qed

section \<open>Simulation\<close>

lemma in_transferI: "session_rel PB E E' fd a q \<Longrightarrow> session_segmented q s \<Longrightarrow> in_transfer PB E E' fd a s"
  by (auto simp: in_transfer_def)

lemma own_at_stream:
  assumes "session_ok PB E E' fd" "protobuf_rejects_prefixes PB" "session_rel PB E E' fd a q" "session_segmented q s"
    and "own_at PB E E' fd s s'"
  shows "\<exists>q'. own_at PB E E' fd q q' \<and> session_segmented q' s'"
proof -
  obtain k p where a: "a = (k, p)" by (cases a)
  obtain shape: "wire_shape PB fd (slot_data (ss_srv q) k) p (last (ops_of fd (ss_srv q))) (ss_to_cl q) (ss_to_srv q)"
    using assms(3) unfolding a by (rule session_relE)
  note seg = assms(4) [unfolded session_segmented_def]
  from assms(5) show ?thesis
  proof cases
    case (sent f d sv')
    then have f: "wire_frame PB f" "ss_to_cl q = []" using wire_shape_frames(1) [OF shape, of f d] seg by auto
    have "own_at PB E E' fd q (q\<lparr>ss_srv := sv', ss_to_cl := ss_to_cl q @ [f]\<rparr>)"
      using own_at.sent [of fd q f d PB E sv' E'] sent seg by simp
    moreover have "session_segmented (q\<lparr>ss_srv := sv', ss_to_cl := ss_to_cl q @ [f]\<rparr>) s'"
      using seg sent resegments_snoc [of "ss_to_cl q" "ss_to_cl s" f] f(1) by (simp add: session_segmented_def wire_frame_def)
    ultimately show ?thesis by blast
  next
    case (client f fs cl')
    have w: "ss_to_cl q = [f]" "ss_to_srv q = []" "fs = []" using client_reads_frame [OF assms(2-4) client(2,3)] by simp_all
    let ?q = "q\<lparr>ss_cl := cl', ss_to_cl := [],
      ss_to_srv := ss_to_srv q @ map op_data (filter is_Op_send (drop (length (cl_ring (ss_cl q))) (cl_ring cl')))\<rparr>"
    have q: "own_at PB E E' fd q ?q" using own_at.client [OF w(1), of PB E' cl' E fd] client(3) seg by simp
    obtain c where "session_rel PB E E' fd c ?q" using own_at_sim [OF assms(1,3) q] by blast
    then have "\<forall>f \<in> set (ss_to_srv ?q). wire_frame PB f"
      using wire_shape_frames(2) by (cases c) (metis session_relE)
    moreover have "ss_to_srv s = []" using seg w(2) by (simp add: resegments_Nil)
    ultimately have "session_segmented ?q s'"
      using seg client w frames_resegment [of "ss_to_srv ?q" PB] by (simp add: session_segmented_def resegments_Nil)
    then show ?thesis using q by blast
  next
    case (received d f fs sv')
    have w: "ss_to_srv q = [f]" "fs = []"
      using server_reads_frame [OF assms(2-4) received(4) _ received(3,6)] assms(1) by (simp_all add: session_ok_def)
    have "own_at PB E E' fd q (q\<lparr>ss_srv := sv', ss_to_srv := []\<rparr>)"
      using own_at.received [OF _ _ w(1), of fd d PB E sv' E'] received seg by simp
    moreover have "session_segmented (q\<lparr>ss_srv := sv', ss_to_srv := []\<rparr>) s'"
      using seg received w by (simp add: session_segmented_def resegments_Nil)
    ultimately show ?thesis by blast
  qed
qed

lemma own_step_stream:
  assumes "session_ok PB E E' fd" "protobuf_rejects_prefixes PB" "session_rel PB E E' fd a q" "session_segmented q s"
    and "own_step PB E E' fd s s'"
  shows "\<exists>q'. own_step PB E E' fd q q' \<and> session_segmented q' s'"
proof -
  obtain left where "own_at PB (left_over E left) E' fd s s'" using assms(5) by (auto simp: own_step_def)
  from own_at_stream [OF _ assms(2) _ assms(4) this, of a] assms(1,3) show ?thesis by (auto simp: own_step_def)
qed

lemma other_step_stream:
  assumes "session_segmented q s" "other_step PB E fd s s'"
  shows "disturbed s' \<or> (\<exists>q'. other_step PB E fd q q' \<and> session_segmented q' s')"
  using assms(2)
proof cases
  case (completed c left sv')
  then have "other_step PB E fd q (q\<lparr>ss_srv := sv'\<rparr>)"
    using other_step.completed [of c fd q PB left E sv'] assms(1) by (simp add: session_segmented_def)
  then show ?thesis using assms(1) completed(1) by (auto simp: session_segmented_def)
next
  case (stored fd' f)
  then have "other_step PB E fd q (q\<lparr>ss_srv := sv_store fd' f (ss_srv q)\<rparr>)" by (intro other_step.stored)
  then show ?thesis using assms(1) stored(1) by (auto simp: session_segmented_def)
next
  case (closed c left sv')
  then have "someone_finished (ss_srv s)" by (auto simp: someone_finished_def)
  then show ?thesis using closed someone_finished_stays by (simp add: disturbed_def)
qed (auto simp: disturbed_def someone_finished_def)

lemma stream_disturbed_stays:
  assumes "disturbed s" "stream_step PB E E' fd s s'"
  shows "disturbed s'"
  using assms(2)
proof cases
  case own
  then show ?thesis using disturbed_stays [OF assms(1)] by blast
next
  case others
  then show ?thesis using disturbed_stays [OF assms(1)] by blast
qed (use assms(1) in \<open>simp_all add: disturbed_def\<close>)

lemma stream_step_sim:
  assumes "session_ok PB E E' fd" "protobuf_rejects_prefixes PB" "in_transfer PB E E' fd a s" "stream_step PB E E' fd s s'"
  shows "in_transfer PB E E' fd a s' \<or> disturbed s' \<or> (\<exists>b. transfer a b \<and> in_transfer PB E E' fd b s')"
proof -
  obtain q where q: "session_rel PB E E' fd a q" "session_segmented q s" using assms(3) by (auto simp: in_transfer_def)
  from assms(4) show ?thesis
  proof cases
    case own
    then obtain q' where "own_step PB E E' fd q q'" "session_segmented q' s'" using own_step_stream [OF assms(1,2) q] by blast
    then show ?thesis using own_step_sim [OF assms(1) q(1)] in_transferI by blast
  next
    case others
    then consider "disturbed s'" | q' where "other_step PB E fd q q'" "session_segmented q' s'" using other_step_stream [OF q(2)] by blast
    then show ?thesis
    proof cases
      case (2 q')
      then have "disturbed q' \<Longrightarrow> disturbed s'" by (simp add: disturbed_def session_segmented_def)
      then show ?thesis using 2 other_step_keeps [OF assms(1) q(1) 2(1)] in_transferI by blast
    qed simp
  qed (use q in \<open>auto simp: in_transfer_def session_segmented_def intro: resegments_trans\<close>)
qed

interpretation stream_sim: stutter_simulation transfer
  "\<lambda>s s'. (session_ok PB E E' fd \<and> protobuf_rejects_prefixes PB) \<and> stream_step PB E E' fd s s'"
  "\<lambda>a s. in_transfer PB E E' fd a s \<or> disturbed s"
  for PB E E' fd
  by unfold_locales (meson stream_step_sim stream_disturbed_stays)

lemma stream_start:
  assumes "session_ok PB E E' fd" "server_inv E sv" "sv_sended_N sv ! unat fd = 0" "accepted PB E fd sv = Some sv'"
    and "heap_wf h" "length (sh_buffer_BLOCK_DATA sh) = BUFFER_SIZE" "\<not> sh_kill_thread_p2p sh"
  shows "in_transfer PB E E' fd (0, Asking) (session_start sv' (client_start sock sh h))"
proof -
  let ?s = "session_start sv' (client_start sock sh h)"
  have "session_segmented ?s ?s" by (simp add: session_segmented_def session_start_def resegments_Nil)
  then show ?thesis using session_start_rel [OF assms] in_transferI by blast
qed

lemma stream_run:
  assumes "session_ok PB E E' fd" "protobuf_rejects_prefixes PB" "in_transfer PB E E' fd a s" "(stream_step PB E E' fd)\<^sup>*\<^sup>* s s'"
    and "\<not> disturbed s'"
  obtains k p where "transfer\<^sup>*\<^sup>* a (k, p)" "in_transfer PB E E' fd (k, p) s'"
proof -
  have "(\<lambda>s s'. (session_ok PB E E' fd \<and> protobuf_rejects_prefixes PB) \<and> stream_step PB E E' fd s s')\<^sup>*\<^sup>* s s'"
    using assms(1,2,4) by simp
  then show thesis using stream_sim.run [OF _ disjI1 [OF assms(3)]] that assms(5) by fastforce
qed

lemma in_transfer_owns: "in_transfer PB E E' fd (k, p) s \<Longrightarrow> owns PB E' p (slot_list (ss_srv s) (held k p)) (ss_cl s)"
  by (auto simp: in_transfer_def session_rel_def Let_def session_segmented_def)


text \<open>
  The session never goes back: between any two moments of it the phase moves forward, in the order of the protocol,
  and the client keeps the messages it holds.
\<close>

theorem session_never_goes_back:
  assumes "session_ok PB E E' fd" "protobuf_rejects_prefixes PB"
    and "server_inv E sv" "sv_sended_N sv ! unat fd = 0" "accepted PB E fd sv = Some sv'"
    and "heap_wf h" "length (sh_buffer_BLOCK_DATA sh) = BUFFER_SIZE" "\<not> sh_kill_thread_p2p sh"
    and "(stream_step PB E E' fd)\<^sup>*\<^sup>* (session_start sv' (client_start sock sh h)) s" "(stream_step PB E E' fd)\<^sup>*\<^sup>* s s'"
    and "\<not> ss_disturbed s'"
  shows "\<exists>k p l q. (k, p) \<le> (l, q) \<and> held k p \<le> held l q \<and> owns PB E' p (slot_list (ss_srv s) (held k p)) (ss_cl s) \<and>
    owns PB E' q (slot_list (ss_srv s') (held l q)) (ss_cl s')"
proof -
  have d': "\<not> disturbed s'" using assms(11) by (simp add: disturbed_def)
  have d: "\<not> disturbed s"
    using assms(10) d' stream_disturbed_stays by (induction rule: converse_rtranclp_induct) blast+
  obtain k p where a: "in_transfer PB E E' fd (k, p) s"
    by (rule stream_run [OF assms(1,2) stream_start [OF assms(1,3-8)] assms(9) d])
  obtain l q where b: "transfer\<^sup>*\<^sup>* (k, p) (l, q)" "in_transfer PB E E' fd (l, q) s'"
    by (rule stream_run [OF assms(1,2) a assms(10) d'])
  show ?thesis
    using transfer_run_forward [OF b(1)] held_mono in_transfer_owns [OF a] in_transfer_owns [OF b(2)] by blast
qed


end
