(* ===== verification/Startup.thy ===== *)
theory Startup
  imports ServerInv P2P
begin

text \<open>
  Process start: \<open>networking/start_server.c\<close>, the socket set-up of \<open>networking/setup.c\<close> and
  \<open>client/p2p_setup.c\<close>, \<open>client/main.c\<close>, and how the client thread connects (\<open>client/setup_client.c\<close>).
  The operating system is a record of what its calls answer.  A call that ends the process, the thread or the
  function is a value of \<open>stop\<close>; \<open>None\<close> is undefined behaviour, as everywhere.  Allocations of buffers
  succeed.  Logging has no effect on the state.
\<close>

section \<open>The operating system\<close>

record os =
  os_getenv :: "string \<Rightarrow> bytes option"
  os_addrinfo :: "bytes \<Rightarrow> string \<Rightarrow> bool"     \<comment> \<open>does \<open>getaddrinfo\<close> find the host\<close>
  os_tcp :: bool                               \<comment> \<open>does \<open>getprotobyname("tcp")\<close> find an entry\<close>
  os_socket :: u32                             \<comment> \<open>the new descriptor, or -1\<close>
  os_bind :: bool
  os_listen :: bool
  os_ring :: bool                              \<comment> \<open>does \<open>io_uring_queue_init\<close> succeed\<close>
  os_connect :: u32                            \<comment> \<open>result of the connect request\<close>
  os_thread :: "nat \<Rightarrow> bool"                   \<comment> \<open>does the n-th \<open>thrd_create\<close> succeed\<close>

datatype stop = Return int | Exit string | Thread_exit int

text \<open>\<open>die\<close> of \<open>misc.c\<close> ends the process.\<close>

definition die :: "string \<Rightarrow> stop" where
  "die message = Exit message"

lemmas die_simp [simp] = die_def

section \<open>The log directory\<close>

text \<open>\<open>snprintf(dst + off, size, "%s", s)\<close>\<close>

definition snprintf_at :: "bytes \<Rightarrow> nat \<Rightarrow> nat \<Rightarrow> bytes \<Rightarrow> bytes option" where
  "snprintf_at dst off sz s = (let n = min (length s) (sz - 1) in memcpy_at dst off (take n s @ [0]) (n + 1))"

text \<open>The size given to the second call is that of the whole array, not what is left of it.\<close>

definition log_directory :: "os \<Rightarrow> bytes option" where
  "log_directory os = do {
     let logdir = calloc 128;
     home \<leftarrow> os_getenv os ''HOME'';
     logdir \<leftarrow> snprintf_at logdir 0 128 (cstr home);
     logdir \<leftarrow> snprintf_at logdir (length (cstr logdir)) 128 (string_bytes ''/logs'');
     Some (cstr logdir)
   }"

section \<open>Sockets and ring\<close>

definition setup_serv_sock :: "os \<Rightarrow> (stop + u32) option" where
  "setup_serv_sock os = do {
     require (os_tcp os);
     let sockfd = os_socket os;
     Some (if sint sockfd < 0 then Inl (die ''error assigning socket'')
           else if \<not> os_bind os then Inl (die ''error while binding'')
           else if \<not> os_listen os then Inl (die ''error while establishing server socket listen'')
           else Inr sockfd)
   }"

definition setup_iouring :: "os \<Rightarrow> stop + unit" where
  "setup_iouring os = (if os_ring os then Inr () else Inl (die ''error io uring initialization''))"

text \<open>The copies of the client in \<open>client/p2p_setup.c\<close>.\<close>

definition p2p_setup_serv_sock :: "os \<Rightarrow> (stop + u32) option" where
  "p2p_setup_serv_sock os = do {
     require (os_tcp os);
     let sockfd = os_socket os;
     Some (if sint sockfd < 0 then Inl (die ''error assigning socket'')
           else if \<not> os_bind os then Inl (die ''error while binding'')
           else if \<not> os_listen os then Inl (die ''error while establishing server socket listen'')
           else Inr sockfd)
   }"

definition p2p_setup_iouring :: "os \<Rightarrow> stop + unit" where
  "p2p_setup_iouring os = (if os_ring os then Inr () else Inl (die ''error io uring initialization''))"

text \<open>Socket options.  The kernel may refuse an option, which the code ignores.\<close>

datatype optval = Opt_int int | Opt_time int int

type_synonym sockopts = "u32 \<Rightarrow> u32 \<rightharpoonup> optval"

definition setsockopt :: "(u32 \<Rightarrow> bool) \<Rightarrow> u32 \<Rightarrow> u32 \<Rightarrow> optval \<Rightarrow> sockopts \<Rightarrow> sockopts" where
  "setsockopt accepts socket name v so = (if accepts name then so(socket := (so socket)(name \<mapsto> v)) else so)"

abbreviation SO_REUSEADDR :: u32 where "SO_REUSEADDR \<equiv> 2"
abbreviation SO_SNDBUF :: u32 where "SO_SNDBUF \<equiv> 7"
abbreviation SO_RCVBUF :: u32 where "SO_RCVBUF \<equiv> 8"
abbreviation SO_OOBINLINE :: u32 where "SO_OOBINLINE \<equiv> 10"
abbreviation SO_RCVTIMEO :: u32 where "SO_RCVTIMEO \<equiv> 20"
abbreviation SO_SNDTIMEO :: u32 where "SO_SNDTIMEO \<equiv> 21"

definition set_flags :: "(u32 \<Rightarrow> bool) \<Rightarrow> u32 \<Rightarrow> sockopts \<Rightarrow> sockopts" where
  "set_flags accepts socket so = (
     let so = setsockopt accepts socket (SO_REUSEADDR OR SO_SNDBUF) (Opt_int 65536) so;
         so = setsockopt accepts socket (SO_REUSEADDR OR SO_RCVBUF) (Opt_int 65536) so;
         so = setsockopt accepts socket SO_RCVTIMEO (Opt_time 10 0) so
     in setsockopt accepts socket SO_SNDTIMEO (Opt_time 10 0) so)"

definition p2p_set_flags :: "(u32 \<Rightarrow> bool) \<Rightarrow> u32 \<Rightarrow> sockopts \<Rightarrow> sockopts" where
  "p2p_set_flags accepts socket so =
     setsockopt accepts socket SO_REUSEADDR (Opt_int 1) (set_flags accepts socket so)"

section \<open>The server process\<close>

text \<open>Without a configuration file the function returns at once.\<close>

definition start_server :: "os \<Rightarrow> env \<Rightarrow> heap \<Rightarrow> (stop + server) option" where
  "start_server os E h =
     (if os_getenv os ''cblockchain_conf'' = None then Some (Inl (Return 0))
      else do {
        _ \<leftarrow> log_directory os;
        let sv = setup_buffers E h;
        sock \<leftarrow> setup_serv_sock os;
        (case sock of
           Inl e \<Rightarrow> Some (Inl e)
         | Inr serv_fd \<Rightarrow> (case setup_iouring os of
             Inl e \<Rightarrow> Some (Inl e)
           | Inr _ \<Rightarrow> do {
               sv \<leftarrow> event_loop_start E sv;
               Some (Inr sv)
             }))
      })"

text \<open>\<open>main\<close>, without \<open>TESTMODE\<close>: once the event loop runs it does not return.\<close>

definition server_main :: "os \<Rightarrow> env \<Rightarrow> heap \<Rightarrow> (stop + server) option" where
  "server_main os E h = do {
     r \<leftarrow> start_server os E h;
     Some (case r of Inl (Return _) \<Rightarrow> Inl (Return 0) | _ \<Rightarrow> r)
   }"

section \<open>The client process\<close>

record node =
  nd_serv_fd :: u32
  nd_shared :: shared
  nd_p2p :: p2p_server

text \<open>Up to the moment the three threads run.  A missing configuration is only reported.\<close>

definition client_main :: "os \<Rightarrow> env \<Rightarrow> nat \<Rightarrow> heap \<Rightarrow> (stop + node) option" where
  "client_main os E argc h =
     (if argc \<noteq> 2 then Some (Inl (Exit ''please enter an IP of a p2p neighboor..''))
      else do {
        _ \<leftarrow> log_directory os;
        let ps = p2p_setup_buffers E h;
        sock \<leftarrow> p2p_setup_serv_sock os;
        Some (case sock of
           Inl e \<Rightarrow> Inl e
         | Inr serv_fd \<Rightarrow> (case p2p_setup_iouring os of
             Inl e \<Rightarrow> Inl e
           | Inr _ \<Rightarrow>
               if \<not> os_thread os 0 then Inl (Exit ''error while client accept thread creation'')
               else if \<not> os_thread os 1 \<or> \<not> os_thread os 2 then Inl (Exit ''error while thread p2p creation'')
               else Inr \<lparr>nd_serv_fd = serv_fd, nd_shared = shared_init, nd_p2p = event_loop_p2p_start ps\<rparr>))
      })"

text \<open>How the message thread connects.  \<open>mtx_lock\<close> waits for the serving thread, which only probes the
  mutex.  The mutex is taken before the result of the connect request is looked at, and stays taken when the
  thread returns.\<close>

definition setup_client_iouring :: "os \<Rightarrow> bytes \<Rightarrow> shared \<Rightarrow> heap \<Rightarrow> (shared \<times> (stop + client)) option" where
  "setup_client_iouring os ip sh h =
     (if \<not> os_addrinfo os ip ''12345'' then Some (sh, Inl (Exit ''getaddrinfo error''))
      else if os_socket os = - 1 then Some (sh, Inl (Return (- 1)))
      else do {
        let sh = sh\<lparr>sh_block_created_mtx := True\<rparr>;
        Some (sh, if os_connect os = 0 then Inr (client_start (os_socket os) sh h) else Inl (Return 0))
      })"

text \<open>How the asking thread reaches its neighbour.  A failed \<open>socket\<close> call is only reported.  If the address
  cannot be resolved the thread ends with its mutex taken.\<close>

definition p2p_listening_start ::
  "os \<Rightarrow> (nat \<Rightarrow> bool) \<Rightarrow> nat \<Rightarrow> bytes \<Rightarrow> shared \<Rightarrow> heap \<Rightarrow> (shared \<times> (stop + p2p_listener)) option" where
  "p2p_listening_start os conn t IP_ADD_LISTEN sh h =
     (if \<not> os_addrinfo os IP_ADD_LISTEN ''10001''
      then Some (sh\<lparr>sh_peer_connection_accepted := True\<rparr>, Inl (Thread_exit 1))
      else do {
        (sh, pl) \<leftarrow> connect_to_peer conn t (os_socket os) sh h;
        Some (sh, Inr pl)
      })"

section \<open>What a start leads to\<close>

lemma cstr_terminated: "0 \<notin> set s \<Longrightarrow> cstr (s @ 0 # r) = s"
  by (induction s) (auto simp: cstr_def)

lemma log_directory_eq:
  assumes "os_getenv os ''HOME'' = Some home"
  shows "log_directory os =
    (if length (cstr home) < 123 then Some (cstr home @ string_bytes ''/logs'') else None)"
proof -
  define t where "t = take 127 (cstr home)"
  have t: "0 \<notin> set t" "length t \<le> 127" "min (length (cstr home)) 127 = length t"
    using cstr_no_NUL [of home] by (auto simp: t_def dest: in_set_takeD)
  have "take (length t) (cstr home) = t" by (simp add: t_def min_def)
  then have one: "snprintf_at (calloc 128) 0 128 (cstr home) = Some (t @ 0 # drop (Suc (length t)) (calloc 128))"
    using t(2,3) by (simp add: snprintf_at_def memcpy_at_def Let_def min_def split: if_splits)
  have logs: "0 \<notin> set (string_bytes ''/logs'')" "length (string_bytes ''/logs'') = 5" by (simp_all add: string_bytes_def of_char_def)
  have two: "snprintf_at (t @ 0 # drop (Suc (length t)) (calloc 128)) (length t) 128 (string_bytes ''/logs'') =
      (if length t < 123 then Some ((t @ string_bytes ''/logs'') @ 0 # drop (length t + 6) (calloc 128)) else None)"
    using t(2) logs(2) by (auto simp: snprintf_at_def memcpy_at_def add.commute)
  have len: "length t < 123 \<longleftrightarrow> length (cstr home) < 123" "length (cstr home) < 123 \<Longrightarrow> t = cstr home" by (auto simp: t_def)
  have "cstr ((t @ string_bytes ''/logs'') @ 0 # r) = t @ string_bytes ''/logs''" for r
    using t(1) logs(1) by (intro cstr_terminated) auto
  then have "log_directory os = (if length t < 123 then Some (t @ string_bytes ''/logs'') else None)"
    using one two cstr_terminated [OF t(1)] assms by (simp add: log_directory_def)
  then show ?thesis using len by simp
qed


text \<open>The receive buffer is never set: the option numbers are combined bit by bit.\<close>

lemma set_flags_misses_RCVBUF:
  "set_flags accepts socket so socket SO_RCVBUF = so socket SO_RCVBUF \<and>
   (accepts SO_OOBINLINE \<longrightarrow> set_flags accepts socket so socket SO_OOBINLINE = Some (Opt_int 65536))"
  by (simp add: set_flags_def setsockopt_def Let_def)

text \<open>
  C32.  Starting the server: without a configuration it returns at once; a home directory of 123 or more
  characters, or none, is undefined behaviour; if a socket or ring call fails the process ends with its
  message; otherwise the event loop starts in a state that satisfies its invariant, with one accept pending.
\<close>

theorem server_start_decides:
  assumes "server_env E" "heap_wf h" "os_tcp os"
  shows "case os_getenv os ''cblockchain_conf'' of None \<Rightarrow> start_server os E h = Some (Inl (Return 0))
    | Some _ \<Rightarrow> (case os_getenv os ''HOME'' of None \<Rightarrow> start_server os E h = None
        | Some home \<Rightarrow>
            if 123 \<le> length (cstr home) then start_server os E h = None
            else if 0 \<le> sint (os_socket os) \<and> os_bind os \<and> os_listen os \<and> os_ring os
            then \<exists>sv. start_server os E h = Some (Inr sv) \<and> server_inv E sv \<and>
                   sv_ring sv = [(Op_accept, make_request_data 0 (flag_num FLAG_ACCEPT))]
            else \<exists>msg. start_server os E h = Some (Inl (Exit msg)))"
proof -
  obtain sv where "event_loop_start E (setup_buffers E h) = Some sv" "server_inv E sv"
      "sv_ring sv = [(Op_accept, make_request_data 0 (flag_num FLAG_ACCEPT))]"
    using event_loop_start_ok [OF assms(1,2)] by blast
  then show ?thesis
    using assms(3) log_directory_eq [of os]
    by (auto simp: start_server_def setup_serv_sock_def setup_iouring_def Let_def not_less not_le log_directory_def
        split: option.split)
qed

text \<open>\<open>main\<close> adds nothing: \<open>start_server\<close> returns, if at all, with the value \<open>main\<close> returns.\<close>

lemma server_main_eq: "server_main os E h = start_server os E h"
  by (auto simp: server_main_def start_server_def setup_serv_sock_def setup_iouring_def Let_def
      split: option.split stop.split sum.split Option.bind_split)

section \<open>Connecting to the message server\<close>

lemma p2p_submit_ready [simp]: "ps_block_ready (p2p_submit op d ps) = ps_block_ready ps"
  by (simp add: p2p_submit_def)

lemma event_loop_p2p_step_ready:
  assumes "event_loop_p2p_step PB E sh c ps = Some ps'"
  shows "ps_block_ready ps' = (\<not> sh_block_created_mtx sh)"
  using assms
  by (auto simp: event_loop_p2p_step_def p2p_test_response_def P2P_send_PING_def P2Pser_send_STATUS_def
      P2Pser_send_block_def P2P_read_status_response_def p2p_add_accept_request_def Let_def bind_eq_Some_conv
      split: if_splits)

text \<open>
  C33.  Connecting the client thread: if the server accepts, the thread starts its loop with 512 empty slots;
  if it refuses, the thread returns with the mutex still taken, and from then on the node's serving thread
  never considers a block ready, whatever its neighbours send.
\<close>

theorem client_connect_decides:
  assumes "os_addrinfo os ip ''12345''" "os_socket os \<noteq> - 1"
    and "heap_wf h" "length (sh_buffer_BLOCK_DATA sh) = BUFFER_SIZE" "\<not> sh_kill_thread_p2p sh"
  shows "if os_connect os = 0
    then \<exists>cl. setup_client_iouring os ip sh h = Some (cl_shared cl, Inr cl) \<and> client_inv [] cl
    else \<exists>sh'. setup_client_iouring os ip sh h = Some (sh', Inl (Return 0)) \<and>
      (\<forall>PB E c ps ps'. event_loop_p2p_step PB E sh' c ps = Some ps' \<longrightarrow> \<not> ps_block_ready ps')"
proof -
  let ?sh = "sh\<lparr>sh_block_created_mtx := True\<rparr>"
  have "client_inv [] (client_start (os_socket os) ?sh h)" using assms(3-5) by (intro client_start_inv) simp_all
  moreover have "cl_shared (client_start (os_socket os) ?sh h) = ?sh" by (simp add: client_start_def)
  moreover have "\<not> ps_block_ready ps'" if "event_loop_p2p_step PB E ?sh c ps = Some ps'" for PB E c ps ps'
    using event_loop_p2p_step_ready [OF that] by simp
  ultimately show ?thesis using assms(1,2) by (auto simp: setup_client_iouring_def Let_def)
qed

definition demo_os :: os where
  "demo_os = \<lparr>os_getenv = (\<lambda>n. Some (string_bytes ''/root'')), os_addrinfo = (\<lambda>_ _. True), os_tcp = True, os_socket = 3,
     os_bind = True, os_listen = True, os_ring = True, os_connect = - 111, os_thread = (\<lambda>_. True)\<rparr>"

theorem server_start_decides_witness:
  "(\<exists>sv. start_server demo_os demo_env empty_heap = Some (Inr sv) \<and> server_inv demo_env sv) \<and>
   start_server (demo_os\<lparr>os_getenv := \<lambda>n. Some (replicate 123 1)\<rparr>) demo_env empty_heap = None"
proof -
  let ?os = "demo_os\<lparr>os_getenv := \<lambda>n. Some (replicate 123 1)\<rparr>"
  have "length (cstr (string_bytes ''/root'')) < 123" "length (cstr (replicate 123 1 :: bytes)) = 123"
    by (simp_all add: cstr_def string_bytes_def of_char_def)
  moreover have "os_getenv demo_os n = Some (string_bytes ''/root'')" "os_tcp demo_os" "0 \<le> sint (os_socket demo_os)"
      "os_bind demo_os" "os_listen demo_os" "os_ring demo_os" for n
    by (simp_all add: demo_os_def)
  ultimately show ?thesis
    using server_start_decides [OF demo_server_env heap_wf_empty, of demo_os]
      server_start_decides [OF demo_server_env heap_wf_empty, of ?os]
    by (auto simp: not_le)
qed

theorem client_connect_decides_witness:
  "\<exists>sh'. setup_client_iouring demo_os [1] shared_init empty_heap = Some (sh', Inl (Return 0)) \<and>
     (\<forall>PB E c ps ps'. event_loop_p2p_step PB E sh' c ps = Some ps' \<longrightarrow> \<not> ps_block_ready ps')"
  using client_connect_decides [of demo_os "[1]" empty_heap shared_init]
  by (simp add: demo_os_def heap_wf_empty shared_init_def)


lemma p2p_listening_mutex:
  assumes "p2p_listening_start os conn t ip sh h = Some (sh', r)"
  shows "sh_peer_connection_accepted sh' \<longleftrightarrow> isl r"
  using assms by (auto simp: p2p_listening_start_def connect_to_peer_def bind_eq_Some_conv split: if_splits)

lemma client_main_starts:
  assumes "os_getenv os ''HOME'' = Some home" "length (cstr home) < 123" "os_tcp os" "0 \<le> sint (os_socket os)"
    and "os_bind os" "os_listen os" "os_ring os" "\<forall>n < 3. os_thread os n"
  shows "client_main os E 2 h = Some (Inr \<lparr>nd_serv_fd = os_socket os, nd_shared = shared_init,
    nd_p2p = event_loop_p2p_start (p2p_setup_buffers E h)\<rparr>)"
  using assms log_directory_eq [OF assms(1)]
  by (simp add: client_main_def p2p_setup_serv_sock_def p2p_setup_iouring_def Let_def not_less)


end
