(* ===== verification/Shutdown.thy ===== *)
theory Shutdown
  imports Startup
begin

text \<open>
  The end of the processes: \<open>destroy_buffers\<close> of both programs, \<open>teardown_server_sock\<close> and the last part of
  \<open>client/main.c\<close>.  What a process has allocated or opened is a set of resources; to release one that is
  not held is a fault, and so is an iteration of a thread that uses a released one.  The statements at the
  end of \<open>main\<close> are a list, because the detached peer threads run between them.
\<close>

section \<open>Resources\<close>

datatype resource =
    R_buffers | R_buffer_lengths | R_buffer_transactions | R_buffer_signed_message | R_buffer_sended_N
  | R_ring_data_buf | R_buffer_BLOCK_DATA | R_el_params | R_serv_fd | R_ring

definition release :: "resource \<Rightarrow> resource set \<Rightarrow> resource set option" where
  "release r live = do {
     require (r \<in> live);
     Some (live - {r})
   }"

section \<open>The server\<close>

definition server_allocations :: "resource set" where
  "server_allocations = {R_buffers, R_buffer_lengths, R_buffer_transactions, R_buffer_signed_message, R_buffer_sended_N,
     R_ring_data_buf}"

definition destroy_buffers :: "resource set \<Rightarrow> resource set option" where
  "destroy_buffers live = do {
     live \<leftarrow> release R_buffers live;
     live \<leftarrow> release R_buffer_lengths live;
     live \<leftarrow> release R_buffer_transactions live;
     live \<leftarrow> release R_buffer_signed_message live;
     live \<leftarrow> release R_buffer_sended_N live;
     release R_ring_data_buf live
   }"

text \<open>It is the counterpart of \<open>setup_buffers\<close>, and cannot be called twice.\<close>

lemma destroy_buffers_once: "destroy_buffers server_allocations = Some {} \<and> destroy_buffers {} = None"
  by (simp add: destroy_buffers_def release_def server_allocations_def)

section \<open>The client\<close>

record process =
  pr_node :: node
  pr_live :: "resource set"
  pr_shutdown :: "u32 list"
  pr_exit :: "int option"

definition process_start :: "node \<Rightarrow> process" where
  "process_start nd = \<lparr>pr_node = nd, pr_live = {R_buffers, R_buffer_lengths, R_buffer_sended_N, R_buffer_BLOCK_DATA,
     R_el_params, R_serv_fd, R_ring}, pr_shutdown = [], pr_exit = None\<rparr>"

definition free_resource :: "resource \<Rightarrow> process \<Rightarrow> process option" where
  "free_resource r pr = do {
     live \<leftarrow> release r (pr_live pr);
     Some (pr\<lparr>pr_live := live\<rparr>)
   }"

definition p2p_destroy_buffers :: "(process \<Rightarrow> process option) list" where
  "p2p_destroy_buffers = [free_resource R_buffers, free_resource R_buffer_lengths, free_resource R_buffer_sended_N]"

definition teardown_server_sock :: "u32 \<Rightarrow> process \<Rightarrow> process option" where
  "teardown_server_sock servsock pr = Some (pr\<lparr>pr_shutdown := pr_shutdown pr @ [servsock]\<rparr>)"

text \<open>What follows the join of the message thread; whether the join succeeded is only printed.\<close>

definition client_main_end :: "(process \<Rightarrow> process option) list" where
  "client_main_end = p2p_destroy_buffers @
     [\<lambda>pr. teardown_server_sock (nd_serv_fd (pr_node pr)) pr,
      free_resource R_serv_fd,
      free_resource R_ring,
      free_resource R_el_params,
      free_resource R_buffer_BLOCK_DATA,
      \<lambda>pr. Some (pr\<lparr>pr_exit := Some 0\<rparr>)]"

fun run_all :: "('s \<Rightarrow> 's option) list \<Rightarrow> 's \<Rightarrow> 's option" where
  "run_all [] s = Some s"
| "run_all (f # fs) s = do {
     s \<leftarrow> f s;
     run_all fs s
   }"

text \<open>An iteration of the serving thread in its process: it waits on the ring, and every handler computes a
  connection's buffer, fills it or hands it to the kernel, and sets its length.\<close>

definition uses_buffers :: "shared \<Rightarrow> cqe \<Rightarrow> bool" where
  "uses_buffers sh c \<longleftrightarrow> (let t = request_data_event_type (cq_user_data c) in
     \<not> sh_kill_thread_p2p sh \<and>
     (t \<in> {p2p_num P2P_FLAG_ACCEPT, p2p_num FLAG_WAIT_PONG, p2p_num FLAG_READ_RESPONSE, p2p_num FLAG_BLOCK_SENDED} \<or>
      t = p2p_num FLAG_TEST_RESPONSE \<and> 0 < sint (cq_res c)))"

definition serving_step :: "protobuf \<Rightarrow> env \<Rightarrow> cqe \<Rightarrow> process \<Rightarrow> process option" where
  "serving_step PB E c pr = do {
     let nd = pr_node pr;
     require (R_ring \<in> pr_live pr);
     require (uses_buffers (nd_shared nd) c \<longrightarrow> R_buffers \<in> pr_live pr \<and> R_buffer_lengths \<in> pr_live pr);
     ps \<leftarrow> event_loop_p2p_step PB E (nd_shared nd) c (nd_p2p nd);
     Some (pr\<lparr>pr_node := nd\<lparr>nd_p2p := ps\<rparr>\<rparr>)
   }"

lemma serving_step_live:
  "serving_step PB E c (process_start nd) = map_option (\<lambda>ps. process_start (nd\<lparr>nd_p2p := ps\<rparr>))
     (event_loop_p2p_step PB E (nd_shared nd) c (nd_p2p nd))"
  by (simp add: serving_step_def process_start_def Let_def split: Option.bind_split)

lemma main_end_all: "run_all client_main_end (process_start nd) =
    Some \<lparr>pr_node = nd, pr_live = {}, pr_shutdown = [nd_serv_fd nd], pr_exit = Some 0\<rparr>"
  by (simp add: client_main_end_def p2p_destroy_buffers_def free_resource_def release_def teardown_server_sock_def
      process_start_def) blast

lemma run_all_prefix: "run_all fs s = Some t \<Longrightarrow> \<exists>u. run_all (take k fs) s = Some u"
proof (induction fs arbitrary: s k)
  case (Cons f fs)
  then show ?case by (cases k) (auto simp: bind_eq_Some_conv)
qed simp

lemma run_all_invariant:
  assumes "\<And>f s t. f \<in> set fs \<Longrightarrow> P s \<Longrightarrow> f s = Some t \<Longrightarrow> P t"
  shows "P s \<Longrightarrow> run_all fs s = Some t \<Longrightarrow> P t"
  using assms by (induction fs arbitrary: s) (auto simp: bind_eq_Some_conv)

lemma main_end_keeps:
  assumes "f \<in> set client_main_end" "f s = Some t"
  shows "pr_node t = pr_node s \<and> pr_live t \<subseteq> pr_live s"
  using assms
  by (auto simp: client_main_end_def p2p_destroy_buffers_def free_resource_def release_def teardown_server_sock_def
      bind_eq_Some_conv split: if_splits)

text \<open>From the first statement on the connection buffers are gone.\<close>

lemma main_end_buffers:
  assumes "0 < k"
  shows "\<exists>pr. run_all (take k client_main_end) (process_start nd) = Some pr \<and> pr_node pr = nd \<and> R_buffers \<notin> pr_live pr"
proof -
  obtain fs where fs: "client_main_end = free_resource R_buffers # fs"
    by (simp add: client_main_end_def p2p_destroy_buffers_def)
  obtain j where k: "k = Suc j" using assms by (cases k) auto
  obtain pr where pr: "run_all (take k client_main_end) (process_start nd) = Some pr"
    using run_all_prefix [OF main_end_all] by blast
  let ?s = "(process_start nd)\<lparr>pr_live := pr_live (process_start nd) - {R_buffers}\<rparr>"
  let ?P = "\<lambda>s. pr_node s = nd \<and> R_buffers \<notin> pr_live s"
  have sub: "set (take j fs) \<subseteq> set client_main_end" unfolding fs using set_take_subset [of j fs] by auto
  have keep: "?P t" if "f \<in> set (take j fs)" "?P s" "f s = Some t" for f s t
    using main_end_keeps [of f s t] that sub by blast
  have "run_all (take j fs) ?s = Some pr"
    using pr by (simp add: k fs free_resource_def release_def process_start_def)
  moreover have "?P ?s" by (simp add: process_start_def)
  ultimately have "?P pr" by (intro run_all_invariant [of "take j fs" ?P ?s pr]) (auto dest: keep)
  then show ?thesis using pr by blast
qed

lemma serving_step_freed:
  "uses_buffers (nd_shared (pr_node pr)) c \<Longrightarrow> R_buffers \<notin> pr_live pr \<Longrightarrow> serving_step PB E c pr = None"
  by (simp add: serving_step_def Let_def)

lemma accept_uses_buffers:
  "\<not> sh_kill_thread_p2p sh \<Longrightarrow> uses_buffers sh \<lparr>cq_res = fd, cq_user_data = make_request_data 0 (p2p_num P2P_FLAG_ACCEPT)\<rparr>"
  by (simp add: uses_buffers_def request_type_roundtrip)

text \<open>
  C34.  Release at the end of the client: when the message thread has returned (its connection was refused or
  it got no socket), \<open>main\<close> gives back every resource exactly once; but the detached serving thread was not
  stopped: what it handled normally before faults from the first of these statements on, because the
  connection buffers it uses are freed.
\<close>

theorem buffers_freed_under_serving_thread:
  assumes "client_main os E 2 h = Some (Inr nd)"
    and "setup_client_iouring os ip (nd_shared nd) h' = Some (sh, Inl (Return r))"
  shows "let pr = process_start (nd\<lparr>nd_shared := sh\<rparr>);
      c = \<lparr>cq_res = fd, cq_user_data = make_request_data 0 (p2p_num P2P_FLAG_ACCEPT)\<rparr> in
    (\<exists>pr'. run_all client_main_end pr = Some pr' \<and> pr_live pr' = {} \<and> pr_exit pr' = Some 0) \<and>
    (serving_step PB E' c pr = None \<longleftrightarrow> event_loop_p2p_step PB E' sh c (nd_p2p nd) = None) \<and>
    (\<forall>k > 0. \<exists>pr'. run_all (take k client_main_end) pr = Some pr' \<and> serving_step PB E' c pr' = None)"
proof -
  have "nd_shared nd = shared_init"
    using assms(1) by (auto simp: client_main_def p2p_setup_serv_sock_def p2p_setup_iouring_def Let_def bind_eq_Some_conv split: if_splits)
  then have "\<not> sh_kill_thread_p2p (nd_shared nd)" by (simp add: shared_init_def)
  then have sh: "\<not> sh_kill_thread_p2p sh" using assms(2) by (auto simp: setup_client_iouring_def Let_def split: if_splits)
  let ?nd = "nd\<lparr>nd_shared := sh\<rparr>" and ?c = "\<lparr>cq_res = fd, cq_user_data = make_request_data 0 (p2p_num P2P_FLAG_ACCEPT)\<rparr>"
  have "\<exists>pr'. run_all (take k client_main_end) (process_start ?nd) = Some pr' \<and> serving_step PB E' ?c pr' = None" if "0 < k" for k
    using main_end_buffers [OF that, of ?nd] serving_step_freed accept_uses_buffers [OF sh] by fastforce
  then show ?thesis using main_end_all [of ?nd] serving_step_live [of PB E' ?c ?nd] by (simp add: Let_def)
qed

theorem buffers_freed_under_serving_thread_witness:
  "\<exists>nd sh. client_main demo_os demo_env 2 empty_heap = Some (Inr nd) \<and>
     setup_client_iouring demo_os [1] (nd_shared nd) empty_heap = Some (sh, Inl (Return 0)) \<and>
     (\<exists>pr'. run_all (take 1 client_main_end) (process_start (nd\<lparr>nd_shared := sh\<rparr>)) = Some pr' \<and>
        serving_step plain_pb demo_env \<lparr>cq_res = 9, cq_user_data = make_request_data 0 (p2p_num P2P_FLAG_ACCEPT)\<rparr> pr' = None)"
proof -
  let ?nd = "\<lparr>nd_serv_fd = 3, nd_shared = shared_init, nd_p2p = event_loop_p2p_start (p2p_setup_buffers demo_env empty_heap)\<rparr>"
  have "client_main demo_os demo_env 2 empty_heap = Some (Inr ?nd)"
    using client_main_starts [of demo_os "string_bytes ''/root''" demo_env empty_heap]
    by (simp add: demo_os_def cstr_def string_bytes_def of_char_def)
  moreover have "setup_client_iouring demo_os [1] (nd_shared ?nd) empty_heap =
      Some (shared_init\<lparr>sh_block_created_mtx := True\<rparr>, Inl (Return 0))"
    by (simp add: setup_client_iouring_def demo_os_def)
  moreover note buffers_freed_under_serving_thread [OF calculation, of 9 plain_pb demo_env, unfolded Let_def,
      THEN conjunct2, THEN conjunct2, THEN spec, of 1, THEN mp, OF zero_less_one]
  ultimately show ?thesis by blast
qed

end
