(* ===== verification/SerdesDemo.thy ===== *)
theory SerdesDemo
  imports Wire
begin

text \<open>
  \<open>serdes/main.c\<close>, a stand-alone program that writes a message to a file and reads it back, and the
  readers of \<open>serdes.c\<close> neither process calls.  The program has its own copies of \<open>get_timestamp\<close>,
  \<open>serialize_data_v2\<close> and \<open>deserialize_data\<close>.  Files are a map from names to contents; \<open>writable\<close> is
  whether \<open>fopen\<close> can create the file.  What is printed is a string.
\<close>

section \<open>Printing\<close>

definition text_of :: "bytes \<Rightarrow> string" where
  "text_of b = map (\<lambda>x. char_of (unat x)) b"

text \<open>\<open>printf("%s", p)\<close> on an object: reads up to a terminator, which must lie inside it.\<close>

definition print_s :: "bytes \<Rightarrow> string option" where
  "print_s b = do {
     require (0 \<in> set b);
     Some (text_of (cstr b))
   }"

section \<open>\<open>print_serialized_data\<close> of \<open>serdes.c\<close>\<close>

text \<open>All its output but the first line break is commented out; the presence flags are still read.\<close>

definition print_serialized_data :: "protobuf \<Rightarrow> bytes \<Rightarrow> nat \<Rightarrow> string option" where
  "print_serialized_data PB buffer_in len = do {
     let out = newline;
     message \<leftarrow> ipc_message__unpack PB len buffer_in;
     Some out
   }"

section \<open>The program\<close>

definition puzzle_msg :: bytes where
  "puzzle_msg = string_bytes ''testpuzzle''"

definition test_pubkey :: bytes where
  "test_pubkey = [0xAA, 0xAA, 0xAA, 0xAA, 0xEE]"

definition sd_get_timestamp :: "env \<Rightarrow> bytes \<Rightarrow> heap \<Rightarrow> (bytes \<times> nat \<times> heap) option" where
  "sd_get_timestamp E buffer h = do {
     let date = date_text (gmtime (env_time E (h_tick h)));
     require (length date < 32);
     buffer \<leftarrow> memcpy buffer (string_bytes date @ [0]) (length date + 1);
     Some (buffer, length date, tick h)
   }"

text \<open>\<open>char *date[32]\<close> has 32 pointers, 256 bytes.  \<open>time_num\<close> keeps its initial value 0.\<close>

definition sd_serialize_data_v2 ::
  "protobuf \<Rightarrow> env \<Rightarrow> bytes \<Rightarrow> addr \<Rightarrow> heap \<Rightarrow> (nat \<times> bytes \<times> heap) option" where
  "sd_serialize_data_v2 PB E socket_buf a_message h = do {
     a \<leftarrow> h_msgs h a_message;
     data \<leftarrow> sm_message a;
     require (unat (sm_length a) \<le> length data);
     (date, _, h) \<leftarrow> sd_get_timestamp E (indeterminate E 256) h;
     let message = ipc_message__init\<lparr>im_transaction_msg := Some (take (unat (sm_length a)) data),
       im_pubkey := Some (take crypto_sign_PUBLICKEYBYTES (sm_public_key a)),
       im_status_code := ipc_code IPC_MESSAGE__STATUS__OK, im_timestamp := cstr date\<rparr>;
     (len, socket_buf) \<leftarrow> ipc_message__pack PB message socket_buf;
     Some (len, socket_buf, h)
   }"

text \<open>The result struct is not initialised: a text is copied through an indeterminate pointer.\<close>

definition sd_deserialize_data :: "protobuf \<Rightarrow> env \<Rightarrow> bytes \<Rightarrow> (string \<times> signed_message_t) option" where
  "sd_deserialize_data PB E received = do {
     message \<leftarrow> ipc_message__unpack PB (length received) received;
     let out = (if im_status_code message = ipc_code IPC_MESSAGE__STATUS__OK then ''OK!'' @ newline else '''');
     pk \<leftarrow> (case im_pubkey message of
        None \<Rightarrow> Some (indeterminate E crypto_sign_PUBLICKEYBYTES)
      | Some p \<Rightarrow> memcpy (indeterminate E crypto_sign_PUBLICKEYBYTES) p crypto_sign_PUBLICKEYBYTES);
     require (im_transaction_msg message = None);
     Some (out, \<lparr>sm_message = None, sm_length = 0, sm_public_key = pk\<rparr>)
   }"

text \<open>A failed \<open>fopen\<close> gives a null stream to \<open>fwrite\<close>.  The buffer is local to the function: the
  pointer of the caller stays null.\<close>

definition sd_serialize_data ::
  "protobuf \<Rightarrow> env \<Rightarrow> bool \<Rightarrow> heap \<Rightarrow> (string \<rightharpoonup> bytes) \<Rightarrow> (string \<times> (string \<rightharpoonup> bytes) \<times> heap) option" where
  "sd_serialize_data PB E writable h files = do {
     (date, _, h) \<leftarrow> sd_get_timestamp E (indeterminate E 256) h;
     let message = ipc_message__init\<lparr>im_transaction_msg := Some (take 10 puzzle_msg),
       im_pubkey := Some (take 5 test_pubkey), im_status_code := ipc_code IPC_MESSAGE__STATUS__OK,
       im_timestamp := cstr date\<rparr>;
     let len = length (pb_ipc_pack PB message);
     let buffer = indeterminate E len;
     (len, buffer) \<leftarrow> ipc_message__pack PB message buffer;
     require writable;
     Some (''serialized!'' @ newline, files(''serialized'' \<mapsto> take len buffer), h)
   }"

definition sd_main ::
  "protobuf \<Rightarrow> env \<Rightarrow> bool \<Rightarrow> heap \<Rightarrow> (string \<rightharpoonup> bytes) \<Rightarrow> (string \<times> (string \<rightharpoonup> bytes) \<times> heap) option" where
  "sd_main PB E writable h files = do {
     (out, files, h) \<leftarrow> sd_serialize_data PB E writable h files;
     content \<leftarrow> files ''serialized'';
     let len = min 1024 (length content);
     buffer \<leftarrow> memcpy (calloc 1024) content len;
     message \<leftarrow> ipc_message__unpack PB len buffer;
     key \<leftarrow> (case im_pubkey message of
        None \<Rightarrow> Some ''''
      | Some p \<Rightarrow> do { s \<leftarrow> print_s p; Some (''has pubkey!'' @ newline @ s @ newline) });
     let flag = (\<lambda>x. if x = None then ''0'' else ''1'');
     let out = out @ key @ ''has pubkey '' @ flag (im_pubkey message) @ newline @
       ''has msg '' @ flag (im_transaction_msg message) @ newline @
       ''date: '' @ text_of (im_timestamp message) @ newline;
     Some (out, files, h)
   }"

section \<open>What it does\<close>

lemma sd_get_timestamp_eq: "sd_get_timestamp = get_timestamp"
  by (simp add: fun_eq_iff sd_get_timestamp_def get_timestamp_def)

lemma sd_timestamp:
  assumes "clock_ok E"
  obtains date where "sd_get_timestamp E (indeterminate E 256) h = Some (date, 23, tick h)" "length (cstr date) \<le> 256"
proof -
  obtain date where "get_timestamp E (indeterminate E 256) h = Some (date, 23, tick h)" "length date = 256"
    using timestamp_ok [OF assms, of "indeterminate E 256" h] by auto
  then show thesis using that length_cstr_le [of date] by (simp add: sd_get_timestamp_eq)
qed

lemma sd_file:
  assumes "protobuf_ok PB" "clock_ok E"
  shows "\<exists>content m. sd_serialize_data PB E True h files =
      Some (''serialized!'' @ newline, files(''serialized'' \<mapsto> content), tick h) \<and>
    length content \<le> 1024 \<and> pb_ipc_unpack PB content = Some m \<and>
    im_transaction_msg m = Some puzzle_msg \<and> im_pubkey m = Some test_pubkey \<and>
    im_status_code m = ipc_code IPC_MESSAGE__STATUS__OK \<and> im_time_num m = 0"
proof -
  obtain date where d: "sd_get_timestamp E (indeterminate E 256) h = Some (date, 23, tick h)" "length (cstr date) \<le> 256"
    using sd_timestamp [OF assms(2)] .
  define m where "m = ipc_message__init\<lparr>im_transaction_msg := Some puzzle_msg, im_pubkey := Some test_pubkey,
    im_status_code := ipc_code IPC_MESSAGE__STATUS__OK, im_timestamp := cstr date\<rparr>"
  have "ipc_size m \<le> 271"
    using d(2) by (simp add: m_def ipc_size_def puzzle_msg_def test_pubkey_def string_bytes_def)
  moreover have "0 \<notin> set (im_timestamp m)" by (simp add: m_def)
  ultimately have p: "pb_ipc_unpack PB (pb_ipc_pack PB m) = Some m" "length (pb_ipc_pack PB m) \<le> 1024"
    using assms(1) by (auto simp: protobuf_ok_def intro: order_trans)
  have "sd_serialize_data PB E True h files =
      Some (''serialized!'' @ newline, files(''serialized'' \<mapsto> pb_ipc_pack PB m), tick h)"
    using d(1) by (simp add: sd_serialize_data_def ipc_message__pack_def memcpy_at_def Let_def m_def puzzle_msg_def
        test_pubkey_def string_bytes_def)
  then show ?thesis using p by (intro exI [of _ "pb_ipc_pack PB m"] exI [of _ m]) (simp add: m_def ipc_message__init_def)
qed

lemma deserialize_faults:
  assumes "ipc_message__unpack PB n x = Some m" "im_transaction_msg m = Some t"
  shows "deserialize_data PB E (take n x) = None" "sd_deserialize_data PB E (take n x) = None"
proof -
  have "ipc_message__unpack PB (length (take n x)) (take n x) = Some m"
    using assms(1) by (auto simp: ipc_message__unpack_def split: if_splits)
  then show "deserialize_data PB E (take n x) = None" "sd_deserialize_data PB E (take n x) = None"
    using assms(2) by (auto simp: deserialize_data_def sd_deserialize_data_def Let_def split: option.split Option.bind_split)
qed

lemma sd_serialize_message:
  assumes "protobuf_ok PB" "clock_ok E" "h_msgs h a = Some m" "msg_ok m" "unat (sm_length m) \<le> 3000"
    and "length buf = SOCK_BUF"
  shows "\<exists>n buf' im. sd_serialize_data_v2 PB E buf a h = Some (n, buf', tick h) \<and> n \<le> length buf' \<and>
    ipc_message__unpack PB n buf' = Some im \<and> im_status_code im = ipc_code IPC_MESSAGE__STATUS__OK \<and>
    im_transaction_msg im = Some (msg_bytes m) \<and> im_pubkey im = Some (sm_public_key m)"
proof -
  obtain date where d: "sd_get_timestamp E (indeterminate E 256) h = Some (date, 23, tick h)" "length (cstr date) \<le> 256"
    using sd_timestamp [OF assms(2)] .
  obtain data where data: "sm_message m = Some data" "unat (sm_length m) \<le> length data" "length (sm_public_key m) = 32"
    using assms(4) by (auto simp: msg_ok_def)
  let ?m = "ipc_message__init\<lparr>im_transaction_msg := Some (take (unat (sm_length m)) data),
       im_pubkey := Some (sm_public_key m), im_status_code := ipc_code IPC_MESSAGE__STATUS__OK,
       im_timestamp := cstr date\<rparr>"
  have size: "ipc_size ?m \<le> 3288" using d(2) data assms(5) by (simp add: ipc_size_def)
  obtain n buf' where "ipc_message__pack PB ?m buf = Some (n, buf')" "n \<le> 80 + ipc_size ?m"
      "length buf' = length buf" "ipc_message__unpack PB n buf' = Some ?m"
    using ipc_pack_unpack [OF assms(1), of ?m buf] size assms(6) by auto
  then show ?thesis
    using d(1) size data assms(3,6) by (auto simp: sd_serialize_data_v2_def msg_bytes_def)
qed

text \<open>
  Neither \<open>deserialize_data\<close> can read what its own \<open>serialize_data_v2\<close> writes: for every valid message
  the frame unpacks to its text and key, and reading it back copies the text through an uninitialised
  pointer.  (The client uses \<open>deserialize_data_from_server\<close>.)
\<close>

theorem deserialize_data_faults:
  assumes "protobuf_ok PB" "clock_ok E" "h_msgs h a = Some m" "msg_ok m" "unat (sm_length m) \<le> 3000"
    and "length buf = SOCK_BUF"
  shows "(\<exists>n buf' h'. serialize_data_v2 PB E buf a h = Some (n, buf', h') \<and> deserialize_data PB E (take n buf') = None) \<and>
    (\<exists>n buf' h'. sd_serialize_data_v2 PB E buf a h = Some (n, buf', h') \<and> sd_deserialize_data PB E (take n buf') = None)"
  using serialize_message [OF assms] sd_serialize_message [OF assms] deserialize_faults by metis

theorem deserialize_data_faults_witness:
  "\<exists>n buf' h'. serialize_data_v2 plain_pb demo_env (calloc 4096) 1 (snd (alloc_msg demo_msg empty_heap)) = Some (n, buf', h') \<and>
     deserialize_data plain_pb demo_env (take n buf') = None"
proof -
  have "h_msgs (snd (alloc_msg demo_msg empty_heap)) 1 = Some demo_msg" by (simp add: alloc_msg_def empty_heap_def)
  moreover have "msg_ok demo_msg" by (simp add: demo_msg_def msg_ok_def)
  ultimately show ?thesis
    using deserialize_data_faults [OF plain_pb_ok demo_clock_ok, of _ 1 demo_msg "calloc 4096"] by (simp add: demo_msg_def)
qed

text \<open>
  The demonstration program writes a file from which the message can be unpacked (its text, its
  five-byte key, status OK), and then runs past the end of the key: it prints the key, which has no
  terminator, as a string.
\<close>

theorem sd_main_overreads:
  assumes "protobuf_ok PB" "clock_ok E"
  shows "(\<exists>content m h'. sd_serialize_data PB E True h files =
      Some (''serialized!'' @ newline, files(''serialized'' \<mapsto> content), h') \<and>
      pb_ipc_unpack PB content = Some m \<and> im_transaction_msg m = Some puzzle_msg \<and> im_pubkey m = Some test_pubkey \<and>
      im_status_code m = ipc_code IPC_MESSAGE__STATUS__OK) \<and>
    sd_main PB E True h files = None"
proof -
  obtain content m where c: "sd_serialize_data PB E True h files =
      Some (''serialized!'' @ newline, files(''serialized'' \<mapsto> content), tick h)" "length content \<le> 1024"
      "pb_ipc_unpack PB content = Some m" "im_transaction_msg m = Some puzzle_msg" "im_pubkey m = Some test_pubkey"
      "im_status_code m = ipc_code IPC_MESSAGE__STATUS__OK"
    using sd_file [OF assms] by blast
  have "print_s test_pubkey = None" by (simp add: print_s_def test_pubkey_def)
  then have "sd_main PB E True h files = None"
    using c(1,2,3,5) by (simp add: sd_main_def Let_def memcpy_at_def ipc_message__unpack_def)
  then show ?thesis using c by blast
qed

theorem sd_main_overreads_witness:
  "sd_main plain_pb demo_env True empty_heap Map.empty = None"
  using sd_main_overreads [OF plain_pb_ok demo_clock_ok] by blast

end
