(* ===== verification/Tests.thy ===== *)
theory Tests
  imports ClientRun SerdesDemo
begin

text \<open>
  \<open>tests/tests.c\<close> and \<open>tests/tests2.c\<close>: the test programs of the repository, over the definitions that model
  what they call.  A test returns 0 when it has passed.  Every test of the suite \<open>tests\<close> passes and leaves no message and
  no node on the heap (\<open>passes\<close>); only for \<open>test_mekrle_proof_WRONG\<close> does passing depend on the messages drawn and on
  the hash function.  The first four tests keep signed messages in local structs and hashes in plain buffers, which
  are values here; the code never frees their texts and hashes (\<open>no memory safe\<close> in the source), and nothing is
  claimed about these.  Printed are the report at the end of the suite and the output of the tests that print results.
\<close>

section \<open>Signatures and hashes\<close>

text \<open>The inner loop of \<open>test_valid_messages\<close>: validation until it fails.\<close>

fun validate_loop :: "env \<Rightarrow> signed_message_t \<Rightarrow> bytes \<Rightarrow> nat \<Rightarrow> int \<Rightarrow> int option" where
  "validate_loop E a_msg pk 0 result = Some result"
| "validate_loop E a_msg pk (Suc n) result = do {
     r \<leftarrow> validate_a_message E a_msg pk;
     let result = (if r \<noteq> 0 then 1 else 0);
     (if result = 0 then Some result else validate_loop E a_msg pk n result)
   }"

text \<open>Its outer loop, with \<open>n\<close> rounds to go; it gives the value of \<open>i\<close> behind the loop.\<close>

fun valid_loop :: "env \<Rightarrow> user_keys \<Rightarrow> nat \<Rightarrow> nat \<Rightarrow> heap \<Rightarrow> (nat \<times> heap) option" where
  "valid_loop E uk 0 i h = Some (i, h)"
| "valid_loop E uk (Suc n) i h = do {
     (somemsg, h) \<leftarrow> ls_get_test_msg E 15 h;
     a_msg \<leftarrow> sign_a_message E somemsg (uk_sk uk);
     result \<leftarrow> validate_loop E a_msg (uk_pk uk) 100 0;
     (if result = 0 then Some (i, h) else valid_loop E uk n (Suc i) h)
   }"

definition test_valid_messages :: "env \<Rightarrow> heap \<Rightarrow> (int \<times> heap) option" where
  "test_valid_messages E h = do {
     (uk, h) \<leftarrow> create_key_pair E h;
     (i, h) \<leftarrow> valid_loop E uk 15 0 h;
     Some (if i = 15 then 0 else 1, h)
   }"

fun draw_texts :: "env \<Rightarrow> nat \<Rightarrow> heap \<Rightarrow> (test_msg_t list \<times> heap) option" where
  "draw_texts E 0 h = Some ([], h)"
| "draw_texts E (Suc n) h = do {
     (t, h) \<leftarrow> ls_get_test_msg E 15 h;
     (ts, h) \<leftarrow> draw_texts E n h;
     Some (t # ts, h)
   }"

fun sign_loop :: "env \<Rightarrow> user_keys \<Rightarrow> test_msg_t list \<Rightarrow> int \<Rightarrow> int option" where
  "sign_loop E uk [] result = Some result"
| "sign_loop E uk (t # ts) result = do {
     a_msg \<leftarrow> sign_a_message E t (uk_sk uk);
     r \<leftarrow> validate_a_message E a_msg (uk_pk uk);
     sign_loop E uk ts (if r \<noteq> 0 then result + 1 else 0)
   }"

definition test_INvalid_messages :: "env \<Rightarrow> heap \<Rightarrow> (int \<times> heap) option" where
  "test_INvalid_messages E h = do {
     (uk, h) \<leftarrow> create_key_pair E h;
     (somemsg, h) \<leftarrow> draw_texts E 15 (tick h);
     result \<leftarrow> sign_loop E uk somemsg 0;
     Some (if result = 15 then 0 else 1, h)
   }"

text \<open>\<open>strncmp(a, b, n) == 0\<close>: the bytes agree up to a terminator or up to \<open>n\<close>.\<close>

definition strncmp_eq :: "bytes \<Rightarrow> bytes \<Rightarrow> nat \<Rightarrow> bool" where
  "strncmp_eq a b n \<longleftrightarrow> cstr (take n a) = cstr (take n b)"

fun hash_loop :: "(bytes \<Rightarrow> bytes) \<Rightarrow> signed_message_t \<Rightarrow> bytes \<Rightarrow> nat \<Rightarrow> nat \<Rightarrow> nat option" where
  "hash_loop H a_msg hash 0 i = Some i"
| "hash_loop H a_msg hash (Suc n) i = do {
     c \<leftarrow> calc_hash H a_msg;
     hash_re \<leftarrow> memcpy (calloc crypto_generichash_BYTES) c crypto_generichash_BYTES;
     (if \<not> strncmp_eq hash hash_re crypto_generichash_BYTES then Some i else hash_loop H a_msg hash n (Suc i))
   }"

definition test_hash :: "env \<Rightarrow> heap \<Rightarrow> (int \<times> heap) option" where
  "test_hash E h = do {
     (uk, h) \<leftarrow> create_key_pair E h;
     let (somemsg, h) = get_test_msg E 100 (tick h);
     a_msg \<leftarrow> sign_a_message E somemsg (uk_sk uk);
     c \<leftarrow> calc_hash (env_generichash E) a_msg;
     hash \<leftarrow> memcpy (calloc crypto_generichash_BYTES) c crypto_generichash_BYTES;
     i \<leftarrow> hash_loop (env_generichash E) a_msg hash 500 0;
     Some (if i = 500 then 0 else 1, h)
   }"

definition test_hash_merging :: "env \<Rightarrow> heap \<Rightarrow> (int \<times> heap) option" where
  "test_hash_merging E h = do {
     (uk, h) \<leftarrow> create_key_pair E h;
     let (somemsg, h) = get_test_msg E 100 (tick h);
     a_msg \<leftarrow> sign_a_message E somemsg (uk_sk uk);
     (uk2, h) \<leftarrow> create_key_pair E h;
     let (somemsg2, h) = get_test_msg E 100 h;
     a_msg2 \<leftarrow> sign_a_message E somemsg2 (uk_sk uk2);
     c1 \<leftarrow> calc_hash (env_generichash E) a_msg;
     c2 \<leftarrow> calc_hash (env_generichash E) a_msg2;
     _ \<leftarrow> merge_2hashses (env_generichash E) c1 c2;
     Some (0, h)
   }"

section \<open>Objects\<close>

definition test_cleanup_message :: "env \<Rightarrow> heap \<Rightarrow> (int \<times> heap) option" where
  "test_cleanup_message E h = do {
     (uk, h) \<leftarrow> create_key_pair E h;
     (msg, h) \<leftarrow> ls_get_a_signed_msg E uk h;
     m \<leftarrow> h_msgs h msg;
     _ \<leftarrow> validate_a_message E m (uk_pk uk);
     h \<leftarrow> destroy_signed_message msg h;
     Some (0, h)
   }"

text \<open>The loop that fills an array of \<open>n\<close> messages and validates each; \<open>rez\<close> sums up the answers.\<close>

fun fill_messages :: "env \<Rightarrow> user_keys \<Rightarrow> nat \<Rightarrow> heap \<Rightarrow> (addr list \<times> int \<times> heap) option" where
  "fill_messages E uk 0 h = Some ([], 0, h)"
| "fill_messages E uk (Suc n) h = do {
     (a, h) \<leftarrow> ls_get_a_signed_msg E uk h;
     m \<leftarrow> h_msgs h a;
     r \<leftarrow> validate_a_message E m (uk_pk uk);
     (as, rez, h) \<leftarrow> fill_messages E uk n h;
     Some (a # as, r + rez, h)
   }"

definition test_message_creation_and_validation :: "env \<Rightarrow> heap \<Rightarrow> (int \<times> heap) option" where
  "test_message_creation_and_validation E h = do {
     (uk, h) \<leftarrow> create_key_pair E h;
     (msg_arr, rez, h) \<leftarrow> fill_messages E uk 512 h;
     h \<leftarrow> foldM destroy_signed_message msg_arr h;
     Some (if rez = 512 then 0 else 1, h)
   }"

text \<open>\<open>point->messages.smsg_p1\<close> and \<open>smsg_p2\<close>.\<close>

definition point_msgs :: "addr \<Rightarrow> heap \<Rightarrow> (addr \<times> addr) option" where
  "point_msgs a h = do {
     p \<leftarrow> h_points h a;
     (case hp_union p of Smgs2 m1 _ m2 _ \<Rightarrow> Some (m1, m2) | Children _ _ \<Rightarrow> None)
   }"

definition test_create_and_destroy_hpoint :: "env \<Rightarrow> heap \<Rightarrow> (int \<times> heap) option" where
  "test_create_and_destroy_hpoint E h = do {
     (uk, h) \<leftarrow> create_key_pair E h;
     (msg1, h) \<leftarrow> ls_get_a_signed_msg E uk h;
     m1 \<leftarrow> h_msgs h msg1;
     _ \<leftarrow> validate_a_message E m1 (uk_pk uk);
     (uk2, h) \<leftarrow> create_key_pair E h;
     (msg2, h) \<leftarrow> ls_get_a_signed_msg E uk2 h;
     m2 \<leftarrow> h_msgs h msg2;
     _ \<leftarrow> validate_a_message E m2 (uk_pk uk2);
     (HASH_POINT, h) \<leftarrow> create_hpoint_message (env_generichash E) msg1 msg2 h;
     (p1, p2) \<leftarrow> point_msgs HASH_POINT h;
     let rez = (if p1 = msg1 then 1 else 0) + (if p2 = msg2 then 1 else 0 :: int);
     h \<leftarrow> destroy_signed_message msg1 h;
     h \<leftarrow> destroy_signed_message msg2 h;
     h \<leftarrow> destroy_hpoint_message HASH_POINT h;
     Some (if rez = 2 then 0 else 1, h)
   }"

section \<open>Trees\<close>

definition test_process_messages_L1_v2 :: "env \<Rightarrow> heap \<Rightarrow> (int \<times> heap) option" where
  "test_process_messages_L1_v2 E h = do {
     let n_msg = push_bit 5 (1 :: u64);
     (uk, h) \<leftarrow> create_key_pair E h;
     (msg_arr, rez, h) \<leftarrow> fill_messages E uk (unat n_msg) h;
     (root_layer, h) \<leftarrow> process_s_messagesV2 (env_generichash E) n_msg msg_arr h;
     h \<leftarrow> destoroy_a_layer root_layer h;
     h \<leftarrow> foldM destroy_signed_message msg_arr h;
     Some (if rez = int (unat n_msg) then 0 else 1, h)
   }"

definition create_test_messages :: "env \<Rightarrow> u64 \<Rightarrow> heap \<Rightarrow> (int \<times> heap) option" where
  "create_test_messages E EXPONENT h = do {
     require (EXPONENT < 64);
     let n_msg = push_bit (unat EXPONENT) (1 :: u64);
     (uk, h) \<leftarrow> create_key_pair E h;
     (msg_arr, _, h) \<leftarrow> fill_messages E uk (unat n_msg) h;
     (L_arrays, _, h) \<leftarrow> merkle_layers (env_generichash E) EXPONENT n_msg msg_arr h;
     h \<leftarrow> destroy_layers L_arrays h;
     h \<leftarrow> foldM destroy_signed_message msg_arr h;
     Some (0, h)
   }"

definition test_mekrle_proof_RIGHT :: "env \<Rightarrow> heap \<Rightarrow> (int \<times> heap) option" where
  "test_mekrle_proof_RIGHT E h = do {
     let n_msg = push_bit 9 (1 :: u64);
     (uk, h) \<leftarrow> create_key_pair E h;
     (wrong_message, h) \<leftarrow> ls_get_a_signed_msg E uk h;
     (msg_arr, _, h) \<leftarrow> fill_messages E uk (unat n_msg) h;
     (L_arrays, L_arrays_p, h) \<leftarrow> merkle_layers (env_generichash E) 9 n_msg msg_arr h;
     ver_result \<leftarrow> verify_all (\<lambda>i. merkle_verify_message (env_generichash E) 9 (of_nat i) L_arrays_p h) 0 (2 ^ 9) 0;
     h \<leftarrow> destroy_layers L_arrays h;
     h \<leftarrow> foldM destroy_signed_message msg_arr h;
     h \<leftarrow> destroy_signed_message wrong_message h;
     Some (if ver_result \<noteq> 2 ^ 9 then 1 else 0, h)
   }"

text \<open>The text of the wrong message is copied over that of the first message of node 125.\<close>

definition wreck_message :: "u64 \<Rightarrow> layers \<Rightarrow> addr \<Rightarrow> heap \<Rightarrow> heap option" where
  "wreck_message EXPONENT L_arrays_p wrong_message h = do {
     leaf \<leftarrow> layer_point L_arrays_p (unat (EXPONENT - 1)) 125 h;
     a \<leftarrow> (case hp_union leaf of Smgs2 m _ _ _ \<Rightarrow> Some m | Children _ _ \<Rightarrow> None);
     m \<leftarrow> h_msgs h a;
     buf \<leftarrow> sm_message m;
     w \<leftarrow> h_msgs h wrong_message;
     data \<leftarrow> sm_message w;
     buf \<leftarrow> memcpy buf data (unat (sm_length w));
     write_msg a (m\<lparr>sm_message := Some buf\<rparr>) h
   }"

definition test_mekrle_proof_WRONG :: "env \<Rightarrow> heap \<Rightarrow> (int \<times> heap) option" where
  "test_mekrle_proof_WRONG E h = do {
     let n_msg = push_bit 14 (1 :: u64);
     (uk, h) \<leftarrow> create_key_pair E h;
     (wrong_message, h) \<leftarrow> ls_get_a_signed_msg E uk h;
     (msg_arr, _, h) \<leftarrow> fill_messages E uk (unat n_msg) h;
     (L_arrays, L_arrays_p, h) \<leftarrow> merkle_layers (env_generichash E) 14 n_msg msg_arr h;
     h \<leftarrow> wreck_message 14 L_arrays_p wrong_message h;
     ver_result \<leftarrow> verify_all (\<lambda>i. merkle_verify_message (env_generichash E) 14 (of_nat i) L_arrays_p h) 0 (2 ^ 14) 0;
     h \<leftarrow> destroy_layers L_arrays h;
     h \<leftarrow> foldM destroy_signed_message msg_arr h;
     h \<leftarrow> destroy_signed_message wrong_message h;
     Some (if ver_result \<noteq> 125 * 2 then 1 else 0, h)
   }"

section \<open>The suite\<close>

definition tests_report :: "int \<Rightarrow> string" where
  "tests_report result = ''passed '' @ decimal (nat result) @ '' tests'' @ newline @
     (if result = 0 then ''ALL TESTS PASSED OK'' else ''SOME ERRORS WHILE TESTING OCCURRED!'') @ newline"

definition tests :: "env \<Rightarrow> heap \<Rightarrow> (string \<times> heap) option" where
  "tests E h = do {
     (r1, h) \<leftarrow> test_valid_messages E h;
     (r2, h) \<leftarrow> test_INvalid_messages E h;
     (r3, h) \<leftarrow> test_hash E h;
     (r4, h) \<leftarrow> test_hash_merging E h;
     (r5, h) \<leftarrow> test_cleanup_message E h;
     (r6, h) \<leftarrow> test_message_creation_and_validation E h;
     (r7, h) \<leftarrow> test_create_and_destroy_hpoint E h;
     (r8, h) \<leftarrow> test_process_messages_L1_v2 E h;
     (r9, h) \<leftarrow> create_test_messages E 9 h;
     (r10, h) \<leftarrow> test_mekrle_proof_RIGHT E h;
     (r11, h) \<leftarrow> test_mekrle_proof_WRONG E h;
     let result = r1 + r2 + r3 + r4 + r5 + r6 + r7 + r8 + r9 + r10 + r11;
     Some (tests_report result, h)
   }"

text \<open>The process with \<open>TESTMODE\<close> defined returns 0, whatever the suite reports.\<close>

definition main_testmode :: "env \<Rightarrow> heap \<Rightarrow> (string \<times> int \<times> heap) option" where
  "main_testmode E h = do {
     (out, h) \<leftarrow> tests E h;
     Some (out, 0, h)
   }"

section \<open>What a test needs and leaves behind\<close>

text \<open>A run that leaves the messages and nodes on the heap as they were and uses \<open>n\<close> answers of the environment; a test that passes with such a
  run whenever it is called.\<close>

definition clean_run :: "nat \<Rightarrow> heap \<Rightarrow> heap \<Rightarrow> bool" where
  "clean_run n h h' \<longleftrightarrow> heap_wf h' \<and> h_msgs h' = h_msgs h \<and> h_points h' = h_points h \<and> h_tick h' = h_tick h + n"

definition passes :: "nat \<Rightarrow> (heap \<Rightarrow> (int \<times> heap) option) \<Rightarrow> bool" where
  "passes n test \<longleftrightarrow> (\<forall>h. heap_wf h \<longrightarrow> (\<exists>h'. test h = Some (0, h') \<and> clean_run n h h'))"

lemma clean_run_trans: "clean_run m h h' \<Longrightarrow> clean_run n h' h'' \<Longrightarrow> clean_run (m + n) h h''"
  by (simp add: clean_run_def)

definition test_env :: "env \<Rightarrow> bool" where
  "test_env E \<longleftrightarrow> server_env E \<and> generichash_ok (env_generichash E)"

lemma test_envD: "test_env E \<Longrightarrow> server_env E" "test_env E \<Longrightarrow> generichash_ok (env_generichash E)"
    "test_env E \<Longrightarrow> sign_ok E"
  by (simp_all add: test_env_def server_env_def)

definition keys_at :: "env \<Rightarrow> nat \<Rightarrow> user_keys" where
  "keys_at E t = \<lparr>uk_pk = fst (env_sign_keypair E t), uk_sk = snd (env_sign_keypair E t)\<rparr>"

lemma new_keys: "test_env E \<Longrightarrow> create_key_pair E h = Some (keys_at E (h_tick h), tick h)"
  by (simp add: create_key_pair_eq test_envD keys_at_def)

lemma heap_wf_ticks [simp]: "heap_wf (h\<lparr>h_tick := t\<rparr>) = heap_wf h"
  by (simp add: heap_wf_def)

lemma keys_made: "test_env E \<Longrightarrow> \<exists>h0 h1. create_key_pair E h0 = Some (keys_at E t, h1)"
  using new_keys [of E "empty_heap\<lparr>h_tick := t\<rparr>"] by auto

section \<open>Tests of signatures and hashes\<close>

text \<open>A text signed with a generated key.\<close>

lemma signed_text:
  assumes "test_env E" "length (tm_test_msg t) = unat (tm_len t)" "0 < unat (tm_len t)" "unat (tm_len t) < 1000"
  obtains m where "sign_a_message E t (uk_sk (keys_at E k)) = Some m"
    "validate_a_message E m (uk_pk (keys_at E k)) = Some 1" "msg_ok m"
proof -
  obtain h0 h1 where k: "create_key_pair E h0 = Some (keys_at E k, h1)" using keys_made [OF assms(1)] by blast
  obtain m where m: "sign_a_message E t (uk_sk (keys_at E k)) = Some m" "validate_a_message E m (uk_pk (keys_at E k)) = Some 1"
    using sign_validate_roundtrip_gen [OF test_envD(3) [OF assms(1)] k assms(2,3)] assms(4) by auto
  have "length (uk_sk (keys_at E k)) = crypto_sign_SECRETKEYBYTES" "length (env_sign E (tm_test_msg t) (uk_sk (keys_at E k))) = 64 + unat (tm_len t)"
    using test_envD(3) [OF assms(1)] assms(2) by (simp_all add: keys_at_def sign_ok_def)
  then have "msg_ok m"
    using m(1) sign_a_message_eq [OF test_envD(3) [OF assms(1)] _ assms(2)] assms(4) unat_add_64 [of "unat (tm_len t)"]
    by (auto simp: msg_ok_def)
  then show thesis using that m by blast
qed

lemma drawn_text:
  assumes "test_env E"
  obtains t where "ls_get_test_msg E 15 h = Some (t, tick h)" "length (tm_test_msg t) = unat (tm_len t)" "unat (tm_len t) = 15"
  using that [of "\<lparr>tm_test_msg = env_randombytes E (h_tick h) 15, tm_len = 15\<rparr>"] assms
  by (simp add: ls_get_test_msg_def test_env_def server_env_def random_ok_def memcpy_full)

lemma generated_text:
  obtains t where "get_test_msg E 100 h = (t, h\<lparr>h_tick := h_tick h + 101\<rparr>)" "length (tm_test_msg t) = unat (tm_len t)"
    "unat (tm_len t) = 100"
  using that [of "\<lparr>tm_test_msg = test_msg_loop E (Suc (h_tick h)) 100 [], tm_len = 100\<rparr>"]
    test_msg_loop_spec [of E "Suc (h_tick h)" 100 "[]"] by (simp add: get_test_msg_def Let_def tick_def)

lemma validate_loop_passes:
  "validate_a_message E m pk = Some 1 \<Longrightarrow> validate_loop E m pk n r = Some (if n = 0 then r else 1)"
  by (induction n arbitrary: r) auto

lemma valid_loop_passes:
  assumes "test_env E"
  shows "valid_loop E (keys_at E k) n i h = Some (i + n, h\<lparr>h_tick := h_tick h + n\<rparr>)"
proof (induction n arbitrary: i h)
  case (Suc n)
  obtain t where t: "ls_get_test_msg E 15 h = Some (t, tick h)" "length (tm_test_msg t) = unat (tm_len t)" "unat (tm_len t) = 15"
    using drawn_text [OF assms] .
  then obtain m where "sign_a_message E t (uk_sk (keys_at E k)) = Some m" "validate_a_message E m (uk_pk (keys_at E k)) = Some 1"
    using signed_text [OF assms, of t k] by auto
  then show ?case using t(1) Suc.IH by (simp add: validate_loop_passes tick_def)
qed simp

lemma test_valid_messages_passes: "test_env E \<Longrightarrow> passes 16 (test_valid_messages E)"
  by (simp add: passes_def test_valid_messages_def new_keys valid_loop_passes clean_run_def)

lemma draw_texts_eq:
  assumes "test_env E"
  shows "\<exists>ts. draw_texts E n h = Some (ts, h\<lparr>h_tick := h_tick h + n\<rparr>) \<and> length ts = n \<and>
    (\<forall>t \<in> set ts. length (tm_test_msg t) = unat (tm_len t) \<and> unat (tm_len t) = 15)"
proof (induction n arbitrary: h)
  case (Suc n)
  obtain t where t: "ls_get_test_msg E 15 h = Some (t, tick h)" "length (tm_test_msg t) = unat (tm_len t)" "unat (tm_len t) = 15"
    using drawn_text [OF assms] .
  with Suc [of "tick h"] show ?case by (auto simp: tick_def)
qed simp

lemma sign_loop_passes:
  assumes "test_env E" "\<forall>t \<in> set ts. length (tm_test_msg t) = unat (tm_len t) \<and> unat (tm_len t) = 15"
  shows "sign_loop E (keys_at E k) ts r = Some (r + int (length ts))"
  using assms(2)
proof (induction ts arbitrary: r)
  case (Cons t ts)
  then have t: "length (tm_test_msg t) = unat (tm_len t)" "unat (tm_len t) = 15" by auto
  then obtain m where "sign_a_message E t (uk_sk (keys_at E k)) = Some m" "validate_a_message E m (uk_pk (keys_at E k)) = Some 1"
    using signed_text [OF assms(1) t(1), of k] by auto
  then show ?case using Cons by simp
qed simp

lemma test_INvalid_messages_passes:
  assumes "test_env E"
  shows "passes 17 (test_INvalid_messages E)"
proof -
  have "\<exists>h'. test_INvalid_messages E h = Some (0, h') \<and> clean_run 17 h h'" if "heap_wf h" for h
  proof -
    let ?h = "tick (tick h)"
    obtain ts where "draw_texts E 15 ?h = Some (ts, ?h\<lparr>h_tick := h_tick ?h + 15\<rparr>)" "length ts = 15"
        "\<forall>t \<in> set ts. length (tm_test_msg t) = unat (tm_len t) \<and> unat (tm_len t) = 15"
      using draw_texts_eq [OF assms] by blast
    then show ?thesis
      using sign_loop_passes [OF assms, of ts] that by (simp add: test_INvalid_messages_def new_keys [OF assms] clean_run_def)
  qed
  then show ?thesis by (simp add: passes_def)
qed

lemma hash_loop_passes: "calc_hash H m = Some c \<Longrightarrow> length c = 32 \<Longrightarrow> hash_loop H m c n i = Some (i + n)"
  by (induction n arbitrary: i) (auto simp: memcpy_full strncmp_eq_def)

lemma test_hash_passes:
  assumes "test_env E"
  shows "passes 103 (test_hash E)"
proof -
  have "\<exists>h'. test_hash E h = Some (0, h') \<and> clean_run 103 h h'" if "heap_wf h" for h
  proof -
    let ?h = "tick (tick h)"
    obtain t where t: "get_test_msg E 100 ?h = (t, ?h\<lparr>h_tick := h_tick ?h + 101\<rparr>)"
        "length (tm_test_msg t) = unat (tm_len t)" "unat (tm_len t) = 100" by (rule generated_text)
    obtain m where "sign_a_message E t (uk_sk (keys_at E (h_tick h))) = Some m" "msg_ok m"
      using signed_text [OF assms t(2)] t(3) by auto
    then show ?thesis
      using t(1) test_envD(2) [OF assms] that
      by (simp add: test_hash_def new_keys [OF assms] calc_hash_eq hash_loop_passes memcpy_full clean_run_def)
  qed
  then show ?thesis by (simp add: passes_def)
qed

lemma test_hash_merging_passes:
  assumes "test_env E"
  shows "passes 205 (test_hash_merging E)"
proof -
  have "\<exists>h'. test_hash_merging E h = Some (0, h') \<and> clean_run 205 h h'" if "heap_wf h" for h
  proof -
    let ?h = "tick (tick h)"
    let ?h1 = "tick (?h\<lparr>h_tick := h_tick ?h + 101\<rparr>)"
    obtain t where t: "get_test_msg E 100 ?h = (t, ?h\<lparr>h_tick := h_tick ?h + 101\<rparr>)"
        "length (tm_test_msg t) = unat (tm_len t)" "unat (tm_len t) = 100" by (rule generated_text)
    obtain t2 where t2: "get_test_msg E 100 ?h1 = (t2, ?h1\<lparr>h_tick := h_tick ?h1 + 101\<rparr>)"
        "length (tm_test_msg t2) = unat (tm_len t2)" "unat (tm_len t2) = 100" by (rule generated_text)
    obtain m where m: "sign_a_message E t (uk_sk (keys_at E (h_tick h))) = Some m" "msg_ok m"
      using signed_text [OF assms t(2)] t(3) by auto
    obtain m2 where m2: "sign_a_message E t2 (uk_sk (keys_at E (h_tick ?h + 101))) = Some m2" "msg_ok m2"
      using signed_text [OF assms t2(2)] t2(3) by auto
    show ?thesis
      using t(1) t2(1) m m2 test_envD(2) [OF assms] that
      by (simp add: test_hash_merging_def new_keys [OF assms] calc_hash_eq merge_2hashses_eq clean_run_def)
  qed
  then show ?thesis by (simp add: passes_def)
qed

section \<open>Tests of objects\<close>

text \<open>The heap after \<open>n\<close> messages have been drawn and stored.\<close>

definition stored :: "env \<Rightarrow> user_keys \<Rightarrow> nat \<Rightarrow> heap \<Rightarrow> heap" where
  "stored E uk n h = h\<lparr>h_msgs := (\<lambda>a. if h_next h \<le> a \<and> a < h_next h + n
       then Some (drawn_msg E uk (Suc (h_tick h) + 2 * (a - h_next h))) else h_msgs h a),
     h_next := h_next h + n, h_tick := h_tick h + 2 * n\<rparr>"

lemma stored_simps [simp]:
  "h_points (stored E uk n h) = h_points h" "h_next (stored E uk n h) = h_next h + n"
  "h_tick (stored E uk n h) = h_tick h + 2 * n" "heap_wf h \<Longrightarrow> heap_wf (stored E uk n h)"
  by (force simp: stored_def heap_wf_def split: if_splits)+

lemma stored_msg:
  "i < n \<Longrightarrow> h_msgs (stored E uk n h) (h_next h + i) = Some (drawn_msg E uk (Suc (h_tick h) + 2 * i))"
  by (simp add: stored_def)

lemma stored_at:
  "i < n \<Longrightarrow> a = h_next h + i \<Longrightarrow> t = Suc (h_tick h) + 2 * i \<Longrightarrow> h_msgs (stored E uk n h) a = Some (drawn_msg E uk t)"
  by (simp add: stored_def)

lemma stored_Suc: "stored E uk n (stored E uk 1 h) = stored E uk (Suc n) h"
proof (intro heap.equality ext)
  show "h_msgs (stored E uk n (stored E uk 1 h)) a = h_msgs (stored E uk (Suc n) h) a" for a
    by (auto simp: stored_def intro!: arg_cong [of _ _ "drawn_msg E uk"])
qed (simp_all add: stored_def)

lemma foldM_Nil_fun [simp]: "foldM f [] = Some"
  by (rule ext) simp

lemma draw_stored:
  assumes "test_env E"
  shows "ls_get_a_signed_msg E (keys_at E k) h = Some (h_next h, stored E (keys_at E k) 1 h)"
proof -
  obtain h0 h1 where "create_key_pair E h0 = Some (keys_at E k, h1)" using keys_made [OF assms] by blast
  moreover have "(h_msgs h)(h_next h \<mapsto> m) = (\<lambda>a. if h_next h \<le> a \<and> a < Suc (h_next h) then Some m else h_msgs h a)" for m
    by auto
  ultimately show ?thesis
    using ls_get_a_signed_msg_eq [OF test_envD(1) [OF assms]]
    by (auto simp: alloc_msg_def stored_def tick_def fun_eq_iff intro!: heap.equality)
qed

lemma drawn_valid:
  assumes "test_env E"
  shows "msg_ok (drawn_msg E (keys_at E k) t)" "validate_a_message E (drawn_msg E (keys_at E k) t) (uk_pk (keys_at E k)) = Some 1"
  using keys_made [OF assms, of k] drawn_msg_ok [OF test_envD(1) [OF assms]] by blast+

lemma fill_messages_eq:
  assumes "test_env E"
  shows "fill_messages E (keys_at E k) n h = Some ([h_next h ..< h_next h + n], int n, stored E (keys_at E k) n h)"
proof (induction n arbitrary: h)
  case 0
  have "(\<lambda>a. if h_next h \<le> a \<and> a < h_next h then x a else h_msgs h a) = h_msgs h" for x
    by (rule ext) auto
  then show ?case by (simp add: stored_def)
next
  case (Suc n)
  have "h_msgs (stored E (keys_at E k) 1 h) (h_next h) = Some (drawn_msg E (keys_at E k) (Suc (h_tick h)))"
    using stored_msg [of 0 1] by simp
  then show ?case
    using Suc [of "stored E (keys_at E k) 1 h"] drawn_valid [OF assms] stored_Suc
    by (simp add: draw_stored [OF assms] upt_conv_Cons)
qed

lemma destroy_all:
  assumes "heap_wf h" "distinct as" "\<forall>a \<in> set as. h_msgs h a \<noteq> None"
  shows "foldM destroy_signed_message as h = Some (h\<lparr>h_msgs := h_msgs h |` (- set as)\<rparr>)"
  using assms
proof (induction as arbitrary: h)
  case (Cons a as)
  let ?h = "h\<lparr>h_msgs := (h_msgs h)(a := None)\<rparr>"
  have "heap_wf ?h" using Cons.prems(1) by (auto simp: heap_wf_def)
  moreover have "\<forall>b \<in> set as. h_msgs ?h b \<noteq> None" using Cons.prems(2,3) by auto
  ultimately have "foldM destroy_signed_message as ?h = Some (?h\<lparr>h_msgs := h_msgs ?h |` (- set as)\<rparr>)"
    using Cons.prems(2) by (intro Cons.IH) simp_all
  also have "?h\<lparr>h_msgs := h_msgs ?h |` (- set as)\<rparr> = h\<lparr>h_msgs := h_msgs h |` (- set (a # as))\<rparr>"
    by (auto simp: restrict_map_def fun_eq_iff intro!: heap.equality)
  finally have "foldM destroy_signed_message as ?h = Some (h\<lparr>h_msgs := h_msgs h |` (- set (a # as))\<rparr>)" .
  moreover obtain m where "h_msgs h a = Some m" using Cons.prems(3) by auto
  ultimately show ?case using destroy_signed_message_live [OF Cons.prems(1)] by simp
qed (simp add: restrict_map_def)

text \<open>A heap that differs from \<open>h\<close> by \<open>n\<close> new messages: once they are destroyed, in any order, nothing is left of
  them.\<close>

definition holds_new :: "nat \<Rightarrow> nat \<Rightarrow> heap \<Rightarrow> heap \<Rightarrow> bool" where
  "holds_new n t h g \<longleftrightarrow> heap_wf g \<and> h_points g = h_points h \<and> h_tick g = h_tick h + t \<and>
     (\<forall>a \<in> {h_next h ..< h_next h + n}. h_msgs g a \<noteq> None) \<and>
     (\<forall>a. a \<notin> {h_next h ..< h_next h + n} \<longrightarrow> h_msgs g a = h_msgs h a)"

lemma destroy_msgs:
  assumes "heap_wf h" "heap_wf g" "distinct as" "set as = {h_next h ..< h_next h + n}"
    and "\<forall>a \<in> {h_next h ..< h_next h + n}. h_msgs g a \<noteq> None" "\<forall>a. a \<notin> {h_next h ..< h_next h + n} \<longrightarrow> h_msgs g a = h_msgs h a"
  shows "foldM destroy_signed_message as g = Some (g\<lparr>h_msgs := h_msgs h\<rparr>)" "heap_wf (g\<lparr>h_msgs := h_msgs h\<rparr>)"
proof -
  have "h_msgs g a = h_msgs h a" if "a \<notin> set as" for a using that assms(4,6) by simp
  moreover have "h_msgs h a = None" if "a \<in> set as" for a using that assms(4) heap_wf_fresh(1) [OF assms(1)] by simp
  ultimately have r: "h_msgs g |` (- set as) = h_msgs h" by (auto simp: restrict_map_def fun_eq_iff)
  show "foldM destroy_signed_message as g = Some (g\<lparr>h_msgs := h_msgs h\<rparr>)"
    using destroy_all [OF assms(2,3)] assms(4,5) r by simp
  show "heap_wf (g\<lparr>h_msgs := h_msgs h\<rparr>)"
    using assms(2) unfolding r [symmetric] by (auto simp: heap_wf_def restrict_map_def split: if_splits)
qed

lemma destroy_new:
  assumes "heap_wf h" "holds_new n t h g" "distinct as" "set as = {h_next h ..< h_next h + n}"
  shows "\<exists>h'. foldM destroy_signed_message as g = Some h' \<and> clean_run t h h'"
  using destroy_msgs [OF assms(1) _ assms(3,4), of g] assms(2) by (simp add: holds_new_def clean_run_def)

lemma stored_new: "heap_wf h \<Longrightarrow> holds_new n (Suc (2 * n)) h (stored E uk n (tick h))"
  using stored_simps(4) [of "tick h"] by (auto simp: holds_new_def) (simp_all add: stored_def)

lemma test_cleanup_message_passes:
  assumes "test_env E"
  shows "passes 3 (test_cleanup_message E)"
proof -
  have "\<exists>h'. test_cleanup_message E h = Some (0, h') \<and> clean_run 3 h h'" if wf: "heap_wf h" for h
  proof -
    let ?g = "stored E (keys_at E (h_tick h)) 1 (tick h)"
    have "h_msgs ?g (h_next h) = Some (drawn_msg E (keys_at E (h_tick h)) (Suc (Suc (h_tick h))))"
      using stored_msg [of 0 1 E _ "tick h"] by simp
    moreover obtain h' where "foldM destroy_signed_message [h_next h] ?g = Some h'" "clean_run 3 h h'"
      using destroy_new [OF wf stored_new [OF wf, of 1], of "[h_next h]"] by auto
    ultimately show ?thesis
      using drawn_valid [OF assms] by (simp add: test_cleanup_message_def new_keys [OF assms] draw_stored [OF assms])
  qed
  then show ?thesis by (simp add: passes_def)
qed

lemma test_message_creation_and_validation_passes:
  assumes "test_env E"
  shows "passes 1025 (test_message_creation_and_validation E)"
proof -
  have "\<exists>h'. test_message_creation_and_validation E h = Some (0, h') \<and> clean_run 1025 h h'" if wf: "heap_wf h" for h
  proof -
    obtain h' where "foldM destroy_signed_message [h_next h ..< h_next h + 512] (stored E (keys_at E (h_tick h)) 512 (tick h)) = Some h'"
        "clean_run 1025 h h'"
      using destroy_new [OF wf stored_new [OF wf, of 512], of "[h_next h ..< h_next h + 512]"] by auto
    then show ?thesis
      by (simp add: test_message_creation_and_validation_def new_keys [OF assms] fill_messages_eq [OF assms])
  qed
  then show ?thesis by (simp add: passes_def)
qed

text \<open>A node over two live messages.\<close>

lemma pair_node:
  assumes "test_env E" "heap_wf h" "h_msgs h a = Some m" "msg_ok m" "h_msgs h b = Some m'" "msg_ok m'"
  obtains h' p where "create_hpoint_message (env_generichash E) a b h = Some (h_next h, h')" "heap_wf h'" "h_msgs h' = h_msgs h"
    "h_points h' = (h_points h)(h_next h \<mapsto> p)" "h_tick h' = h_tick h" "point_msgs (h_next h) h' = Some (a, b)"
    "point_child_ok (env_generichash E) h' (h_next h)"
proof -
  let ?p = "message_node (env_generichash E) h a b"
  have "create_hpoint_message (env_generichash E) a b h = Some (alloc_point ?p h)"
    using assms test_envD(2) [OF assms(1)] by (intro message_builder.build) (auto simp: message_child_ok_def)
  then show thesis
    using that [of "snd (alloc_point ?p h)" ?p] point_region.alloc_wf [OF assms(2), of ?p] test_envD(2) [OF assms(1)]
    by (simp add: alloc_point_def point_msgs_def point_child_ok_def message_node_def)
qed

lemma test_create_and_destroy_hpoint_passes:
  assumes "test_env E"
  shows "passes 6 (test_create_and_destroy_hpoint E)"
proof -
  have "\<exists>h'. test_create_and_destroy_hpoint E h = Some (0, h') \<and> clean_run 6 h h'" if wf: "heap_wf h" for h
  proof -
    let ?n = "h_next h" and ?k = "keys_at E (h_tick h)" and ?k2 = "keys_at E (h_tick h + 3)" and ?H = "env_generichash E"
    define g1 where "g1 = stored E ?k 1 (tick h)"
    define g2 where "g2 = stored E ?k2 1 (tick g1)"
    have m: "h_msgs g1 ?n = Some (drawn_msg E ?k (h_tick h + 2))" "h_msgs g2 ?n = Some (drawn_msg E ?k (h_tick h + 2))"
        "h_msgs g2 (Suc ?n) = Some (drawn_msg E ?k2 (h_tick h + 5))"
      by (simp_all add: g1_def g2_def stored_def numeral_eq_Suc)
    have g2: "heap_wf g2" "h_next g2 = ?n + 2" "h_points g2 = h_points h" "h_tick g2 = h_tick h + 6" "h_tick g1 = h_tick h + 3"
      using wf by (simp_all add: g1_def g2_def)
    obtain g3 p where g3: "create_hpoint_message ?H ?n (Suc ?n) g2 = Some (h_next g2, g3)" "heap_wf g3" "h_msgs g3 = h_msgs g2"
        "h_points g3 = (h_points g2)(h_next g2 \<mapsto> p)" "h_tick g3 = h_tick g2" "point_msgs (h_next g2) g3 = Some (?n, Suc ?n)"
      by (rule pair_node [OF assms g2(1) m(2) drawn_valid(1) [OF assms] m(3) drawn_valid(1) [OF assms]])
    have "h_msgs g3 a = h_msgs h a" if "a \<notin> {?n ..< ?n + 2}" for a using that g3(3) by (auto simp: g1_def g2_def stored_def)
    moreover have "h_msgs g3 a \<noteq> None" if "a \<in> {?n ..< ?n + 2}" for a
      using that m(2,3) g3(3) by (cases "a = ?n"; cases "a = Suc ?n") auto
    moreover have "set [?n, Suc ?n] = {?n ..< ?n + 2}" by auto
    ultimately have d: "foldM destroy_signed_message [?n, Suc ?n] g3 = Some (g3\<lparr>h_msgs := h_msgs h\<rparr>)"
        "heap_wf (g3\<lparr>h_msgs := h_msgs h\<rparr>)"
      using destroy_msgs [OF wf g3(2), of "[?n, Suc ?n]" 2] by simp_all
    have "(h_points h)(?n + 2 := None) = h_points h" using heap_wf_fresh(2) [OF wf, of "?n + 2"] by auto
    then obtain h' where h': "free_point (h_next g2) (g3\<lparr>h_msgs := h_msgs h\<rparr>) = Some h'" "clean_run 6 h h'"
      using d(2) g2(2-4) g3(4,5) point_region.release_wf [OF d(2), of "?n + 2"]
      by (auto simp: free_point_def clean_run_def)
    moreover have "ls_get_a_signed_msg E ?k (tick h) = Some (?n, g1)" "ls_get_a_signed_msg E ?k2 (tick g1) = Some (Suc ?n, g2)"
      using draw_stored [OF assms] by (simp_all add: g1_def g2_def)
    ultimately show ?thesis
      using m g3(1,6) d(1) g2(5) drawn_valid(2) [OF assms]
      by (auto simp: test_create_and_destroy_hpoint_def new_keys [OF assms] destroy_hpoint_message_def split: Option.bind_splits)
  qed
  then show ?thesis by (simp add: passes_def)
qed

section \<open>Tests of trees\<close>

lemma layer_released:
  assumes "heap_wf h" "built h n node h'" "n < 2 ^ 64"
  obtains h'' where "destoroy_a_layer \<lparr>ly_main_pointer = [h_next h ..< h_next h + n], ly_size = of_nat n, ly_level = lev\<rparr> h' = Some h''"
    "h_points h'' = h_points h" "h_msgs h'' = h_msgs h" "h_tick h'' = h_tick h" "heap_wf h''"
proof -
  let ?as = "[h_next h ..< h_next h + n]"
  have b: "heap_wf h'" "h_msgs h' = h_msgs h" "h_tick h' = h_tick h" "h_next h' = h_next h + n"
      "\<forall>a < h_next h. h_points h' a = h_points h a" "\<forall>j < n. h_points h' (h_next h + j) = Some (node j)"
    using assms(2) by (simp_all add: built_def)
  have "a \<noteq> NULL \<and> h_points h' a \<noteq> None" if a: "a \<in> set ?as" for a
    using b(6) [rule_format, of "a - h_next h"] a assms(1) by (auto simp: heap_wf_def)
  then obtain h'' where fold: "foldM free_point ?as h' = Some h''" and pts: "h_points h'' = h_points h' |` (- set ?as)"
    using point_region.release_all [OF distinct_upt] by blast
  have "h_points h'' a = h_points h a" for a
    using pts b(4,5) heap_wf_fresh(2) [OF assms(1), of a] heap_wf_fresh(2) [OF b(1), of a]
    by (cases "a < h_next h + n") (simp_all add: restrict_map_def)
  moreover have "destoroy_a_layer \<lparr>ly_main_pointer = ?as, ly_size = of_nat n, ly_level = lev\<rparr> h' = Some h''"
    using fold assms(3) by (simp add: destoroy_a_layer_def unat_of_nat_u64)
  ultimately show thesis
    using foldM_free_point_msgs [OF fold] point_region.release_all_wf [OF b(1) fold] b(2,3) by (intro that) auto
qed

lemma drawn_live:
  assumes "test_env E" "set as \<subseteq> {h_next h ..< h_next h + n}"
  shows "msgs_live (stored E (keys_at E t) n h) as"
proof -
  have "\<exists>m. h_msgs (stored E (keys_at E t) n h) a = Some m \<and> msg_ok m" if "a \<in> set as" for a
    using that assms(2) stored_msg [of "a - h_next h" n E "keys_at E t" h] drawn_valid(1) [OF assms(1)] by fastforce
  then show ?thesis by (simp add: msgs_live_def)
qed

lemma test_process_messages_L1_v2_passes:
  assumes "test_env E"
  shows "passes 65 (test_process_messages_L1_v2 E)"
proof -
  have "\<exists>h'. test_process_messages_L1_v2 E h = Some (0, h') \<and> clean_run 65 h h'" if wf: "heap_wf h" for h
  proof -
    let ?g = "stored E (keys_at E (h_tick h)) 32 (tick h)" and ?as = "[h_next h ..< h_next h + 32]"
    have g: "heap_wf ?g" "holds_new 32 65 h ?g" using wf stored_new [OF wf, of 32] by simp_all
    have "\<forall>a \<in> set ?as. message_child_ok (env_generichash E) ?g a"
      using drawn_live [OF assms, of ?as "tick h" 32] test_envD(2) [OF assms] by (auto simp: msgs_live_def message_child_ok_def)
    then obtain g1 node where p: "process_s_messagesV2 (env_generichash E) 32 ?as ?g =
          Some (\<lparr>ly_main_pointer = [h_next ?g ..< h_next ?g + 16], ly_size = of_nat 16, ly_level = level_loop 16 0\<rparr>, g1)"
        and b: "built ?g 16 node g1"
      using process_s_messagesV2_build [OF g(1), of ?as "env_generichash E" 16] by auto
    obtain g2 where d: "destoroy_a_layer \<lparr>ly_main_pointer = [h_next ?g ..< h_next ?g + 16], ly_size = of_nat 16,
          ly_level = level_loop 16 0\<rparr> g1 = Some g2"
        "h_points g2 = h_points ?g" "h_msgs g2 = h_msgs ?g" "h_tick g2 = h_tick ?g" "heap_wf g2"
      by (rule layer_released [OF g(1) b]) simp
    have "holds_new 32 65 h g2" using g(2) d(2-5) by (simp add: holds_new_def)
    then obtain h' where "foldM destroy_signed_message ?as g2 = Some h'" "clean_run 65 h h'"
      using destroy_new [OF wf, of 32 65 g2 ?as] by auto
    moreover have "push_bit 5 (1 :: u64) = 32" by simp
    ultimately show ?thesis
      using p d(1) by (simp add: test_process_messages_L1_v2_def new_keys [OF assms] fill_messages_eq [OF assms])
  qed
  then show ?thesis by (simp add: passes_def)
qed

text \<open>The tree over an array of live messages, and its release; the messages may have been changed in between.\<close>

lemma test_tree:
  assumes "test_env E" "heap_wf g" "msgs_live g [mp ..< mp + 2 ^ e]" "0 < e" "e \<le> 63"
  shows "\<exists>c g1 g2. calc_merkle_tree (env_generichash E) (of_nat e) mp g = Some (c, g1) \<and>
    merkle_layers (env_generichash E) (of_nat e) (of_nat (2 ^ e)) [mp ..< mp + 2 ^ e] g =
      Some (main_layer_pointer c, main_layer_pointer c, g1) \<and>
    tree_built (env_generichash E) g1 [mp ..< mp + 2 ^ e] (h_next g) (main_layer_pointer c) e \<and>
    heap_wf g1 \<and> h_msgs g1 = h_msgs g \<and> h_tick g1 = h_tick g \<and>
    destroy_layers (main_layer_pointer c) g1 = Some g2 \<and>
    h_points g2 = h_points g \<and> h_msgs g2 = h_msgs g \<and> h_tick g2 = h_tick g \<and> heap_wf g2"
proof -
  let ?H = "env_generichash E" and ?as = "[mp ..< mp + 2 ^ e]"
  have as: "map (\<lambda>i. mp + i) [0 ..< 2 ^ e] = ?as" by (simp add: add.commute [of mp] map_add_upt)
  obtain Ls g1 where m: "merkle_layers ?H (of_nat e) (of_nat (2 ^ e)) ?as g = Some (Ls, Ls, g1)"
      "tree_built ?H g1 ?as (h_next g) Ls e" "heap_wf g1" "h_msgs g1 = h_msgs g" "h_tick g1 = h_tick g"
      "\<forall>a < h_next g. h_points g1 a = h_points g a"
    using merkle_layers_build [OF assms(2) test_envD(2) [OF assms(1)] assms(4,5) _ assms(3)] by auto
  have c: "calc_merkle_tree ?H (of_nat e) mp g =
      Some (\<lparr>main_layer_pointer = Ls, layers_for_destr = Ls, messages_arr = ?as\<rparr>, g1)"
    unfolding calc_merkle_tree_eq [OF assms(5)] as using m(1) by simp
  obtain g2 where "destroy_layers Ls g1 = Some g2" "h_points g2 = h_points g" "h_msgs g2 = h_msgs g1" "h_tick g2 = h_tick g1"
      "heap_wf g2"
    using destroy_layers_built [OF m(2) test_envD(2) [OF assms(1)] assms(5,2) m(3,6)] by blast
  then show ?thesis using c m(1-5) by (intro exI [of _ g1] exI [of _ g2] exI) (rule conjI, assumption, simp)
qed

lemma create_test_messages_passes:
  assumes "test_env E" "0 < e" "e \<le> 63"
  shows "passes (Suc (2 * 2 ^ e)) (create_test_messages E (of_nat e))"
proof -
  have "\<exists>h'. create_test_messages E (of_nat e) h = Some (0, h') \<and> clean_run (Suc (2 * 2 ^ e)) h h'" if wf: "heap_wf h" for h
  proof -
    let ?g = "stored E (keys_at E (h_tick h)) (2 ^ e) (tick h)" and ?as = "[h_next h ..< h_next h + 2 ^ e]"
    have g: "heap_wf ?g" "holds_new (2 ^ e) (Suc (2 * 2 ^ e)) h ?g" using wf stored_new [OF wf] by simp_all
    have "msgs_live ?g ?as" using drawn_live [OF assms(1), of ?as "tick h" "2 ^ e"] by simp
    from test_tree [OF assms(1) g(1) this assms(2,3)] obtain Ls g1 g2 where m:
        "merkle_layers (env_generichash E) (of_nat e) (of_nat (2 ^ e)) ?as ?g = Some (Ls, Ls, g1)" "destroy_layers Ls g1 = Some g2"
        "h_points g2 = h_points ?g" "h_msgs g2 = h_msgs ?g" "h_tick g2 = h_tick ?g" "heap_wf g2"
      by blast
    have "holds_new (2 ^ e) (Suc (2 * 2 ^ e)) h g2" using g(2) m(3-6) by (simp add: holds_new_def)
    then obtain h' where "foldM destroy_signed_message ?as g2 = Some h'" "clean_run (Suc (2 * 2 ^ e)) h h'"
      using destroy_new [OF wf _ distinct_upt, of _ _ g2] by fastforce
    moreover have "unat (of_nat e :: u64) = e" "(of_nat e :: u64) < 64" using assms(3) by (simp_all add: unat_of_nat_u64 word_less_nat_alt)
    moreover have "push_bit e (1 :: u64) = of_nat (2 ^ e)" "unat (of_nat (2 ^ e) :: u64) = 2 ^ e"
      using unat_pow2_64 [of e] assms(3) by (simp_all add: push_bit_eq_mult)
    ultimately show ?thesis
      using m(1,2) by (simp add: create_test_messages_def new_keys [OF assms(1)] fill_messages_eq [OF assms(1)] del: of_nat_power)
  qed
  then show ?thesis by (simp add: passes_def)
qed

text \<open>What the two tests of the verification have in common: one message more is drawn before the array is filled.\<close>

lemma fill_after_draw:
  assumes "test_env E"
  shows "fill_messages E (keys_at E k) n (stored E (keys_at E k) 1 h) =
    Some ([Suc (h_next h) ..< Suc (h_next h) + n], int n, stored E (keys_at E k) (Suc n) h)"
  unfolding fill_messages_eq [OF assms] stored_Suc by simp

lemma holds_new_change:
  assumes "holds_new n t h g" "h_points g' = h_points g" "h_msgs g' = h_msgs g" "h_tick g' = h_tick g" "heap_wf g'"
    and "h_msgs g a = Some m"  "h_next h \<le> a" "a < h_next h + n"
  shows "holds_new n t h (g'\<lparr>h_msgs := (h_msgs g)(a \<mapsto> m')\<rparr>)"
proof -
  have "heap_wf (g'\<lparr>h_msgs := (h_msgs g)(a \<mapsto> m')\<rparr>)" using assms(3,5,6) by (auto simp: heap_wf_def)
  then show ?thesis using assms(1-4,7,8) by (auto simp: holds_new_def)
qed

lemma destroy_array:
  assumes "heap_wf h" "holds_new (Suc n) t h g"
  obtains g' h' where "foldM destroy_signed_message [Suc (h_next h) ..< Suc (h_next h) + n] g = Some g'"
    "destroy_signed_message (h_next h) g' = Some h'" "clean_run t h h'"
proof -
  let ?as = "[Suc (h_next h) ..< Suc (h_next h) + n]"
  have "distinct (?as @ [h_next h])" "set (?as @ [h_next h]) = {h_next h ..< h_next h + Suc n}" by auto
  then obtain h' where "foldM destroy_signed_message (?as @ [h_next h]) g = Some h'" "clean_run t h h'"
    using destroy_new [OF assms] by blast
  then show thesis using that by (auto simp: foldM_append split: Option.bind_splits)
qed

lemma test_mekrle_proof_RIGHT_passes:
  assumes "test_env E"
  shows "passes 1027 (test_mekrle_proof_RIGHT E)"
proof -
  have "\<exists>h'. test_mekrle_proof_RIGHT E h = Some (0, h') \<and> clean_run 1027 h h'" if wf: "heap_wf h" for h
  proof -
    let ?H = "env_generichash E" and ?k = "keys_at E (h_tick h)" and ?mp = "Suc (h_next h)"
    let ?g = "stored E ?k 513 (tick h)" and ?as = "[?mp ..< ?mp + 2 ^ 9]"
    have g: "heap_wf ?g" "holds_new 513 1027 h ?g" using wf stored_new [OF wf, of 513] by simp_all
    have live: "msgs_live ?g ?as" using drawn_live [OF assms, of ?as "tick h" 513] by simp
    from test_tree [OF assms g(1) live] obtain c g1 g2 where m: "calc_merkle_tree ?H (of_nat 9) ?mp ?g = Some (c, g1)"
        "merkle_layers ?H (of_nat 9) (of_nat (2 ^ 9)) ?as ?g = Some (main_layer_pointer c, main_layer_pointer c, g1)"
        "destroy_layers (main_layer_pointer c) g1 = Some g2"
        "h_points g2 = h_points ?g" "h_msgs g2 = h_msgs ?g" "h_tick g2 = h_tick ?g" "heap_wf g2"
      by auto
    have "msg_array ?g ?mp 9" using live by (simp add: msgs_live_def msg_array_def)
    then have "merkle_verify_message ?H 9 (of_nat i) (main_layer_pointer c) g1 = Some 1" if "i < 512" for i
      using built_verifies [OF g(1) test_envD(2) [OF assms] _ _ _ m(1)] that by simp
    then have "verify_all (\<lambda>i. merkle_verify_message ?H 9 (of_nat i) (main_layer_pointer c) g1) 0 512 0 = Some 512"
      by (subst verify_all_passes) simp_all
    moreover have "holds_new 513 1027 h g2" using g(2) m(4-7) by (simp add: holds_new_def)
    then obtain g3 h' where "foldM destroy_signed_message ?as g2 = Some g3" "destroy_signed_message (h_next h) g3 = Some h'"
        "clean_run 1027 h h'"
      using destroy_array [OF wf, of 512 1027 g2 thesis] by simp
    ultimately show ?thesis
      using m(2,3) fill_after_draw [OF assms, of "h_tick h" 512 "tick h"]
      by (simp add: test_mekrle_proof_RIGHT_def new_keys [OF assms] draw_stored [OF assms])
  qed
  then show ?thesis by (simp add: passes_def)
qed

text \<open>The first message of node 125 is message 250.\<close>

lemma wreck_message_eq:
  assumes "tree_built H g as b Ls e" "8 \<le> e" "e \<le> 63" "h_msgs g (as ! 250) = Some (drawn_msg E uk t)"
    and "h_msgs g w = Some (drawn_msg E uk t')" "sign_ok E" "random_ok E"
  shows "wreck_message (of_nat e) Ls w g = write_msg (as ! 250) (drawn_msg E uk t') g"
proof -
  have e: "unat (of_nat e - 1 :: u64) = e - 1" "125 < (2 :: nat) ^ (e - 1)"
  proof -
    show "unat (of_nat e - 1 :: u64) = e - 1"
      using assms(2,3) by (simp add: unat_sub word_le_nat_alt unat_of_nat_u64)
    have "(2 :: nat) ^ 7 \<le> 2 ^ (e - 1)" using assms(2) by (intro power_increasing) simp_all
    then show "125 < (2 :: nat) ^ (e - 1)" by simp
  qed
  obtain lev where "length Ls = e" "Ls ! (e - 1) = Some \<lparr>ly_main_pointer = [layer_base b e (e - 1) ..< layer_base b e (e - 1) + 2 ^ (e - 1)],
      ly_size = of_nat (2 ^ (e - 1)), ly_level = lev\<rparr>"
      "h_points g (layer_base b e (e - 1) + 125) = Some (message_node H g (as ! 250) (as ! 251))"
    using assms(1,2) e(2) by (fastforce simp: tree_built_def tree_part_def)
  then have "layer_point Ls (e - 1) 125 g = Some (message_node H g (as ! 250) (as ! 251))"
    using assms(2) e(2) by (simp add: layer_point_def)
  moreover have "length (env_sign E (env_randombytes E t 100) (uk_sk uk)) = 164" for t
    using assms(6,7) by (simp add: sign_ok_def random_ok_def)
  ultimately show ?thesis
    using assms(4,5) by (simp add: wreck_message_def e(1) message_node_def drawn_msg_def memcpy_full)
qed

lemma destroy_layers_msgs:
  assumes "destroy_layers Ls g = Some g'" "h_tick g' = h_tick g"
  shows "destroy_layers Ls (g\<lparr>h_msgs := ms\<rparr>) = Some (g'\<lparr>h_msgs := ms\<rparr>)"
proof -
  have eq: "x\<lparr>h_msgs := ms, h_tick := h_tick x\<rparr> = x\<lparr>h_msgs := ms\<rparr>" for x :: heap by simp
  have "destroy_layers Ls (g\<lparr>h_msgs := ms, h_tick := h_tick g\<rparr>) = Some (g'\<lparr>h_msgs := ms, h_tick := h_tick g'\<rparr>)"
    unfolding destroy_layers_frame assms by simp
  then show ?thesis unfolding eq .
qed

lemma verify_all_stops:
  assumes "\<forall>j. i \<le> j \<and> j < i + m \<longrightarrow> verify j = Some 1" "verify (i + m) = Some 0" "m < n"
  shows "verify_all verify i n r = Some (r + int m)"
  using assms
proof (induction m arbitrary: i n r)
  case 0
  then show ?case by (cases n) simp_all
next
  case (Suc m)
  then obtain n' where n: "n = Suc n'" "m < n'" by (cases n) auto
  have "verify_all verify (Suc i) n' (r + 1) = Some (r + 1 + int m)"
    using Suc.prems n(2) by (intro Suc.IH) auto
  then show ?case using Suc.prems(1) [rule_format, of i] n(1) by simp
qed

text \<open>The verification stops at message 250, unless the hash of its pair is unchanged.\<close>

lemma wrecked_verdict:
  assumes "heap_wf g" "generichash_ok H" "msg_array g mp 14" "calc_merkle_tree H (of_nat 14) mp g = Some (c, g1)"
    and "write_msg (mp + 250) new g1 = Some g2" "msg_ok new"
  shows "verify_all (\<lambda>i. merkle_verify_message H 14 (of_nat i) (main_layer_pointer c) g2) 0 (2 ^ 14) 0 =
    Some (if H (leaf_input H g2 mp 125) = H (leaf_input H g mp 125) then 16384 else 250)"
proof -
  let ?v = "\<lambda>i. merkle_verify_message H 14 (of_nat i) (main_layer_pointer c) g2"
  have g2: "h_msgs g2 = (h_msgs g)(mp + 250 \<mapsto> new)"
    using assms(5) built_tree_facts(2) [OF assms(1,2) _ _ assms(3,4)] by (auto simp: write_msg_def split: if_splits)
  have v: "?v i = Some (if H (leaf_input H g2 mp (i div 2)) = H (leaf_input H g mp (i div 2)) then 1 else 0)" if "i < 16384" for i
    using verify_changed_message [OF assms(1,2) _ _ assms(3-6), of i] that by simp
  have same: "leaf_input H g2 mp j = leaf_input H g mp j" if "j \<noteq> 125" for j
    using that by (auto simp: leaf_input_def g2)
  show ?thesis
  proof (cases "H (leaf_input H g2 mp 125) = H (leaf_input H g mp 125)")
    case True
    have "?v i = Some 1" if "i < 16384" for i
      using v [OF that] True same [of "i div 2"] by (cases "i div 2 = 125") simp_all
    then show ?thesis using True by (subst verify_all_passes) simp_all
  next
    case False
    have "?v i = Some 1" if "i < 250" for i using that v [of i] same [of "i div 2"] by simp
    moreover have "?v 250 = Some 0" using v [of 250] False by simp
    ultimately show ?thesis using False by (subst verify_all_stops [of 0 250]) simp_all
  qed
qed

text \<open>The text drawn at tick \<open>u\<close>, signed with the key pair of tick \<open>t\<close>; whether the wrong message, put in the place
  of message 250, gives the pair it belongs to the same hash.\<close>

definition signed_draw :: "env \<Rightarrow> nat \<Rightarrow> nat \<Rightarrow> bytes" where
  "signed_draw E t u = env_sign E (env_randombytes E u 100) (snd (env_sign_keypair E t))"

definition pair_input :: "env \<Rightarrow> nat \<Rightarrow> nat \<Rightarrow> bytes" where
  "pair_input E t u = env_generichash E (signed_draw E t u) @ env_generichash E (signed_draw E t (t + 506))"

definition wreck_unnoticed :: "env \<Rightarrow> nat \<Rightarrow> bool" where
  "wreck_unnoticed E t \<longleftrightarrow> env_generichash E (pair_input E t (t + 2)) = env_generichash E (pair_input E t (t + 504))"

lemma drawn_bytes: "test_env E \<Longrightarrow> msg_bytes (drawn_msg E (keys_at E t) u) = signed_draw E t u"
  by (simp add: test_env_def server_env_def sign_ok_def random_ok_def msg_bytes_def drawn_msg_def signed_draw_def keys_at_def)

lemma test_mekrle_proof_WRONG_decides:
  assumes "test_env E" "heap_wf h"
  shows "\<exists>h'. test_mekrle_proof_WRONG E h = Some (if wreck_unnoticed E (h_tick h) then 1 else 0, h') \<and> clean_run 32771 h h'"
proof -
  let ?H = "env_generichash E" and ?k = "keys_at E (h_tick h)" and ?mp = "Suc (h_next h)"
  let ?g = "stored E ?k 16385 (tick h)" and ?as = "[?mp ..< ?mp + 2 ^ 14]" and ?new = "drawn_msg E ?k (h_tick h + 2)"
  have g: "heap_wf ?g" "holds_new 16385 32771 h ?g" using assms(2) stored_new [OF assms(2), of 16385] by simp_all
  have at: "h_msgs ?g (?mp + 250) = Some (drawn_msg E ?k (h_tick h + 504))" "h_msgs ?g (?mp + 251) = Some (drawn_msg E ?k (h_tick h + 506))"
    by (rule stored_at [of 251]; simp) (rule stored_at [of 252]; simp)
  have w: "h_msgs ?g (h_next h) = Some ?new" by (rule stored_at [of 0]) simp_all
  have live: "msgs_live ?g ?as" using drawn_live [OF assms(1), of ?as "tick h" 16385] by simp
  from test_tree [OF assms(1) g(1) live] obtain c g1 g2 where m: "calc_merkle_tree ?H (of_nat 14) ?mp ?g = Some (c, g1)"
      "merkle_layers ?H (of_nat 14) (of_nat (2 ^ 14)) ?as ?g = Some (main_layer_pointer c, main_layer_pointer c, g1)"
      "tree_built ?H g1 ?as (h_next ?g) (main_layer_pointer c) 14" "heap_wf g1" "h_msgs g1 = h_msgs ?g" "h_tick g1 = h_tick ?g"
      "destroy_layers (main_layer_pointer c) g1 = Some g2"
      "h_points g2 = h_points ?g" "h_msgs g2 = h_msgs ?g" "h_tick g2 = h_tick ?g" "heap_wf g2"
    by auto
  let ?ms = "(h_msgs ?g)(?mp + 250 \<mapsto> ?new)"
  have "?as ! 250 = ?mp + 250" by simp
  then have wr: "wreck_message 14 (main_layer_pointer c) (h_next h) g1 = Some (g1\<lparr>h_msgs := ?ms\<rparr>)"
    using wreck_message_eq [OF m(3), of E ?k "h_tick h + 504" "h_next h" "h_tick h + 2"] at(1) w m(5) assms(1)
    by (simp add: write_msg_def test_env_def server_env_def)
  have d: "destroy_layers (main_layer_pointer c) (g1\<lparr>h_msgs := ?ms\<rparr>) = Some (g2\<lparr>h_msgs := ?ms\<rparr>)"
    using destroy_layers_msgs m(6,7,10) by simp
  have "holds_new 16385 32771 h (g2\<lparr>h_msgs := ?ms\<rparr>)"
    by (rule holds_new_change [OF g(2)]) (use m(8-11) at(1) in simp_all)
  then obtain g3 h' where f: "foldM destroy_signed_message ?as (g2\<lparr>h_msgs := ?ms\<rparr>) = Some g3"
      "destroy_signed_message (h_next h) g3 = Some h'" "clean_run 32771 h h'"
    using destroy_array [OF assms(2), of 16384 32771 "g2\<lparr>h_msgs := ?ms\<rparr>" thesis] by simp
  have "leaf_input ?H ?g ?mp 125 = pair_input E (h_tick h) (h_tick h + 504)"
      "leaf_input ?H (g1\<lparr>h_msgs := ?ms\<rparr>) ?mp 125 = pair_input E (h_tick h) (h_tick h + 2)"
    using at drawn_bytes [OF assms(1)] by (simp_all add: leaf_input_def pair_input_def)
  moreover have "msg_array ?g ?mp 14" using live by (simp add: msgs_live_def msg_array_def)
  moreover have "write_msg (?mp + 250) ?new g1 = Some (g1\<lparr>h_msgs := ?ms\<rparr>)" using at(1) m(5) by (simp add: write_msg_def)
  ultimately have "verify_all (\<lambda>i. merkle_verify_message ?H 14 (of_nat i) (main_layer_pointer c) (g1\<lparr>h_msgs := ?ms\<rparr>)) 0 (2 ^ 14) 0 =
      Some (if wreck_unnoticed E (h_tick h) then 16384 else 250)"
    using wrecked_verdict [OF g(1) test_envD(2) [OF assms(1)] _ m(1) _ drawn_valid(1) [OF assms(1)]]
    unfolding wreck_unnoticed_def by metis
  then show ?thesis
    using m(2) wr d f fill_after_draw [OF assms(1), of "h_tick h" 16384 "tick h"]
    by (simp add: test_mekrle_proof_WRONG_def new_keys [OF assms(1)] draw_stored [OF assms(1)])
qed

section \<open>The whole suite\<close>

lemma passesD:
  assumes "passes n test" "clean_run m h0 h"
  obtains h' where "test h = Some (0, h')" "clean_run (m + n) h0 h'"
  using assms clean_run_trans by (force simp: passes_def clean_run_def)

text \<open>All tests before \<open>test_mekrle_proof_WRONG\<close> pass; they use 3492 answers of the environment.\<close>

lemma tests_up_to_WRONG:
  assumes "test_env E" "heap_wf h"
  shows "\<exists>h'. tests E h = do { (r, h) \<leftarrow> test_mekrle_proof_WRONG E h'; Some (tests_report r, h) } \<and> clean_run 3492 h h'"
proof -
  have h: "clean_run 0 h h" using assms(2) by (simp add: clean_run_def)
  obtain h1 where h1: "test_valid_messages E h = Some (0, h1)" "clean_run (0 + 16) h h1"
    by (rule passesD [OF test_valid_messages_passes [OF assms(1)] h])
  obtain h2 where h2: "test_INvalid_messages E h1 = Some (0, h2)" "clean_run (0 + 16 + 17) h h2"
    by (rule passesD [OF test_INvalid_messages_passes [OF assms(1)] h1(2)])
  obtain h3 where h3: "test_hash E h2 = Some (0, h3)" "clean_run (0 + 16 + 17 + 103) h h3"
    by (rule passesD [OF test_hash_passes [OF assms(1)] h2(2)])
  obtain h4 where h4: "test_hash_merging E h3 = Some (0, h4)" "clean_run (0 + 16 + 17 + 103 + 205) h h4"
    by (rule passesD [OF test_hash_merging_passes [OF assms(1)] h3(2)])
  obtain h5 where h5: "test_cleanup_message E h4 = Some (0, h5)" "clean_run (0 + 16 + 17 + 103 + 205 + 3) h h5"
    by (rule passesD [OF test_cleanup_message_passes [OF assms(1)] h4(2)])
  obtain h6 where h6: "test_message_creation_and_validation E h5 = Some (0, h6)" "clean_run (0 + 16 + 17 + 103 + 205 + 3 + 1025) h h6"
    by (rule passesD [OF test_message_creation_and_validation_passes [OF assms(1)] h5(2)])
  obtain h7 where h7: "test_create_and_destroy_hpoint E h6 = Some (0, h7)" "clean_run (0 + 16 + 17 + 103 + 205 + 3 + 1025 + 6) h h7"
    by (rule passesD [OF test_create_and_destroy_hpoint_passes [OF assms(1)] h6(2)])
  obtain h8 where h8: "test_process_messages_L1_v2 E h7 = Some (0, h8)" "clean_run (0 + 16 + 17 + 103 + 205 + 3 + 1025 + 6 + 65) h h8"
    by (rule passesD [OF test_process_messages_L1_v2_passes [OF assms(1)] h7(2)])
  obtain h9 where h9: "create_test_messages E 9 h8 = Some (0, h9)" "clean_run 2465 h h9"
    using passesD [OF create_test_messages_passes [OF assms(1), of 9] h8(2), of thesis] by simp
  obtain h10 where h10: "test_mekrle_proof_RIGHT E h9 = Some (0, h10)" "clean_run (2465 + 1027) h h10"
    by (rule passesD [OF test_mekrle_proof_RIGHT_passes [OF assms(1)] h9(2)])
  show ?thesis
    using h1(1) h2(1) h3(1) h4(1) h5(1) h6(1) h7(1) h8(1) h9(1) h10 by (intro exI [of _ h10]) (simp add: tests_def)
qed

lemma unnoticed_means:
  assumes "test_env E" "wreck_unnoticed E t"
  shows "env_randombytes E (t + 2) 100 = env_randombytes E (t + 504) 100 \<or>
    collision_between (env_generichash E) [signed_draw E t (t + 2), pair_input E t (t + 2)]
      [signed_draw E t (t + 504), pair_input E t (t + 504)]"
proof (cases "signed_draw E t (t + 2) = signed_draw E t (t + 504)")
  case True
  have "env_sign_open E (signed_draw E t u) (fst (env_sign_keypair E t)) = Some (env_randombytes E u 100)" for u
    using test_envD(3) [OF assms(1)] by (simp add: sign_ok_def signed_draw_def)
  then show ?thesis using True by (metis option.inject)
next
  case False
  have "pair_input E t (t + 2) \<noteq> pair_input E t (t + 504) \<or>
      env_generichash E (signed_draw E t (t + 2)) = env_generichash E (signed_draw E t (t + 504))"
    by (auto simp: pair_input_def)
  then show ?thesis using False assms(2) by (auto simp: collision_between_def wreck_unnoticed_def)
qed

text \<open>
  C20.  The test suite of the repository passes: whatever is drawn, no test faults, every message and node that the tests put on
  the modelled heap is destroyed again, and no error is reported, unless in \<open>test_mekrle_proof_WRONG\<close> the wrong message
  has the text of the message it replaces, or two hashed inputs of this test, which are named, collide; in this case one
  error is reported.  The texts and hashes that the first four tests hold in local variables are not on that heap; the code
  leaks them, and this says nothing about them.
\<close>

theorem tests_pass:
  assumes "test_env E" "heap_wf h" "t = h_tick h + 3492"
  shows "\<exists>r h'. tests E h = Some (tests_report r, h') \<and> h_msgs h' = h_msgs h \<and> h_points h' = h_points h \<and>
    (r = 0 \<or> r = 1 \<and> (env_randombytes E (t + 2) 100 = env_randombytes E (t + 504) 100 \<or>
      collision_between (env_generichash E) [signed_draw E t (t + 2), pair_input E t (t + 2)]
        [signed_draw E t (t + 504), pair_input E t (t + 504)]))"
proof -
  obtain g where g: "tests E h = do { (r, h) \<leftarrow> test_mekrle_proof_WRONG E g; Some (tests_report r, h) }" "clean_run 3492 h g"
    using tests_up_to_WRONG [OF assms(1,2)] by blast
  then have t: "heap_wf g" "h_tick g = t" using assms(3) by (simp_all add: clean_run_def)
  obtain h' where "test_mekrle_proof_WRONG E g = Some (if wreck_unnoticed E t then 1 else 0, h')" "clean_run 32771 g h'"
    using test_mekrle_proof_WRONG_decides [OF assms(1) t(1)] t(2) by auto
  then show ?thesis using g unnoticed_means [OF assms(1)] by (auto simp: clean_run_def)
qed

text \<open>With a hash function that takes both ends of its input into account, the suite reports no error.\<close>

definition ends_env :: env where
  "ends_env = demo_env\<lparr>env_generichash := (\<lambda>x. take 32 (take 16 (rev x) @ take 16 x @ replicate 32 0))\<rparr>"

lemma ends_env_ok: "test_env ends_env"
  using demo_env_ok(1,2)
  by (simp add: test_env_def server_env_def sign_ok_def random_ok_def ends_env_def generichash_ok_def) (simp add: demo_env_def)

lemma ends_draw: "signed_draw ends_env t u = replicate 64 2 @ replicate 100 (of_nat u)"
  by (simp add: signed_draw_def ends_env_def demo_env_def)

lemma ends_hash:
  "env_generichash ends_env (replicate 64 2 @ replicate 100 b) = replicate 16 b @ replicate 16 2"
  "env_generichash ends_env ((replicate 16 b @ replicate 16 2) @ (replicate 16 c @ replicate 16 2)) = replicate 16 2 @ replicate 16 b"
  by (simp_all add: ends_env_def)

lemma ends_pair: "pair_input ends_env t u = (replicate 16 (of_nat u) @ replicate 16 2) @ (replicate 16 (of_nat (t + 506)) @ replicate 16 2)"
  unfolding pair_input_def ends_draw ends_hash ..

theorem tests_pass_witness:
  "\<exists>h'. tests ends_env empty_heap = Some (tests_report 0, h') \<and> h_msgs h' = Map.empty \<and> h_points h' = Map.empty"
proof -
  let ?t = "3492 :: nat"
  have "\<not> collision_between (env_generichash ends_env) [signed_draw ends_env ?t (?t + 2), pair_input ends_env ?t (?t + 2)]
      [signed_draw ends_env ?t (?t + 504), pair_input ends_env ?t (?t + 504)]"
    unfolding ends_pair ends_draw by (simp add: collision_between_def ends_hash del: append_assoc)
  moreover have "env_randombytes ends_env (?t + 2) 100 \<noteq> env_randombytes ends_env (?t + 504) 100"
    by (simp add: ends_env_def demo_env_def)
  ultimately show ?thesis
    using tests_pass [OF ends_env_ok heap_wf_empty, of ?t] by (auto simp: empty_heap_def)
qed

end
