(* ===== verification/UncalledTests.thy ===== *)
theory UncalledTests
  imports Tests
begin

text \<open>
  The tests nothing calls: \<open>test_hpoint_from_2msg_creation\<close> and \<open>test_hashG_node_creation\<close> of \<open>tests/tests.c\<close>, and
  \<open>tests2\<close> of \<open>tests/tests2.c\<close>.  They report by what they print; a result of 1 is their success.  None of them
  faults.
\<close>

section \<open>Definitions\<close>

text \<open>\<open>if (!validate_a_message(*a_msg, pk)) printf("validation error!\n")\<close>\<close>

definition validation_note :: "env \<Rightarrow> user_keys \<Rightarrow> addr \<Rightarrow> heap \<Rightarrow> string option" where
  "validation_note E uk a_msg h = do {
     m \<leftarrow> h_msgs h a_msg;
     r \<leftarrow> validate_a_message E m (uk_pk uk);
     Some (if r = 0 then ''validation error!'' @ newline else '''')
   }"

text \<open>\<open>DumpHex(a_msg->message, a_msg->length)\<close>\<close>

definition dump_message :: "env \<Rightarrow> addr \<Rightarrow> heap \<Rightarrow> string option" where
  "dump_message E a_msg h = do {
     m \<leftarrow> h_msgs h a_msg;
     data \<leftarrow> sm_message m;
     DumpHex E data (unat (sm_length m))
   }"

definition test_hpoint_from_2msg_creation :: "env \<Rightarrow> heap \<Rightarrow> (string \<times> int \<times> heap) option" where
  "test_hpoint_from_2msg_creation E h = do {
     (uk, h) \<leftarrow> create_key_pair E h;
     (a_msg, h) \<leftarrow> get_a_signed_msg E uk h;
     dump \<leftarrow> dump_message E a_msg h;
     (uk2, h) \<leftarrow> create_key_pair E h;
     (a_msg2, h) \<leftarrow> get_a_signed_msg E uk2 h;
     v1 \<leftarrow> validation_note E uk a_msg h;
     v2 \<leftarrow> validation_note E uk2 a_msg2 h;
     (aHP1, h) \<leftarrow> create_hpoint_message (env_generichash E) a_msg a_msg2 h;
     (p1, _) \<leftarrow> point_msgs aHP1 h;
     dump2 \<leftarrow> dump_message E p1 h;
     let out = ''message is'' @ newline @ dump @ v1 @ v2 @ ''check:'' @ newline @ dump2;
     Some (if a_msg = p1 then (out @ ''valid!'' @ newline, 1, h) else (out, 0, h))
   }"

definition test_hashG_node_creation :: "env \<Rightarrow> heap \<Rightarrow> (string \<times> int \<times> heap) option" where
  "test_hashG_node_creation E h = do {
     (uk, h) \<leftarrow> create_key_pair E h;
     (a_msg, h) \<leftarrow> get_a_signed_msg E uk h;
     dump \<leftarrow> dump_message E a_msg h;
     (a_msg2, h) \<leftarrow> get_a_signed_msg E uk h;
     v1 \<leftarrow> validation_note E uk a_msg h;
     v2 \<leftarrow> validation_note E uk a_msg2 h;
     (aHP1, h) \<leftarrow> create_hpoint_message (env_generichash E) a_msg a_msg2 h;
     (a_msg3, h) \<leftarrow> get_a_signed_msg E uk h;
     (a_msg4, h) \<leftarrow> get_a_signed_msg E uk h;
     v3 \<leftarrow> validation_note E uk a_msg3 h;
     v4 \<leftarrow> validation_note E uk a_msg4 h;
     (aHP2, h) \<leftarrow> create_hpoint_message (env_generichash E) a_msg3 a_msg4 h;
     (GNODE, h) \<leftarrow> create_hpoint_hashG (env_generichash E) aHP1 aHP2 h;
     g \<leftarrow> h_points h GNODE;
     (c1, c2) \<leftarrow> (case hp_union g of Children c1 c2 \<Rightarrow> Some (c1, c2) | Smgs2 _ _ _ _ \<Rightarrow> None);
     (p1, p2) \<leftarrow> point_msgs c1 h;
     (p3, p4) \<leftarrow> point_msgs c2 h;
     let verdict = (\<lambda>ok name. if ok then ''validated '' @ name @ newline else '' '' @ name @ '' invalid'');
     Some (''message 1 is '' @ newline @ dump @ newline @ v1 @ v2 @ v3 @ v4 @ ''test message 1 from GNODE'' @ newline @
       verdict (p1 = a_msg) ''msg1'' @ verdict (p2 = a_msg2) ''msg2'' @ verdict (p3 = a_msg3) ''msg3'' @
       verdict (p4 = a_msg4) ''msg4'', 1, h)
   }"

text \<open>\<open>test1\<close> works on a copy of the struct that shares its text.  Its last line frees the struct and leaks the text.\<close>

definition test1 :: "protobuf \<Rightarrow> env \<Rightarrow> heap \<Rightarrow> (string \<times> heap) option" where
  "test1 PB E h = do {
     (uk, h) \<leftarrow> create_key_pair E h;
     (msg_p, h) \<leftarrow> ls_get_a_signed_msg E uk h;
     dump \<leftarrow> dump_message E msg_p h;
     (len, socket_buf_emit, h) \<leftarrow> serialize_data_v2 PB E (calloc 4096) msg_p h;
     dump2 \<leftarrow> DumpHex E socket_buf_emit len;
     out \<leftarrow> print_serialized_data PB socket_buf_emit len;
     h \<leftarrow> free_msg msg_p h;
     Some (''testing serialization!'' @ newline @ ''sended message'' @ newline @ dump @ newline @ dump2 @ out, h)
   }"

definition tests2 :: "protobuf \<Rightarrow> env \<Rightarrow> heap \<Rightarrow> (string \<times> heap) option" where
  "tests2 PB E h = test1 PB E h"

section \<open>What they do\<close>

lemma new_test_msg:
  assumes "test_env E" "heap_wf h"
  obtains h' m where "get_a_signed_msg E (keys_at E k) h = Some (h_next h, h')" "heap_wf h'" "h_points h' = h_points h"
    "h_msgs h' = (h_msgs h)(h_next h \<mapsto> m)" "msg_ok m" "validate_a_message E m (uk_pk (keys_at E k)) = Some 1"
  using keys_made [OF assms(1), of k] get_a_signed_msg_valid [OF test_envD(3) [OF assms(1)] _ assms(2)] by metis

lemma dump_message_ok: "h_msgs h a = Some m \<Longrightarrow> msg_ok m \<Longrightarrow> \<exists>s. dump_message E a h = Some s"
  by (auto simp: dump_message_def msg_ok_def DumpHex_def)

lemma live_old: "heap_wf h \<Longrightarrow> h_msgs h a = Some m \<Longrightarrow> a \<noteq> h_next h"
  by (auto simp: heap_wf_def)

text \<open>
  A first-level node keeps the pointers to its messages: the test succeeds.
\<close>

theorem test_hpoint_from_2msg_creation_valid:
  assumes "test_env E" "heap_wf h"
  shows "\<exists>out h'. test_hpoint_from_2msg_creation E h = Some (out @ ''valid!'' @ newline, 1, h')"
proof -
  obtain h1 m1 where h1: "get_a_signed_msg E (keys_at E (h_tick h)) (tick h) = Some (h_next h, h1)" "heap_wf h1"
      "h_msgs h1 = (h_msgs h)(h_next h \<mapsto> m1)" "msg_ok m1" "validate_a_message E m1 (uk_pk (keys_at E (h_tick h))) = Some 1"
    using new_test_msg [OF assms(1), of "tick h"] assms(2) by (metis heap_wf_tick tick_simps(1,3))
  obtain h2 m2 where h2: "get_a_signed_msg E (keys_at E (h_tick h1)) (tick h1) = Some (h_next h1, h2)" "heap_wf h2"
      "h_msgs h2 = (h_msgs h1)(h_next h1 \<mapsto> m2)" "msg_ok m2" "validate_a_message E m2 (uk_pk (keys_at E (h_tick h1))) = Some 1"
    using new_test_msg [OF assms(1), of "tick h1"] h1(2) by (metis heap_wf_tick tick_simps(1,3))
  have m: "h_msgs h1 (h_next h) = Some m1" "h_msgs h2 (h_next h) = Some m1" "h_msgs h2 (h_next h1) = Some m2"
    using h1(3) h2(3) live_old [OF h1(2), of "h_next h" m1] by auto
  obtain h3 p where h3: "create_hpoint_message (env_generichash E) (h_next h) (h_next h1) h2 = Some (h_next h2, h3)"
      "h_msgs h3 = h_msgs h2" "point_msgs (h_next h2) h3 = Some (h_next h, h_next h1)"
    using pair_node [OF assms(1) h2(2) m(2) h1(4) m(3) h2(4)] by metis
  obtain s1 s2 where "dump_message E (h_next h) h1 = Some s1" "dump_message E (h_next h) h3 = Some s2"
    using dump_message_ok [OF m(1) h1(4)] dump_message_ok [of h3 "h_next h" m1] m(2) h3(2) h1(4) by metis
  then show ?thesis
    using h1 h2 h3 m by (simp add: test_hpoint_from_2msg_creation_def new_keys [OF assms(1)] validation_note_def)
qed

theorem test_hpoint_from_2msg_creation_valid_witness:
  "\<exists>out h'. test_hpoint_from_2msg_creation ends_env empty_heap = Some (out @ ''valid!'' @ newline, 1, h')"
  using test_hpoint_from_2msg_creation_valid [OF ends_env_ok heap_wf_empty] .

text \<open>Two more messages and the node over them.\<close>

lemma new_pair:
  assumes "test_env E" "heap_wf h"
  obtains a b c h1 h2 h3 m1 where "get_a_signed_msg E (keys_at E k) h = Some (a, h1)" "get_a_signed_msg E (keys_at E k) h1 = Some (b, h2)"
    "create_hpoint_message (env_generichash E) a b h2 = Some (c, h3)" "heap_wf h3" "h_msgs h1 a = Some m1" "msg_ok m1"
    "validation_note E (keys_at E k) a h2 = Some []" "validation_note E (keys_at E k) b h2 = Some []"
    "point_msgs c h3 = Some (a, b)" "point_child_ok (env_generichash E) h3 c"
    "\<And>x q. h_points h x = Some q \<Longrightarrow> h_points h3 x = Some q"
proof -
  obtain h1 m1 where h1: "get_a_signed_msg E (keys_at E k) h = Some (h_next h, h1)" "heap_wf h1" "h_points h1 = h_points h"
      "h_msgs h1 = (h_msgs h)(h_next h \<mapsto> m1)" "msg_ok m1" "validate_a_message E m1 (uk_pk (keys_at E k)) = Some 1"
    by (rule new_test_msg [OF assms])
  obtain h2 m2 where h2: "get_a_signed_msg E (keys_at E k) h1 = Some (h_next h1, h2)" "heap_wf h2" "h_points h2 = h_points h1"
      "h_msgs h2 = (h_msgs h1)(h_next h1 \<mapsto> m2)" "msg_ok m2" "validate_a_message E m2 (uk_pk (keys_at E k)) = Some 1"
    by (rule new_test_msg [OF assms(1) h1(2)])
  have m: "h_msgs h1 (h_next h) = Some m1" "h_msgs h2 (h_next h) = Some m1" "h_msgs h2 (h_next h1) = Some m2"
    using h1(4) h2(4) live_old [OF h1(2), of "h_next h" m1] by auto
  obtain h3 p where h3: "create_hpoint_message (env_generichash E) (h_next h) (h_next h1) h2 = Some (h_next h2, h3)" "heap_wf h3"
      "h_points h3 = (h_points h2)(h_next h2 \<mapsto> p)" "point_msgs (h_next h2) h3 = Some (h_next h, h_next h1)"
      "point_child_ok (env_generichash E) h3 (h_next h2)"
    by (rule pair_node [OF assms(1) h2(2) m(2) h1(5) m(3) h2(5)]) blast
  have "h_points h3 x = Some q" if "h_points h x = Some q" for x q
    using that h3(3) h2(3) h1(3) heap_wf_fresh(2) [OF h2(2), of "h_next h2"] by auto
  then show thesis
    using that [OF h1(1) h2(1) h3(1,2) m(1) h1(5) _ _ h3(4,5)] m(2,3) h1(6) h2(6) by (simp add: validation_note_def)
qed

lemma point_msgs_kept:
  assumes "point_msgs c h = Some r" "\<And>x q. h_points h x = Some q \<Longrightarrow> h_points h' x = Some q"
  shows "point_msgs c h' = Some r"
  using assms by (auto simp: point_msgs_def split: Option.bind_splits)

text \<open>
  The children of an inner node are the nodes it was built over, with their messages: the test says so of all four
  messages and of no validation error.
\<close>

theorem test_hashG_node_creation_valid:
  assumes "test_env E" "heap_wf h"
  shows "\<exists>dump h'. test_hashG_node_creation E h = Some (''message 1 is '' @ newline @ dump @ newline @
    ''test message 1 from GNODE'' @ newline @ ''validated msg1'' @ newline @ ''validated msg2'' @ newline @
    ''validated msg3'' @ newline @ ''validated msg4'' @ newline, 1, h')"
proof -
  let ?k = "keys_at E (h_tick h)" and ?H = "env_generichash E"
  have "heap_wf (tick h)" using assms(2) by simp
  then obtain a1 a2 c1 h1 h2 h3 m1 where p: "get_a_signed_msg E ?k (tick h) = Some (a1, h1)" "get_a_signed_msg E ?k h1 = Some (a2, h2)"
      "create_hpoint_message ?H a1 a2 h2 = Some (c1, h3)" "heap_wf h3" "h_msgs h1 a1 = Some m1" "msg_ok m1"
      "validation_note E ?k a1 h2 = Some []" "validation_note E ?k a2 h2 = Some []" "point_msgs c1 h3 = Some (a1, a2)"
      "point_child_ok ?H h3 c1"
    using new_pair [OF assms(1), of "tick h" "h_tick h" thesis] by blast
  obtain a3 a4 c2 h4 h5 h6 m3 where q: "get_a_signed_msg E ?k h3 = Some (a3, h4)" "get_a_signed_msg E ?k h4 = Some (a4, h5)"
      "create_hpoint_message ?H a3 a4 h5 = Some (c2, h6)" "heap_wf h6" "h_msgs h4 a3 = Some m3" "msg_ok m3"
      "validation_note E ?k a3 h5 = Some []" "validation_note E ?k a4 h5 = Some []" "point_msgs c2 h6 = Some (a3, a4)"
      "point_child_ok ?H h6 c2" "\<And>x q. h_points h3 x = Some q \<Longrightarrow> h_points h6 x = Some q"
    by (rule new_pair [OF assms(1) p(4), where k = "h_tick h"]) blast
  let ?h7 = "snd (alloc_point (inner_node ?H h6 c1 c2) h6)"
  have "point_child_ok ?H h6 c1" using p(10) q(11) by (auto simp: point_child_ok_def)
  then have g: "create_hpoint_hashG ?H c1 c2 h6 = Some (h_next h6, ?h7)"
    using inner_builder.build [of ?H h6 c1 c2] q(10) by (simp add: alloc_point_def)
  have kept: "h_points ?h7 x = Some y" if "h_points h6 x = Some y" for x y
    using that heap_wf_fresh(2) [OF q(4), of "h_next h6"] by (auto simp: alloc_point_def)
  have c: "point_msgs c1 ?h7 = Some (a1, a2)" "point_msgs c2 ?h7 = Some (a3, a4)"
    using point_msgs_kept [OF point_msgs_kept [OF p(9)]] point_msgs_kept [OF q(9)] q(11) kept by blast+
  obtain dump where "dump_message E a1 h1 = Some dump" using dump_message_ok [OF p(5,6)] by blast
  moreover have "h_points ?h7 (h_next h6) = Some (inner_node ?H h6 c1 c2)" by (simp add: alloc_point_def)
  ultimately show ?thesis
    using p(1-3,7,8) q(1-3,7,8) g c by (simp add: test_hashG_node_creation_def new_keys [OF assms(1)] inner_node_def)
qed

theorem test_hashG_node_creation_valid_witness:
  "\<exists>out h'. test_hashG_node_creation ends_env empty_heap = Some (out, 1, h')"
  using test_hashG_node_creation_valid [OF ends_env_ok heap_wf_empty] by blast

text \<open>
  The serialisation test runs to its end: the message it draws fits the buffer of 4096 bytes, can be unpacked, and is the only
  object, which it frees.
\<close>

theorem tests2_runs:
  assumes "test_env E" "clock_ok E" "protobuf_ok PB" "heap_wf h"
  shows "\<exists>out h'. tests2 PB E h = Some (out, h') \<and> clean_run 5 h h'"
proof -
  let ?k = "keys_at E (h_tick h)" and ?a = "h_next h"
  let ?g = "stored E ?k 1 (tick h)" and ?m = "drawn_msg E ?k (Suc (Suc (h_tick h)))"
  have m: "h_msgs ?g ?a = Some ?m" by (rule stored_at [of 0]) simp_all
  obtain dump where d: "dump_message E ?a ?g = Some dump" using dump_message_ok [OF m drawn_valid(1) [OF assms(1)]] by blast
  have "unat (sm_length ?m) \<le> 3000" by (simp add: drawn_msg_def)
  from serialize_message [OF assms(3,2) m drawn_valid(1) [OF assms(1)] this, of "calloc 4096"]
  obtain n buf im where s: "serialize_data_v2 PB E (calloc 4096) ?a ?g = Some (n, buf, tick (tick ?g))" "n \<le> 4096" "length buf = 4096"
      "ipc_message__unpack PB n buf = Some im" by auto
  obtain dump2 where d2: "DumpHex E buf n = Some dump2" using s(2,3) by (simp add: DumpHex_def)
  have "holds_new 1 5 h (tick (tick ?g))"
    using stored_new [OF assms(4), of 1 E ?k] by (simp add: holds_new_def)
  then obtain h' where "foldM destroy_signed_message [?a] (tick (tick ?g)) = Some h'" "clean_run 5 h h'"
    using destroy_new [OF assms(4), of 1 5 "tick (tick ?g)" "[?a]"] by auto
  then have "free_msg ?a (tick (tick ?g)) = Some h'" "clean_run 5 h h'"
    using m by (simp_all add: destroy_signed_message_def)
  then show ?thesis
    using d s(1,4) d2 by (simp add: tests2_def test1_def new_keys [OF assms(1)] draw_stored [OF assms(1)] print_serialized_data_def)
qed

theorem tests2_runs_witness: "\<exists>out h'. tests2 plain_pb ends_env empty_heap = Some (out, h')"
proof -
  have "clock_ok ends_env" using demo_clock_ok by (simp add: clock_ok_def ends_env_def)
  then show ?thesis using tests2_runs [OF ends_env_ok _ plain_pb_ok heap_wf_empty] by blast
qed

end
